(* ===== verification/Prelude.thy ===== *)
theory Prelude
  imports Main "HOL-Library.Word"
begin

text \<open>
  Shared vocabulary of the development: the machine integers of the C sources as words, error
  codes, the outcome of a C call (success, error return, failed assertion, a loop that waits for
  another thread), byte memory with bounded reads and writes, and the generic lemmas on words and
  lists that every component uses.
\<close>

unbundle bit_operations_syntax

named_theorems mem_simps \<open>equations of reads and writes of byte memory\<close>
named_theorems outcome_simps \<open>equations of sequencing of C calls\<close>

section \<open>Machine integers\<close>

type_synonym u8 = "8 word"
type_synonym u16 = "16 word"
type_synonym u32 = "32 word"
type_synonym u64 = "64 word"
type_synonym byte = "8 word"

section \<open>Error codes and outcomes of calls\<close>

text \<open>
  The error numbers the sources return. A C function of type \<open>nvwal_error_t\<close> returns 0 for
  success, modelled by \<open>None\<close>, or an error number. \<open>EPERM\<close> is the number 1 that the
  searches of the metadata store return for ``not found''; \<open>Eother\<close> stands for the numbers
  only the operating system produces.
\<close>

datatype errno = EPERM | ENOENT | EIO | EINVAL | ENOBUFS | ETIMEDOUT | ENOTEMPTY | Eother nat

type_synonym nvwal_error_t = "errno option"

text \<open>
  The outcome of a call. \<open>Ok\<close>: it returned 0 with a value in a state. \<open>Fail\<close>: it returned
  an error number, and the state keeps what was done before. \<open>Abort\<close>: an assertion of the
  source failed, or memory was accessed out of its bounds. \<open>Spin\<close>: a loop of the call is still
  waiting in that state, for another thread or for data that never comes.
\<close>

datatype ('a, 's) outcome = Ok 'a 's | Fail errno 's | Abort | Spin 's

text \<open>
  Sequencing, which is what the macro \<open>NVWAL_CHECK_ERROR\<close> does with the result of a call.
\<close>

fun and_then :: "('a, 's) outcome \<Rightarrow> ('a \<Rightarrow> 's \<Rightarrow> ('b, 's) outcome) \<Rightarrow> ('b, 's) outcome" where
  "and_then (Ok a s) f = f a s"
| "and_then (Fail e s) f = Fail e s"
| "and_then Abort f = Abort"
| "and_then (Spin s) f = Spin s"

text \<open>\<open>assert\<close> of the C library.\<close>

definition c_assert :: "bool \<Rightarrow> ('a, 's) outcome \<Rightarrow> ('a, 's) outcome" where
  "c_assert b k = (if b then k else Abort)"

text \<open>
  The result of a pure function whose assertions may fail, and the element of an array at an index,
  which must be in range.
\<close>

definition checked :: "'x option \<Rightarrow> ('x \<Rightarrow> ('a, 's) outcome) \<Rightarrow> ('a, 's) outcome" where
  "checked x k = (case x of None \<Rightarrow> Abort | Some y \<Rightarrow> k y)"

definition elem_at :: "'x list \<Rightarrow> nat \<Rightarrow> ('x \<Rightarrow> ('a, 's) outcome) \<Rightarrow> ('a, 's) outcome" where
  "elem_at xs i k = (if i < length xs then k (xs ! i) else Abort)"

text \<open>
  A call on a part of the state, lifted to the whole: \<open>get\<close> selects the part, \<open>put\<close> stores it.
\<close>

fun lift_outcome :: "('p \<Rightarrow> 's \<Rightarrow> 's) \<Rightarrow> ('a, 'p) outcome \<Rightarrow> 's \<Rightarrow> ('a, 's) outcome" where
  "lift_outcome put (Ok a p) s = Ok a (put p s)"
| "lift_outcome put (Fail e p) s = Fail e (put p s)"
| "lift_outcome put Abort s = Abort"
| "lift_outcome put (Spin p) s = Spin (put p s)"

section \<open>Byte memory\<close>

definition mem_read :: "byte list \<Rightarrow> nat \<Rightarrow> nat \<Rightarrow> byte list" where
  "mem_read m off len = take len (drop off m)"

definition mem_write :: "byte list \<Rightarrow> nat \<Rightarrow> byte list \<Rightarrow> byte list" where
  "mem_write m off bs = take off m @ bs @ drop (off + length bs) m"

text \<open>Little-endian bytes of a number, and back.\<close>

fun nat_bytes :: "nat \<Rightarrow> nat \<Rightarrow> byte list" where
  "nat_bytes 0 v = []"
| "nat_bytes (Suc n) v = of_nat (v mod 256) # nat_bytes n (v div 256)"

fun bytes_nat :: "byte list \<Rightarrow> nat" where
  "bytes_nat [] = 0"
| "bytes_nat (b # bs) = unat b + 256 * bytes_nat bs"

section \<open>Generic lemmas\<close>

declare c_assert_def [outcome_simps]

lemma checked_Some [simp]: "checked (Some y) k = k y"
  by (simp add: checked_def)

lemma checked_None [simp]: "checked None k = Abort"
  by (simp add: checked_def)

lemma elem_at_in [simp]: "i < length xs \<Longrightarrow> elem_at xs i k = k (xs ! i)"
  by (simp add: elem_at_def)

lemma elem_at_Ok_iff [outcome_simps]:
  "elem_at xs i k = Ok a s \<longleftrightarrow> i < length xs \<and> k (xs ! i) = Ok a s"
  by (simp add: elem_at_def)

lemma checked_Ok_iff [outcome_simps]: "checked x k = Ok a s \<longleftrightarrow> (\<exists>y. x = Some y \<and> k y = Ok a s)"
  by (cases x) auto

lemma and_then_Ok_iff [outcome_simps]:
  "and_then m f = Ok b t \<longleftrightarrow> (\<exists>a s. m = Ok a s \<and> f a s = Ok b t)"
  by (cases m) auto

lemma c_assert_True [simp]: "c_assert True k = k"
  by (simp add: c_assert_def)

lemma c_assert_False [simp]: "c_assert False k = Abort"
  by (simp add: c_assert_def)

lemma c_assert_Ok [simp]: "b \<Longrightarrow> c_assert b k = k"
  by (simp add: c_assert_def)

lemma c_assert_eq_Ok_iff [outcome_simps]: "c_assert b k = Ok a s \<longleftrightarrow> b \<and> k = Ok a s"
  by (simp add: c_assert_def)

subsection \<open>Reads and writes\<close>

lemma length_mem_write [mem_simps]:
  "off + length bs \<le> length m \<Longrightarrow> length (mem_write m off bs) = length m"
  by (simp add: mem_write_def)

lemma length_mem_read [mem_simps]:
  "off + len \<le> length m \<Longrightarrow> length (mem_read m off len) = len"
  by (simp add: mem_read_def)

lemma mem_write_Nil [mem_simps]: "mem_write m off [] = m"
  by (simp add: mem_write_def)

lemma mem_read_write_same [mem_simps]:
  "off + length bs \<le> length m \<Longrightarrow> mem_read (mem_write m off bs) off (length bs) = bs"
  by (simp add: mem_read_def mem_write_def)

lemma mem_read_write_before [mem_simps]:
  "o1 + len \<le> o2 \<Longrightarrow> o2 \<le> length m \<Longrightarrow> mem_read (mem_write m o2 bs) o1 len = mem_read m o1 len"
  by (simp add: mem_read_def mem_write_def take_drop min_def)

lemma mem_read_write_after [mem_simps]:
  assumes "o2 + length bs \<le> o1" "o1 \<le> length m"
  shows "mem_read (mem_write m o2 bs) o1 len = mem_read m o1 len"
proof -
  have "o2 \<le> length m" using assms by linarith
  then have "drop o1 (take o2 m @ bs @ drop (o2 + length bs) m) = drop o1 m"
    using assms by (simp add: min_absorb2)
  then show ?thesis by (simp add: mem_read_def mem_write_def)
qed

lemma take_mem_write_grow [mem_simps]:
  "off + length bs \<le> length m \<Longrightarrow> take (off + length bs) (mem_write m off bs) = take off m @ bs"
  by (simp add: mem_write_def)

lemma take_mem_write_le [mem_simps]:
  "n \<le> off \<Longrightarrow> off \<le> length m \<Longrightarrow> take n (mem_write m off bs) = take n m"
  by (simp add: mem_write_def min_def)

lemma mem_write_append [mem_simps]:
  assumes "off + length a + length b \<le> length m"
  shows "mem_write (mem_write m off a) (off + length a) b = mem_write m off (a @ b)"
  using assms by (simp add: mem_write_def ac_simps)

lemma nth_mem_write:
  assumes "off + length bs \<le> length m" "i < length m"
  shows "mem_write m off bs ! i = (if off \<le> i \<and> i < off + length bs then bs ! (i - off) else m ! i)"
  using assms by (auto simp: mem_write_def nth_append min_def)

lemma length_nat_bytes [simp]: "length (nat_bytes n v) = n"
  by (induction n v rule: nat_bytes.induct) auto

lemma bytes_nat_nat_bytes: "bytes_nat (nat_bytes n v) = v mod 256 ^ n"
proof (induction n v rule: nat_bytes.induct)
  case (2 n v)
  have "unat (of_nat (v mod 256) :: byte) = v mod 256"
    by (simp add: unat_of_nat take_bit_eq_mod)
  with 2 show ?case by (simp add: mod_mult2_eq)
qed simp

subsection \<open>Words as bounded naturals\<close>

lemma unat_plus_no_wrap:
  fixes a b :: u64
  assumes "unat a + unat b < 2 ^ 64"
  shows "unat (a + b) = unat a + unat b"
  using assms by (simp add: unat_word_ariths)

lemma unat_minus_le:
  fixes a b :: u64
  assumes "b \<le> a"
  shows "unat (a - b) = unat a - unat b"
  using assms by (rule unat_sub)

lemma unat_u64_less: "unat (a :: u64) < 18446744073709551616"
  using unsigned_less [of a, where ?'a = nat] by simp

lemma unat_eq_u64: "unat a = unat b \<longleftrightarrow> a = (b :: u64)"
  by (simp add: word_unat_eq_iff)

lemma unat_of_nat_small: "n < 2 ^ 64 \<Longrightarrow> unat (of_nat n :: u64) = n"
  by (simp add: unat_of_nat take_bit_eq_mod)

lemma unat_minus_1_u64: "unat (- 1 :: u64) = 18446744073709551615"
  by (simp add: unsigned_minus_1_eq_mask mask_eq_exp_minus_1)

lemma unat_suc_u64:
  fixes a :: u64
  assumes "a \<noteq> - 1"
  shows "unat (a + 1) = Suc (unat a)"
proof -
  have "1 + a \<noteq> 0"
    using assms by (metis add.commute eq_neg_iff_add_eq_0)
  then show ?thesis
    by (simp add: unatSuc add.commute)
qed

lemma unat_pred_u64:
  fixes a :: u64
  assumes "a \<noteq> 0"
  shows "unat (a - 1) = unat a - 1"
  using assms by (simp add: unat_minus_one)

lemma unat_min_u64: "unat (if a < b then a else (b :: u64)) = min (unat a) (unat b)"
  by (simp add: min_def word_less_nat_alt)

lemma mod_shift_half:
  fixes k :: int
  assumes "0 \<le> k" "k < 4294967296"
  shows "(k + 2147483648) mod 4294967296 - 2147483648
           = (if k < 2147483648 then k else k - 4294967296)"
proof (cases "k < 2147483648")
  case True
  with assms(1) show ?thesis by simp
next
  case False
  then have "(k + 2147483648) mod 4294967296 = (k - 2147483648) mod 4294967296"
    using mod_add_self2 [of "k - 2147483648" "4294967296 :: int"] by (simp add: add.commute)
  with False assms show ?thesis by simp
qed

lemma sint_u32_alt:
  fixes p :: u32
  shows "sint p = (if unat p < 2147483648 then int (unat p) else int (unat p) - 4294967296)"
proof -
  have b: "0 \<le> uint p" "uint p < 4294967296"
    using uint_lt2p [of p] by simp_all
  have "sint p = (uint p + 2147483648) mod 4294967296 - 2147483648"
    by (simp add: sint_uint signed_take_bit_eq_take_bit_shift take_bit_eq_mod)
  also have "\<dots> = (if uint p < 2147483648 then uint p else uint p - 4294967296)"
    using b by (rule mod_shift_half)
  finally show ?thesis
    using of_nat_less_iff [of "unat p" 2147483648, where ?'a = int] by simp
qed

lemma unat_suc_u32:
  fixes a :: u32
  assumes "a \<noteq> - 1"
  shows "unat (a + 1) = Suc (unat a)"
proof -
  have "1 + a \<noteq> 0"
    using assms by (metis add.commute eq_neg_iff_add_eq_0)
  then show ?thesis
    by (simp add: unatSuc add.commute)
qed

lemma unat_minus_1_u32: "unat (- 1 :: u32) = 4294967295"
  by (simp add: unsigned_minus_1_eq_mask mask_eq_exp_minus_1)

lemma unat_u32_less: "unat (a :: u32) < 4294967296"
  using unsigned_less [of a, where ?'a = nat] by simp

lemma unat_ucast_up [simp]: "unat (ucast (a :: u32) :: u64) = unat a"
  using unat_u32_less [of a] by (simp add: unsigned_ucast_eq take_bit_nat_eq_self)

lemma unat_ucast_down: "unat (a :: u64) < 4294967296 \<Longrightarrow> unat (ucast a :: u32) = unat a"
  by (simp add: unsigned_ucast_eq take_bit_nat_eq_self)

lemma unat_eq_u32: "unat a = unat b \<longleftrightarrow> a = (b :: u32)"
  by (simp add: word_unat_eq_iff)

end
