(* ===== verification/Types.thy ===== *)
theory Types
  imports Prelude
begin

text \<open>
  The constants, enumerations and structs of \<^verbatim>\<open>include/nvwal_types.h\<close>,
  \<^verbatim>\<open>include/nvwal_mds_types.h\<close> and \<^verbatim>\<open>include/nvwal_impl_init.h\<close>. A struct is a record with
  the struct's fields in the struct's order, its field names prefixed to keep them apart; padding
  is dropped. Back pointers to the one \<open>NvwalContext\<close> (\<open>parent_\<close>, \<open>wal_\<close>, \<open>io_\<close>) are dropped too:
  the functions take the context itself. A pointer into a memory-mapped file is the path of that
  file (\<open>None\<close> for \<open>NULL\<close> and \<open>MAP_FAILED\<close>), because every mapping of the sources maps a whole file.
\<close>

section \<open>Constants\<close>

definition kNvwalInvalidEpoch :: u64 where [simp]: "kNvwalInvalidEpoch = 0"
definition kNvwalInvalidDsid :: u64 where [simp]: "kNvwalInvalidDsid = 0"
definition kNvwalInvalidPage :: u64 where [simp]: "kNvwalInvalidPage = 0"
definition kNvwalMaxPathLength :: nat where [simp]: "kNvwalMaxPathLength = 256"
definition kNvwalMaxFolderPathLength :: nat where
  [simp]: "kNvwalMaxFolderPathLength = kNvwalMaxPathLength - 32"
definition kNvwalMaxWorkers :: nat where [simp]: "kNvwalMaxWorkers = 64"
definition kNvwalMaxActiveSegments :: nat where [simp]: "kNvwalMaxActiveSegments = 1024"
definition kNvwalDefaultSegmentSize :: u64 where [simp]: "kNvwalDefaultSegmentSize = 33554432"
definition kNvwalEpochFrameCount :: nat where [simp]: "kNvwalEpochFrameCount = 5"
definition kNvwalCursorEpochPrefetches :: nat where [simp]: "kNvwalCursorEpochPrefetches = 2"
definition kNvwalMdsPageSize :: u64 where [simp]: "kNvwalMdsPageSize = 1048576"
definition kNvwalMdsMaxPagefiles :: nat where [simp]: "kNvwalMdsMaxPagefiles = 1"
definition kNvwalMdsReadPrefetch :: nat where [simp]: "kNvwalMdsReadPrefetch = 16"

section \<open>Enumerations\<close>

text \<open>
  \<open>kNvwalInitOther\<close> stands for the values of the enumeration's integer type that name no mode.
\<close>

datatype NvwalInitMode =
  kNvwalInitRestart | kNvwalInitCreateIfNotExists | kNvwalInitCreateTruncate | kNvwalInitOther nat

datatype NvwalDebugLevel = kNvwalInvalidDebugLevel | INFO | WARNING | ERROR | FATAL

datatype NvwalThreadState =
  kNvwalThreadStateBeingInitialized
| kNvwalThreadStateAcceptStart
| kNvwalThreadStateRunning
| kNvwalThreadStateRunningAndRequestedStop
| kNvwalThreadStateStopped
| kNvwalThreadStateProhibitStart

section \<open>Configuration and control block\<close>

type_synonym addr = string

text \<open>
  The path arrays are lists of characters; the string an array holds ends at its first null
  character, if it has one. A writer buffer is the memory the client gave, \<open>None\<close> for a null
  pointer.
\<close>

record NvwalConfig =
  cf_libnvwal_version :: u64
  cf_debug_level :: NvwalDebugLevel
  cf_nv_root :: "char list"
  cf_disk_root :: "char list"
  cf_nv_root_len :: u16
  cf_disk_root_len :: u16
  cf_resuming_epoch :: u64
  cf_writer_count :: u32
  cf_segment_size :: u64
  cf_nv_quota :: u64
  cf_writer_buffer_size :: u64
  cf_writer_buffers :: "byte list option list"
  cf_mds_page_size :: u64

record NvwalControlBlockFsyncerProgress =
  sp_last_synced_dsid :: u64

record NvwalControlBlockFlusherProgress =
  fp_durable_epoch :: u64
  fp_paged_mds_epoch :: u64

record NvwalControlBlock =
  cb_flusher_progress :: NvwalControlBlockFlusherProgress
  cb_fsyncer_progress :: NvwalControlBlockFsyncerProgress
  cb_config :: NvwalConfig

section \<open>Writers\<close>

record NvwalWriterEpochFrame =
  fr_head_offset :: u64
  fr_tail_offset :: u64
  fr_log_epoch :: u64
  fr_user_metadata_0 :: u64
  fr_user_metadata_1 :: u64

record NvwalWriterContext =
  wr_epoch_frames :: "NvwalWriterEpochFrame list"
  wr_active_frame :: u32
  wr_writer_seq_id :: u32
  wr_last_tail_offset :: u64
  wr_buffer :: "byte list"

section \<open>Log segments\<close>

record NvwalLogSegment =
  sg_nv_baseaddr :: "addr option"
  sg_dsid :: u64
  sg_nv_segment_index :: u32
  sg_nv_reader_pins :: u32
  sg_fsync_requested :: bool
  sg_fsync_completed :: bool
  sg_fsync_error :: nvwal_error_t
  sg_written_bytes :: u64
  sg_nv_fd :: int

section \<open>Metadata store\<close>

record NvwalMdsPageFile =
  pf_active :: bool
  pf_file_no :: u64
  pf_fd :: int

record NvwalMdsIoContext =
  io_files :: "NvwalMdsPageFile list"

record NvwalMdsBuffer =
  bf_file :: "u64 option"
  bf_page_no :: u64
  bf_dirty :: bool
  bf_baseaddr :: "addr option"

record NvwalMdsBufferManagerContext =
  bm_write_buffers :: "NvwalMdsBuffer list"

record NvwalMdsContext =
  mds_io :: NvwalMdsIoContext
  mds_bufmgr :: NvwalMdsBufferManagerContext
  mds_latest_epoch_of :: u64

record MdsEpochMetadata =
  em_epoch_id :: u64
  em_from_seg_id :: u64
  em_from_offset :: u32
  em_to_seg_id :: u64
  em_to_off :: u32
  em_user_metadata_0 :: u64
  em_user_metadata_1 :: u64

text \<open>
  The iterator holds the entries it read and, for the pointer \<open>epoch_metadata_\<close> into them, the
  index it points at.
\<close>

record MdsEpochIteratorBuffer =
  ib_epoch_metadata :: "MdsEpochMetadata list"
  ib_num_entries :: nat

record MdsEpochIterator =
  it_cur_epoch_id :: u64
  it_begin_epoch_id :: u64
  it_end_epoch_id :: u64
  it_buffer :: MdsEpochIteratorBuffer
  it_epoch_metadata :: nat

section \<open>Cursor\<close>

record NvwalCursorEpochMetadata =
  ce_epoch :: u64
  ce_start_dsid :: u64
  ce_last_dsid :: u64
  ce_start_offset :: u32
  ce_end_offset :: u32

record NvwalLogCursor =
  cu_current_epoch :: u64
  cu_start_epoch :: u64
  cu_end_epoch :: u64
  cu_cur_offset :: u64
  cu_cur_len :: u64
  cu_cur_segment_data :: "addr option"
  cu_cur_segment_disk_fd :: int
  cu_cur_segment_from_nv_segment :: bool
  cu_cur_segment_id :: u64
  cu_fetched_epochs_current :: u32
  cu_fetched_epochs_count :: u32
  cu_fetched_epochs :: "NvwalCursorEpochMetadata list"

section \<open>The WAL context\<close>

record NvwalContext =
  wal_durable_epoch :: u64
  wal_stable_epoch :: u64
  wal_next_epoch :: u64
  wal_config :: NvwalConfig
  wal_prev_config :: NvwalConfig
  wal_segments :: "NvwalLogSegment list"
  wal_nv_control_block :: "addr option"
  wal_nv_control_file_fd :: int
  wal_segment_count :: u32
  wal_flusher_current_nv_segment_dsid :: u64
  wal_flusher_current_epoch_head_dsid :: u64
  wal_flusher_current_epoch_head_offset :: u64
  wal_flusher_current_epoch_user_metadata_0 :: u64
  wal_flusher_current_epoch_user_metadata_1 :: u64
  wal_writers :: "NvwalWriterContext list"
  wal_flusher_thread_state :: NvwalThreadState
  wal_fsyncer_thread_state :: NvwalThreadState
  wal_mds :: NvwalMdsContext

section \<open>Zeroed structs\<close>

text \<open>What \<open>memset\<close> with zero leaves of the structs the sources clear.\<close>

definition zero_config :: NvwalConfig where
  "zero_config = \<lparr>cf_libnvwal_version = 0, cf_debug_level = kNvwalInvalidDebugLevel,
     cf_nv_root = replicate kNvwalMaxPathLength (CHR 0x00),
     cf_disk_root = replicate kNvwalMaxPathLength (CHR 0x00),
     cf_nv_root_len = 0, cf_disk_root_len = 0, cf_resuming_epoch = 0, cf_writer_count = 0,
     cf_segment_size = 0, cf_nv_quota = 0, cf_writer_buffer_size = 0,
     cf_writer_buffers = replicate kNvwalMaxWorkers None, cf_mds_page_size = 0\<rparr>"

definition zero_control_block :: NvwalControlBlock where
  "zero_control_block = \<lparr>cb_flusher_progress = \<lparr>fp_durable_epoch = 0, fp_paged_mds_epoch = 0\<rparr>,
     cb_fsyncer_progress = \<lparr>sp_last_synced_dsid = 0\<rparr>, cb_config = zero_config\<rparr>"

definition zero_frame :: NvwalWriterEpochFrame where
  "zero_frame = \<lparr>fr_head_offset = 0, fr_tail_offset = 0, fr_log_epoch = 0,
     fr_user_metadata_0 = 0, fr_user_metadata_1 = 0\<rparr>"

definition zero_writer :: NvwalWriterContext where
  "zero_writer = \<lparr>wr_epoch_frames = replicate kNvwalEpochFrameCount zero_frame, wr_active_frame = 0,
     wr_writer_seq_id = 0, wr_last_tail_offset = 0, wr_buffer = []\<rparr>"

definition zero_segment :: NvwalLogSegment where
  "zero_segment = \<lparr>sg_nv_baseaddr = None, sg_dsid = 0, sg_nv_segment_index = 0, sg_nv_reader_pins = 0,
     sg_fsync_requested = False, sg_fsync_completed = False, sg_fsync_error = None,
     sg_written_bytes = 0, sg_nv_fd = 0\<rparr>"

definition zero_page_file :: NvwalMdsPageFile where
  "zero_page_file = \<lparr>pf_active = False, pf_file_no = 0, pf_fd = 0\<rparr>"

definition zero_buffer :: NvwalMdsBuffer where
  "zero_buffer = \<lparr>bf_file = None, bf_page_no = 0, bf_dirty = False, bf_baseaddr = None\<rparr>"

definition zero_mds :: NvwalMdsContext where
  "zero_mds = \<lparr>mds_io = \<lparr>io_files = replicate kNvwalMdsMaxPagefiles zero_page_file\<rparr>,
     mds_bufmgr = \<lparr>bm_write_buffers = replicate kNvwalMdsMaxPagefiles zero_buffer\<rparr>,
     mds_latest_epoch_of = 0\<rparr>"

definition zero_context :: NvwalContext where
  "zero_context = \<lparr>wal_durable_epoch = 0, wal_stable_epoch = 0, wal_next_epoch = 0,
     wal_config = zero_config, wal_prev_config = zero_config,
     wal_segments = replicate kNvwalMaxActiveSegments zero_segment,
     wal_nv_control_block = None, wal_nv_control_file_fd = 0, wal_segment_count = 0,
     wal_flusher_current_nv_segment_dsid = 0, wal_flusher_current_epoch_head_dsid = 0,
     wal_flusher_current_epoch_head_offset = 0, wal_flusher_current_epoch_user_metadata_0 = 0,
     wal_flusher_current_epoch_user_metadata_1 = 0,
     wal_writers = replicate kNvwalMaxWorkers zero_writer,
     wal_flusher_thread_state = kNvwalThreadStateBeingInitialized,
     wal_fsyncer_thread_state = kNvwalThreadStateBeingInitialized, wal_mds = zero_mds\<rparr>"

section \<open>Order of the debug levels\<close>

text \<open>The enumerators of \<open>NvwalDebugLevel\<close> are compared as the integers 0 to 4.\<close>

fun debug_level_num :: "NvwalDebugLevel \<Rightarrow> nat" where
  "debug_level_num kNvwalInvalidDebugLevel = 0"
| "debug_level_num INFO = 1"
| "debug_level_num WARNING = 2"
| "debug_level_num ERROR = 3"
| "debug_level_num FATAL = 4"

instantiation NvwalDebugLevel :: linorder
begin

definition less_eq_NvwalDebugLevel :: "NvwalDebugLevel \<Rightarrow> NvwalDebugLevel \<Rightarrow> bool" where
  "less_eq_NvwalDebugLevel a b = (debug_level_num a \<le> debug_level_num b)"

definition less_NvwalDebugLevel :: "NvwalDebugLevel \<Rightarrow> NvwalDebugLevel \<Rightarrow> bool" where
  "less_NvwalDebugLevel a b = (debug_level_num a < debug_level_num b)"

instance
proof
  fix x y z :: NvwalDebugLevel
  show "x < y \<longleftrightarrow> x \<le> y \<and> \<not> y \<le> x"
    by (auto simp: less_eq_NvwalDebugLevel_def less_NvwalDebugLevel_def)
  show "x \<le> x" by (simp add: less_eq_NvwalDebugLevel_def)
  show "x \<le> y \<Longrightarrow> y \<le> z \<Longrightarrow> x \<le> z" by (simp add: less_eq_NvwalDebugLevel_def)
  show "x \<le> y \<Longrightarrow> y \<le> x \<Longrightarrow> x = y"
    by (cases x; cases y) (auto simp: less_eq_NvwalDebugLevel_def)
  show "x \<le> y \<or> y \<le> x" by (auto simp: less_eq_NvwalDebugLevel_def)
qed

end

end
