(* ===== verification/Epoch.thy ===== *)
theory Epoch
  imports Types
begin

text \<open>
  Epoch arithmetic, the inline functions of \<^verbatim>\<open>include/nvwal_api.h\<close>. Epochs are 64-bit numbers
  that wrap around and skip the reserved value 0, and they are compared as serial numbers: an
  epoch is after another one if it is less than half the number space ahead of it.
\<close>

section \<open>Definitions\<close>

definition nvwal_is_epoch_after :: "u64 \<Rightarrow> u64 \<Rightarrow> bool" where
  "nvwal_is_epoch_after left right =
     (let diff = left - right in diff \<noteq> 0 \<and> diff < push_bit 63 1)"

definition nvwal_is_epoch_equal_or_after :: "u64 \<Rightarrow> u64 \<Rightarrow> bool" where
  "nvwal_is_epoch_equal_or_after left right = (left = right \<or> nvwal_is_epoch_after left right)"

definition nvwal_increment_epoch :: "u64 \<Rightarrow> u64" where
  "nvwal_increment_epoch epoch =
     (let ret = epoch + 1 in if ret = kNvwalInvalidEpoch then ret + 1 else ret)"

definition nvwal_add_epoch :: "u64 \<Rightarrow> u64 \<Rightarrow> u64" where
  "nvwal_add_epoch epoch operand =
     (let ret = epoch + operand in if ret < epoch then ret + 1 else ret)"

section \<open>Serial number order\<close>

lemma is_epoch_after_alt:
  "nvwal_is_epoch_after a b \<longleftrightarrow> a \<noteq> b \<and> a - b < 9223372036854775808"
  by (simp add: nvwal_is_epoch_after_def Let_def)

lemma unat_diff_cases:
  fixes a b :: u64
  shows "unat (a - b) = (if unat b \<le> unat a then unat a - unat b else 2 ^ 64 + unat a - unat b)"
proof (cases "unat b \<le> unat a")
  case True
  then show ?thesis by (simp add: unat_sub word_le_nat_alt)
next
  case False
  have "unat b < 2 ^ 64" using unsigned_less [of b, where ?'a = nat] by simp
  with False show ?thesis
    by (simp add: unat_sub_if' word_le_nat_alt)
qed

lemma is_epoch_after_unat:
  "nvwal_is_epoch_after a b \<longleftrightarrow>
     unat b < unat a \<and> unat a - unat b < 2 ^ 63 \<or> unat a < unat b \<and> 2 ^ 63 < unat b - unat a"
proof -
  have ab: "unat a < 2 ^ 64" "unat b < 2 ^ 64"
    using unsigned_less [of a, where ?'a = nat] unsigned_less [of b, where ?'a = nat] by simp_all
  have "nvwal_is_epoch_after a b \<longleftrightarrow> unat a \<noteq> unat b \<and> unat (a - b) < 2 ^ 63"
    by (auto simp: is_epoch_after_alt word_less_nat_alt unat_eq_u64)
  also have "\<dots> \<longleftrightarrow>
     unat b < unat a \<and> unat a - unat b < 2 ^ 63 \<or> unat a < unat b \<and> 2 ^ 63 < unat b - unat a"
    using ab unfolding unat_diff_cases [of a b] by (auto split: if_splits)
  finally show ?thesis .
qed

lemma is_epoch_after_irrefl [simp]: "\<not> nvwal_is_epoch_after a a"
  by (simp add: is_epoch_after_alt)

lemma is_epoch_after_asym: "nvwal_is_epoch_after a b \<Longrightarrow> \<not> nvwal_is_epoch_after b a"
  by (auto simp: is_epoch_after_unat)

section \<open>Counting epochs\<close>

lemma increment_epoch_alt:
  "nvwal_increment_epoch e = (if e = - 1 then 1 else e + 1)"
  by (auto simp: nvwal_increment_epoch_def Let_def eq_neg_iff_add_eq_0)

lemma increment_epoch_neq_0 [simp]: "nvwal_increment_epoch e \<noteq> 0"
  by (auto simp: increment_epoch_alt eq_neg_iff_add_eq_0)

lemma unat_increment_epoch:
  "unat (nvwal_increment_epoch e) = (if unat e = 2 ^ 64 - 1 then 1 else Suc (unat e))"
proof (cases "e = - 1")
  case True
  then show ?thesis by (simp add: increment_epoch_alt unat_minus_1_u64)
next
  case False
  then have "unat e \<noteq> unat (- 1 :: u64)" by (simp add: unat_eq_u64)
  with False show ?thesis by (simp add: increment_epoch_alt unat_suc_u64 unat_minus_1_u64)
qed

lemma unat_add_epoch:
  "unat (nvwal_add_epoch e k) =
     (if unat e + unat k < 2 ^ 64 then unat e + unat k else unat e + unat k - (2 ^ 64 - 1))"
proof (cases "unat e + unat k < 2 ^ 64")
  case True
  then have "unat (e + k) = unat e + unat k" by (rule unat_plus_no_wrap)
  with True show ?thesis
    by (simp add: nvwal_add_epoch_def Let_def word_less_nat_alt)
next
  case False
  have lt: "unat e < 2 ^ 64" "unat k < 2 ^ 64"
    using unat_u64_less [of e] unat_u64_less [of k] by simp_all
  have wrap: "unat (e + k) = unat e + unat k - 2 ^ 64"
    using False lt by (simp add: unat_word_ariths mod_if)
  then have less: "e + k < e" using lt False by (simp add: word_less_nat_alt)
  have "unat (e + k + 1) = Suc (unat (e + k))"
  proof (rule unat_suc_u64)
    show "e + k \<noteq> - 1"
      using wrap lt by (auto simp: unat_minus_1_u64 simp flip: unat_eq_u64)
  qed
  with less wrap False show ?thesis
    by (simp add: nvwal_add_epoch_def Let_def)
qed

lemma add_epoch_0 [simp]: "nvwal_add_epoch e 0 = e"
  by (simp add: nvwal_add_epoch_def)

lemma add_epoch_suc:
  assumes "k \<noteq> - 1"
  shows "nvwal_add_epoch e (k + 1) = nvwal_increment_epoch (nvwal_add_epoch e k)"
proof -
  have k: "unat (k + 1) = Suc (unat k)" using assms by (rule unat_suc_u64)
  have "unat e < 2 ^ 64" "unat (k + 1) < 2 ^ 64"
    using unat_u64_less [of e] unat_u64_less [of "k + 1"] by simp_all
  then have "unat (nvwal_add_epoch e (k + 1)) = unat (nvwal_increment_epoch (nvwal_add_epoch e k))"
    unfolding unat_add_epoch unat_increment_epoch k by simp linarith
  then show ?thesis by (simp add: unat_eq_u64)
qed

lemma epoch_after_window:
  assumes "unat i < 2 ^ 63 - 1" "unat j < 2 ^ 63 - 1"
  shows "nvwal_is_epoch_after (nvwal_add_epoch e i) (nvwal_add_epoch e j) \<longleftrightarrow> j < i"
proof -
  have "unat e < 2 ^ 64" using unat_u64_less [of e] by simp
  with assms show ?thesis
    unfolding is_epoch_after_unat unat_add_epoch word_less_nat_alt
    by (cases "unat e + unat i < 2 ^ 64"; cases "unat e + unat j < 2 ^ 64") (simp; linarith)+
qed

subsection \<open>Ranks\<close>

text \<open>
  The epochs in the order in which they are used, from the invalid epoch on: the sequence of epoch
  numbers wraps around and skips 0, their ranks do not.
\<close>

definition epoch_at :: "nat \<Rightarrow> u64" where
  "epoch_at n = (if n = 0 then kNvwalInvalidEpoch else of_nat ((n - 1) mod (2 ^ 64 - 1) + 1))"

lemma unat_epoch_at: "unat (epoch_at n) = (if n = 0 then 0 else (n - 1) mod (2 ^ 64 - 1) + 1)"
proof -
  have "(n - 1) mod (2 ^ 64 - 1) < 2 ^ 64 - 1" by (rule mod_less_divisor) simp
  then show ?thesis by (simp add: epoch_at_def unat_of_nat take_bit_eq_mod del: of_nat_Suc)
qed

lemma epoch_at_0 [simp]: "epoch_at 0 = 0"
  by (simp add: epoch_at_def)

lemma epoch_at_neq_0: "0 < n \<Longrightarrow> epoch_at n \<noteq> 0"
  using unat_epoch_at [of n] by (metis add_is_0 neq0_conv unat_0 zero_neq_one)

lemma epoch_at_small: "n < 2 ^ 64 \<Longrightarrow> epoch_at n = of_nat n"
  by (cases n) (simp_all add: epoch_at_def del: of_nat_Suc)

lemma increment_epoch_at: "nvwal_increment_epoch (epoch_at n) = epoch_at (Suc n)"
proof -
  have "unat (nvwal_increment_epoch (epoch_at n)) = unat (epoch_at (Suc n))"
    by (cases n) (auto simp: unat_increment_epoch unat_epoch_at mod_Suc)
  then show ?thesis by (simp only: unat_eq_u64)
qed

lemma add_epoch_at:
  assumes "k < 2 ^ 64"
  shows "nvwal_add_epoch (epoch_at n) (of_nat k) = epoch_at (n + k)"
  using assms
proof (induction k)
  case (Suc k)
  have "(of_nat k :: u64) \<noteq> - 1"
    using Suc.prems by (auto simp: unat_of_nat unat_minus_1_u64 simp flip: unat_eq_u64)
  from add_epoch_suc [OF this, of "epoch_at n"] Suc show ?case
    by (simp add: add.commute increment_epoch_at)
qed simp

lemma epoch_at_after:
  assumes "a < b + 2 ^ 62" "b < a + 2 ^ 62"
  shows "nvwal_is_epoch_after (epoch_at a) (epoch_at b) \<longleftrightarrow> b < a"
proof -
  define m where "m = min a b"
  have "epoch_at a = nvwal_add_epoch (epoch_at m) (of_nat (a - m))"
    "epoch_at b = nvwal_add_epoch (epoch_at m) (of_nat (b - m))"
    using add_epoch_at [of "a - m" m] add_epoch_at [of "b - m" m] assms by (simp_all add: m_def)
  moreover have u: "unat (of_nat (a - m) :: u64) = a - m" "unat (of_nat (b - m) :: u64) = b - m"
    using assms by (auto simp: m_def unat_of_nat take_bit_eq_mod simp del: of_nat_diff)
  ultimately have "nvwal_is_epoch_after (epoch_at a) (epoch_at b) \<longleftrightarrow> (of_nat (b - m) :: u64) < of_nat (a - m)"
    using assms by (simp add: epoch_after_window m_def)
  also have "\<dots> \<longleftrightarrow> b < a" using u by (auto simp: word_less_nat_alt m_def)
  finally show ?thesis .
qed

lemma epoch_at_eq:
  assumes "a < b + 2 ^ 62" "b < a + 2 ^ 62"
  shows "epoch_at a = epoch_at b \<longleftrightarrow> a = b"
  using epoch_at_after [OF assms] epoch_at_after [OF assms(2,1)] by (metis is_epoch_after_irrefl linorder_neq_iff)

lemma epoch_at_equal_or_after:
  assumes "a < b + 2 ^ 62" "b < a + 2 ^ 62"
  shows "nvwal_is_epoch_equal_or_after (epoch_at a) (epoch_at b) \<longleftrightarrow> b \<le> a"
  using epoch_at_after [OF assms] epoch_at_eq [OF assms] by (auto simp: nvwal_is_epoch_equal_or_after_def)

section \<open>Properties\<close>

text \<open>
  C26. \<open>nvwal_add_epoch\<close> is equivalent to calling \<open>nvwal_increment_epoch\<close> as many times as its
  second argument says, for every epoch and every operand: the single correction by one is exact
  although the reserved epoch 0 may be skipped anywhere on the way.
\<close>

theorem add_epoch_iterates_increment:
  "nvwal_add_epoch e k = (nvwal_increment_epoch ^^ unat k) e"
proof -
  have "nvwal_add_epoch e (of_nat n) = (nvwal_increment_epoch ^^ n) e" if "n < 2 ^ 64" for n
    using that
  proof (induction n)
    case 0
    then show ?case by simp
  next
    case (Suc n)
    have "(of_nat n :: u64) \<noteq> - 1"
      using Suc.prems by (auto simp: unat_of_nat unat_minus_1_u64 simp flip: unat_eq_u64)
    from add_epoch_suc [OF this, of e] Suc show ?case by (simp add: add.commute)
  qed
  from this [of "unat k"] unat_u64_less [of k] show ?thesis by simp
qed



text \<open>
  C28. The serial order in terms of plain comparisons: \<open>a\<close> is after \<open>b\<close> iff it is larger by less
  than \<open>2 ^ 63\<close>, or smaller by more than \<open>2 ^ 63\<close>. It is a strict order on distinct epochs except
  at distance exactly \<open>2 ^ 63\<close>, where neither epoch is after the other.
\<close>

theorem epoch_after_characterisation:
  "(nvwal_is_epoch_after a b \<longleftrightarrow>
      unat b < unat a \<and> unat a - unat b < 2 ^ 63 \<or> unat a < unat b \<and> 2 ^ 63 < unat b - unat a) \<and>
   (\<not> nvwal_is_epoch_after a b \<and> \<not> nvwal_is_epoch_after b a \<longleftrightarrow> a = b \<or> a - b = 2 ^ 63)"
proof -
  have lt: "unat a < 2 ^ 64" "unat b < 2 ^ 64"
    using unat_u64_less [of a] unat_u64_less [of b] by simp_all
  have "a - b = 2 ^ 63 \<longleftrightarrow> unat (a - b) = unat (2 ^ 63 :: u64)" by (simp only: unat_eq_u64)
  also have "\<dots> \<longleftrightarrow> unat b + 2 ^ 63 = unat a \<or> unat a + 2 ^ 63 = unat b"
    using lt unfolding unat_diff_cases by auto
  finally have half: "a - b = 2 ^ 63 \<longleftrightarrow> unat b + 2 ^ 63 = unat a \<or> unat a + 2 ^ 63 = unat b" .
  show ?thesis
    unfolding half using lt
    by (auto simp: is_epoch_after_unat simp flip: unat_eq_u64)
qed

end
