(* ===== verification/Os.thy ===== *)
theory Os
  imports Types
begin

text \<open>
  The operating system the library runs on: files, directories, file descriptors, memory mappings
  and what of them survives a crash. The library calls POSIX functions; this theory gives each of
  them the part of its documented behaviour the sources rely on.

  Every call may fail or do part of its work. What the operating system will answer is the list
  \<open>os_resp\<close>: a call consumes one answer, \<open>SysErr e\<close> for a failure with error number \<open>e\<close>, \<open>SysOk n\<close>
  for at most \<open>n\<close> bytes transferred; when the list is used up every call succeeds in full. A theorem
  for every \<open>os_resp\<close> therefore covers every finite sequence of failures and short transfers.

  \<open>os_files\<close> is the content of the files as the processes see it, through \<open>read\<close>, \<open>write\<close> and memory
  mappings; \<open>os_durable\<close> is what a crash leaves behind. The control file has a typed content, one
  \<open>NvwalControlBlock\<close>, in \<open>os_cblock\<close> and \<open>os_cblock_durable\<close>.
\<close>

section \<open>State\<close>

datatype sys_resp = SysOk nat | SysErr errno

datatype dtype = DT_REG | DT_DIR

record fdesc =
  fd_path :: addr
  fd_append :: bool
  fd_pos :: nat

record os =
  os_files :: "addr \<rightharpoonup> byte list"
  os_durable :: "addr \<rightharpoonup> byte list"
  os_dirs :: "addr \<rightharpoonup> (string \<times> dtype) list"
  os_cblock :: "addr \<Rightarrow> NvwalControlBlock"
  os_cblock_durable :: "addr \<Rightarrow> NvwalControlBlock"
  os_fds :: "int \<rightharpoonup> fdesc"
  os_next_fd :: int
  os_resp :: "sys_resp list"

text \<open>A WAL instance on its operating system.\<close>

record world =
  w_os :: os
  w_wal :: NvwalContext

definition set_os :: "os \<Rightarrow> world \<Rightarrow> world" where
  [simp]: "set_os s w = w\<lparr>w_os := s\<rparr>"

definition set_wal :: "NvwalContext \<Rightarrow> world \<Rightarrow> world" where
  [simp]: "set_wal c w = w\<lparr>w_wal := c\<rparr>"

section \<open>Answers of the operating system\<close>

definition sys_next :: "os \<Rightarrow> sys_resp option \<times> os" where
  "sys_next s = (case os_resp s of [] \<Rightarrow> (None, s) | r # rs \<Rightarrow> (Some r, s\<lparr>os_resp := rs\<rparr>))"

text \<open>A call that fails or succeeds as a whole.\<close>

definition sys_try :: "os \<Rightarrow> (os \<Rightarrow> (errno + 'a) \<times> os) \<Rightarrow> (errno + 'a) \<times> os" where
  "sys_try s k =
     (case sys_next s of (Some (SysErr e), t) \<Rightarrow> (Inl e, t) | (_, t) \<Rightarrow> k t)"

text \<open>The number of bytes a transfer of \<open>n\<close> bytes moves, or its error.\<close>

definition sys_amount :: "nat \<Rightarrow> os \<Rightarrow> (errno + nat) \<times> os" where
  "sys_amount n s =
     (case sys_next s of
        (None, t) \<Rightarrow> (Inr n, t)
      | (Some (SysOk k), t) \<Rightarrow> (Inr (min k n), t)
      | (Some (SysErr e), t) \<Rightarrow> (Inl e, t))"

section \<open>Paths\<close>

definition path_basename :: "addr \<Rightarrow> string" where
  "path_basename p = rev (takeWhile (\<lambda>c. c \<noteq> CHR ''/'') (rev p))"

definition path_dirname :: "addr \<Rightarrow> addr" where
  "path_dirname p = rev (tl (dropWhile (\<lambda>c. c \<noteq> CHR ''/'') (rev p)))"

section \<open>Files and descriptors\<close>

definition sys_stat :: "addr \<Rightarrow> os \<Rightarrow> (errno + nat) \<times> os" where
  "sys_stat p s = sys_try s (\<lambda>t.
     case os_files t p of
       Some c \<Rightarrow> (Inr (length c), t)
     | None \<Rightarrow> if os_dirs t p = None then (Inl ENOENT, t) else (Inr 0, t))"

definition new_fd :: "addr \<Rightarrow> bool \<Rightarrow> os \<Rightarrow> (errno + int) \<times> os" where
  "new_fd p app s =
     (Inr (os_next_fd s),
      s\<lparr>os_fds := (os_fds s)(os_next_fd s \<mapsto> \<lparr>fd_path = p, fd_append = app, fd_pos = 0\<rparr>),
        os_next_fd := os_next_fd s + 1\<rparr>)"

text \<open>\<open>open\<close> with the flags \<open>O_CREAT\<close>, \<open>O_TRUNC\<close> and \<open>O_APPEND\<close>.\<close>

definition sys_open :: "addr \<Rightarrow> bool \<Rightarrow> bool \<Rightarrow> bool \<Rightarrow> os \<Rightarrow> (errno + int) \<times> os" where
  "sys_open p creat trunc app s = sys_try s (\<lambda>t.
     if os_dirs t p \<noteq> None then new_fd p False t
     else case os_files t p of
       Some c \<Rightarrow> new_fd p app (if trunc then t\<lparr>os_files := (os_files t)(p \<mapsto> [])\<rparr> else t)
     | None \<Rightarrow>
         if \<not> creat then (Inl ENOENT, t)
         else (case os_dirs t (path_dirname p) of
                 None \<Rightarrow> (Inl ENOENT, t)
               | Some es \<Rightarrow>
                   new_fd p app
                     (t\<lparr>os_files := (os_files t)(p \<mapsto> []),
                        os_dirs := (os_dirs t)(path_dirname p \<mapsto> es @ [(path_basename p, DT_REG)])\<rparr>)))"

definition sys_close :: "int \<Rightarrow> os \<Rightarrow> (errno + unit) \<times> os" where
  "sys_close fd s = sys_try (s\<lparr>os_fds := (os_fds s)(fd := None)\<rparr>) (\<lambda>t. (Inr (), t))"

definition fd_file :: "int \<Rightarrow> os \<Rightarrow> (addr \<times> byte list) option" where
  "fd_file fd s =
     (case os_fds s fd of
        None \<Rightarrow> None
      | Some d \<Rightarrow> (case os_files s (fd_path d) of None \<Rightarrow> None | Some c \<Rightarrow> Some (fd_path d, c)))"

text \<open>
  \<open>write\<close>: to the end of the file under \<open>O_APPEND\<close>, else at the position of the descriptor, which
  it advances; writing past the end extends the file.
\<close>

definition sys_write :: "int \<Rightarrow> byte list \<Rightarrow> os \<Rightarrow> (errno + nat) \<times> os" where
  "sys_write fd bs s =
     (case (os_fds s fd, fd_file fd s) of
        (Some d, Some (p, c)) \<Rightarrow>
          (case sys_amount (length bs) s of
             (Inl e, t) \<Rightarrow> (Inl e, t)
           | (Inr n, t) \<Rightarrow>
               let pos = (if fd_append d then length c else fd_pos d);
                   c' = take pos c @ replicate (pos - length c) 0 @ take n bs @ drop (pos + n) c
               in (Inr n, t\<lparr>os_files := (os_files t)(p \<mapsto> c'),
                           os_fds := (os_fds t)(fd \<mapsto> d\<lparr>fd_pos := pos + n\<rparr>)\<rparr>))
      | _ \<Rightarrow> (Inl EINVAL, s))"

text \<open>
  \<open>pread\<close>: the bytes read are those the file has at the offset, none at or after its end. An offset
  of \<open>2 ^ 63\<close> or more is negative as an \<open>off_t\<close>, here and in \<open>ftruncate\<close>.
\<close>

definition sys_pread :: "int \<Rightarrow> nat \<Rightarrow> nat \<Rightarrow> os \<Rightarrow> (errno + byte list) \<times> os" where
  "sys_pread fd count off s =
     (case fd_file fd s of
        None \<Rightarrow> (Inl EINVAL, s)
      | Some (p, c) \<Rightarrow>
          if off \<ge> 2 ^ 63 then (Inl EINVAL, s)
          else (case sys_amount (length (take count (drop off c))) s of
             (Inl e, t) \<Rightarrow> (Inl e, t)
           | (Inr n, t) \<Rightarrow> (Inr (take n (drop off c)), t)))"

definition sys_fstat :: "int \<Rightarrow> os \<Rightarrow> (errno + nat) \<times> os" where
  "sys_fstat fd s = sys_try s (\<lambda>t.
     case fd_file fd t of None \<Rightarrow> (Inl EINVAL, t) | Some (p, c) \<Rightarrow> (Inr (length c), t))"

definition resize :: "nat \<Rightarrow> byte list \<Rightarrow> byte list" where
  "resize n c = take n c @ replicate (n - length c) 0"

definition sys_ftruncate :: "int \<Rightarrow> nat \<Rightarrow> os \<Rightarrow> (errno + unit) \<times> os" where
  "sys_ftruncate fd n s = sys_try s (\<lambda>t.
     case fd_file fd t of
       None \<Rightarrow> (Inl EINVAL, t)
     | Some (p, c) \<Rightarrow>
         if n \<ge> 2 ^ 63 then (Inl EINVAL, t)
         else (Inr (), t\<lparr>os_files := (os_files t)(p \<mapsto> resize n c)\<rparr>))"

definition sys_fallocate :: "int \<Rightarrow> nat \<Rightarrow> os \<Rightarrow> (errno + unit) \<times> os" where
  "sys_fallocate fd n s = sys_try s (\<lambda>t.
     case fd_file fd t of
       None \<Rightarrow> (Inl EINVAL, t)
     | Some (p, c) \<Rightarrow> (Inr (), t\<lparr>os_files := (os_files t)(p \<mapsto> resize (max n (length c)) c)\<rparr>))"

text \<open>
  \<open>fsync\<close> of a file makes its content durable; of a directory, that its files exist (with whatever
  content is durable already).
\<close>

definition dir_durable :: "addr \<Rightarrow> os \<Rightarrow> addr \<rightharpoonup> byte list" where
  "dir_durable d s p =
     (if path_dirname p = d \<and> os_files s p \<noteq> None \<and> os_durable s p = None then Some []
      else os_durable s p)"

definition sys_fsync :: "int \<Rightarrow> os \<Rightarrow> (errno + unit) \<times> os" where
  "sys_fsync fd s = sys_try s (\<lambda>t.
     case os_fds t fd of
       None \<Rightarrow> (Inl EINVAL, t)
     | Some d \<Rightarrow>
         if os_dirs t (fd_path d) \<noteq> None
         then (Inr (), t\<lparr>os_durable := dir_durable (fd_path d) t\<rparr>)
         else (case os_files t (fd_path d) of
                 None \<Rightarrow> (Inl EIO, t)
               | Some c \<Rightarrow> (Inr (), t\<lparr>os_durable := (os_durable t)(fd_path d \<mapsto> c)\<rparr>)))"

definition sys_sync :: "os \<Rightarrow> os" where
  "sys_sync s = s\<lparr>os_durable := os_files s, os_cblock_durable := os_cblock s\<rparr>"

text \<open>The string a character array holds.\<close>

definition c_string :: "char list \<Rightarrow> string" where
  "c_string cs = takeWhile (\<lambda>c. c \<noteq> CHR 0x00) cs"

text \<open>A call of the operating system lifted to the world, its error as the outcome's.\<close>

definition sys_call :: "(errno + 'a) \<times> os \<Rightarrow> world \<Rightarrow> ('a, world) outcome" where
  "sys_call r w = (case r of (Inl e, s) \<Rightarrow> Fail e (set_os s w) | (Inr a, s) \<Rightarrow> Ok a (set_os s w))"

section \<open>Memory mappings and persistent memory\<close>

text \<open>
  \<open>mmap\<close> with \<open>MAP_SHARED\<close> of a whole file: the mapped memory is the content of the file, and its
  address is the file's path.
\<close>

definition sys_mmap :: "int \<Rightarrow> os \<Rightarrow> (errno + addr) \<times> os" where
  "sys_mmap fd s = sys_try s (\<lambda>t.
     case fd_file fd t of None \<Rightarrow> (Inl EINVAL, t) | Some (p, c) \<Rightarrow> (Inr p, t))"

definition sys_munmap :: "addr \<Rightarrow> os \<Rightarrow> (errno + unit) \<times> os" where
  "sys_munmap p s = sys_try s (\<lambda>t. (Inr (), t))"

definition mapped :: "addr \<Rightarrow> os \<Rightarrow> byte list" where
  "mapped p s = (case os_files s p of None \<Rightarrow> [] | Some c \<Rightarrow> c)"

definition store_mapped :: "addr \<Rightarrow> nat \<Rightarrow> byte list \<Rightarrow> os \<Rightarrow> os" where
  "store_mapped p off bs s = s\<lparr>os_files := (os_files s)(p \<mapsto> mem_write (mapped p s) off bs)\<rparr>"

text \<open>
  \<open>pmem_persist\<close> of libpmem is code outside the sources: a parameter of every definition that calls
  it. From the content of the mapped memory, what of it is durable, an offset and a length it gives
  what is durable after the call. Its documented behaviour is \<open>pmem_persist_spec\<close>: the range is
  flushed, and since the processor may write back any line at any time, every byte outside of it
  is either the old durable byte or the current one. \<open>pmem_memcpy_persist\<close> and
  \<open>pmem_memset_persist\<close> are documented as the store followed by \<open>pmem_persist\<close>.
\<close>

type_synonym pmem = "byte list \<Rightarrow> byte list \<Rightarrow> nat \<Rightarrow> nat \<Rightarrow> byte list"

definition pmem_persist_spec :: "pmem \<Rightarrow> bool" where
  "pmem_persist_spec pm \<longleftrightarrow>
     (\<forall>v d off len. length d = length v \<and> off + len \<le> length v \<longrightarrow>
        length (pm v d off len) = length v \<and>
        (\<forall>i < length v. pm v d off len ! i = v ! i \<or> pm v d off len ! i = d ! i) \<and>
        (\<forall>i. off \<le> i \<and> i < off + len \<longrightarrow> pm v d off len ! i = v ! i))"

text \<open>An instance: exactly the range is written back.\<close>

definition pmem_exact :: pmem where
  "pmem_exact v d off len = mem_write d off (mem_read v off len)"

definition persist_mapped :: "pmem \<Rightarrow> addr \<Rightarrow> nat \<Rightarrow> nat \<Rightarrow> os \<Rightarrow> os" where
  "persist_mapped pm p off len s =
     (case os_durable s p of
        None \<Rightarrow> s
      | Some d \<Rightarrow> s\<lparr>os_durable := (os_durable s)(p \<mapsto> pm (mapped p s) d off len)\<rparr>)"

section \<open>Control block\<close>

text \<open>
  The control block of a context, mapped from the control file. A progress field is an 8-byte word
  that the sources store and at once persist: \<open>pmem_persist\<close> on the 8 bytes of the field.
\<close>

definition persist_u64 :: "pmem \<Rightarrow> u64 \<Rightarrow> u64 \<Rightarrow> u64" where
  "persist_u64 pm v d =
     of_nat (bytes_nat (pm (nat_bytes 8 (unat v)) (nat_bytes 8 (unat d)) 0 8))"

definition with_cblock ::
  "world \<Rightarrow> (addr \<Rightarrow> NvwalControlBlock \<Rightarrow> ('a, world) outcome) \<Rightarrow> ('a, world) outcome" where
  "with_cblock w k = checked (wal_nv_control_block (w_wal w)) (\<lambda>p. k p (os_cblock (w_os w) p))"

definition store_durable_epoch :: "pmem \<Rightarrow> addr \<Rightarrow> u64 \<Rightarrow> os \<Rightarrow> os" where
  "store_durable_epoch pm p e s =
     s\<lparr>os_cblock := (os_cblock s)(p := (os_cblock s p)\<lparr>cb_flusher_progress :=
          (cb_flusher_progress (os_cblock s p))\<lparr>fp_durable_epoch := e\<rparr>\<rparr>),
       os_cblock_durable := (os_cblock_durable s)(p := (os_cblock_durable s p)\<lparr>cb_flusher_progress :=
          (cb_flusher_progress (os_cblock_durable s p))\<lparr>fp_durable_epoch :=
             persist_u64 pm e (fp_durable_epoch (cb_flusher_progress (os_cblock_durable s p)))\<rparr>\<rparr>)\<rparr>"

definition store_paged_epoch :: "pmem \<Rightarrow> addr \<Rightarrow> u64 \<Rightarrow> os \<Rightarrow> os" where
  "store_paged_epoch pm p e s =
     s\<lparr>os_cblock := (os_cblock s)(p := (os_cblock s p)\<lparr>cb_flusher_progress :=
          (cb_flusher_progress (os_cblock s p))\<lparr>fp_paged_mds_epoch := e\<rparr>\<rparr>),
       os_cblock_durable := (os_cblock_durable s)(p := (os_cblock_durable s p)\<lparr>cb_flusher_progress :=
          (cb_flusher_progress (os_cblock_durable s p))\<lparr>fp_paged_mds_epoch :=
             persist_u64 pm e (fp_paged_mds_epoch (cb_flusher_progress (os_cblock_durable s p)))\<rparr>\<rparr>)\<rparr>"

definition store_last_synced_dsid :: "pmem \<Rightarrow> addr \<Rightarrow> u64 \<Rightarrow> os \<Rightarrow> os" where
  "store_last_synced_dsid pm p d s =
     s\<lparr>os_cblock := (os_cblock s)(p := (os_cblock s p)\<lparr>cb_fsyncer_progress := \<lparr>sp_last_synced_dsid = d\<rparr>\<rparr>),
       os_cblock_durable := (os_cblock_durable s)(p := (os_cblock_durable s p)\<lparr>cb_fsyncer_progress :=
          \<lparr>sp_last_synced_dsid =
             persist_u64 pm d (sp_last_synced_dsid (cb_fsyncer_progress (os_cblock_durable s p)))\<rparr>\<rparr>)\<rparr>"

section \<open>Directories\<close>

definition sys_opendir :: "addr \<Rightarrow> os \<Rightarrow> (errno + (string \<times> dtype) list) \<times> os" where
  "sys_opendir p s = sys_try s (\<lambda>t.
     case os_dirs t p of
       None \<Rightarrow> (Inl ENOENT, t)
     | Some es \<Rightarrow> (Inr ((''.'', DT_DIR) # (''..'', DT_DIR) # es), t))"

definition drop_entry :: "addr \<Rightarrow> os \<Rightarrow> addr \<rightharpoonup> (string \<times> dtype) list" where
  "drop_entry p s =
     (os_dirs s)(path_dirname p :=
        map_option (filter (\<lambda>e. fst e \<noteq> path_basename p)) (os_dirs s (path_dirname p)), p := None)"

definition sys_remove :: "addr \<Rightarrow> os \<Rightarrow> (errno + unit) \<times> os" where
  "sys_remove p s = sys_try s (\<lambda>t.
     case os_dirs t p of
       Some es \<Rightarrow>
         if es \<noteq> [] then (Inl ENOTEMPTY, t) else (Inr (), t\<lparr>os_dirs := drop_entry p t\<rparr>)
     | None \<Rightarrow>
         if os_files t p = None then (Inl ENOENT, t)
         else (Inr (), t\<lparr>os_files := (os_files t)(p := None), os_dirs := drop_entry p t\<rparr>))"

section \<open>Crash\<close>

text \<open>After a crash the files hold what was durable, and no descriptor is open.\<close>

definition crash_os :: "os \<Rightarrow> os" where
  "crash_os s = s\<lparr>os_files := os_durable s, os_cblock := os_cblock_durable s,
                  os_fds := (\<lambda>_. None)\<rparr>"

text \<open>An operating system without files, for concrete runs.\<close>

definition empty_os :: os where
  "empty_os = \<lparr>os_files = (\<lambda>_. None), os_durable = (\<lambda>_. None), os_dirs = (\<lambda>_. None),
     os_cblock = (\<lambda>_. zero_control_block), os_cblock_durable = (\<lambda>_. zero_control_block),
     os_fds = (\<lambda>_. None), os_next_fd = 3, os_resp = []\<rparr>"

section \<open>Lemmas\<close>

named_theorems os_simps \<open>calls on an operating system that answers every call in full\<close>

lemma sys_next_calm [os_simps]: "os_resp s = [] \<Longrightarrow> sys_next s = (None, s)"
  by (simp add: sys_next_def)

lemma sys_try_calm [os_simps]: "os_resp s = [] \<Longrightarrow> sys_try s k = k s"
  by (simp add: sys_try_def sys_next_calm)

lemma sys_amount_calm [os_simps]: "os_resp s = [] \<Longrightarrow> sys_amount n s = (Inr n, s)"
  by (simp add: sys_amount_def sys_next_calm)

lemma sys_amount_le: "sys_amount n s = (Inr k, t) \<Longrightarrow> k \<le> n"
  by (auto simp: sys_amount_def split: prod.splits option.splits sys_resp.splits)

lemma sys_next_frame:
  "sys_next s = (r, t) \<Longrightarrow>
     os_files t = os_files s \<and> os_durable t = os_durable s \<and> os_fds t = os_fds s \<and>
     os_dirs t = os_dirs s \<and> os_cblock t = os_cblock s \<and> os_cblock_durable t = os_cblock_durable s \<and>
     os_next_fd t = os_next_fd s"
  by (auto simp: sys_next_def split: list.splits)

lemma pmem_exact_spec: "pmem_persist_spec pmem_exact"
  by (auto simp: pmem_persist_spec_def pmem_exact_def mem_simps nth_mem_write mem_read_def)

lemma pmem_persist_range:
  assumes "pmem_persist_spec pm" "length d = length v" "off + len \<le> length v"
  shows "length (pm v d off len) = length v"
    and "mem_read (pm v d off len) off len = mem_read v off len"
proof -
  show len: "length (pm v d off len) = length v"
    using assms by (simp add: pmem_persist_spec_def)
  show "mem_read (pm v d off len) off len = mem_read v off len"
  proof (rule nth_equalityI)
    show "length (mem_read (pm v d off len) off len) = length (mem_read v off len)"
      using assms len by (simp add: mem_simps)
  next
    fix i assume "i < length (mem_read (pm v d off len) off len)"
    then have "i < len" using assms len by (simp add: mem_simps)
    then show "mem_read (pm v d off len) off len ! i = mem_read v off len ! i"
      using assms len by (simp add: mem_read_def pmem_persist_spec_def)
  qed
qed

text \<open>Bytes that are durable stay durable: a range that agrees before still agrees after.\<close>

lemma pmem_persist_keeps:
  assumes "pmem_persist_spec pm" "length d = length v" "off + len \<le> length v"
    and "mem_read d o1 l1 = mem_read v o1 l1" "o1 + l1 \<le> length v"
  shows "mem_read (pm v d off len) o1 l1 = mem_read v o1 l1"
proof (rule nth_equalityI)
  have len: "length (pm v d off len) = length v"
    using assms by (simp add: pmem_persist_spec_def)
  show "length (mem_read (pm v d off len) o1 l1) = length (mem_read v o1 l1)"
    using assms len by (simp add: mem_simps)
  fix i assume "i < length (mem_read (pm v d off len) o1 l1)"
  then have i: "i < l1" using assms len by (simp add: mem_simps)
  have "mem_read d o1 l1 ! i = mem_read v o1 l1 ! i" using assms(4) by simp
  with i assms(2,5) have "d ! (o1 + i) = v ! (o1 + i)" by (simp add: mem_read_def)
  moreover have "pm v d off len ! (o1 + i) = v ! (o1 + i) \<or> pm v d off len ! (o1 + i) = d ! (o1 + i)"
    using i assms by (simp add: pmem_persist_spec_def)
  ultimately show "mem_read (pm v d off len) o1 l1 ! i = mem_read v o1 l1 ! i"
    using i assms len by (auto simp: mem_read_def)
qed

lemma mapped_store_same [mem_simps]:
  "mapped p (store_mapped p off bs s) = mem_write (mapped p s) off bs"
  by (simp add: mapped_def store_mapped_def)

lemma mapped_store_other [mem_simps]:
  "q \<noteq> p \<Longrightarrow> mapped q (store_mapped p off bs s) = mapped q s"
  by (simp add: mapped_def store_mapped_def)

lemma mapped_persist [mem_simps]: "mapped q (persist_mapped pm p off len s) = mapped q s"
  by (simp add: mapped_def persist_mapped_def split: option.splits)

lemma persist_u64_exact [simp]: "pmem_persist_spec pm \<Longrightarrow> persist_u64 pm v d = v"
proof -
  assume "pmem_persist_spec pm"
  then have "length (pm (nat_bytes 8 (unat v)) (nat_bytes 8 (unat d)) 0 8) = 8"
    "mem_read (pm (nat_bytes 8 (unat v)) (nat_bytes 8 (unat d)) 0 8) 0 8
       = mem_read (nat_bytes 8 (unat v)) 0 8"
    using pmem_persist_range [of pm "nat_bytes 8 (unat d)" "nat_bytes 8 (unat v)" 0 8] by simp_all
  then have "pm (nat_bytes 8 (unat v)) (nat_bytes 8 (unat d)) 0 8 = nat_bytes 8 (unat v)"
    by (simp add: mem_read_def)
  then show ?thesis
    using unat_u64_less [of v] by (simp add: persist_u64_def bytes_nat_nat_bytes)
qed

lemma sys_call_Ok_iff [outcome_simps]:
  "sys_call r w = Ok a w' \<longleftrightarrow> (\<exists>s. r = (Inr a, s) \<and> w' = set_os s w)"
  by (auto simp: sys_call_def split: prod.splits sum.splits)

text \<open>What a transfer on a descriptor leaves alone.\<close>

definition os_rest where
  "os_rest s = (os_durable s, os_dirs s, os_cblock s, os_cblock_durable s, os_next_fd s)"

lemma sys_amount_frame:
  assumes "sys_amount n s = (r, t)"
  shows "os_files t = os_files s" "os_fds t = os_fds s" "os_rest t = os_rest s"
proof -
  obtain a b where "sys_next s = (a, b)" by (cases "sys_next s")
  with assms sys_next_frame [of s a b]
  show "os_files t = os_files s" "os_fds t = os_fds s" "os_rest t = os_rest s"
    by (auto simp: sys_amount_def os_rest_def split: option.splits sys_resp.splits)
qed

lemma sys_write_append:
  assumes "os_fds s fd = Some d" "fd_append d" "os_files s (fd_path d) = Some c"
    and "sys_write fd bs s = (Inr n, t)"
  shows "n \<le> length bs" "os_files t = (os_files s)(fd_path d \<mapsto> c @ take n bs)"
    "os_fds t = (os_fds s)(fd \<mapsto> d\<lparr>fd_pos := length c + n\<rparr>)" "os_rest t = os_rest s"
proof -
  obtain r u where r: "sys_amount (length bs) s = (r, u)" by (cases "sys_amount (length bs) s")
  with assms obtain k where k: "r = Inr k" "k = n"
    by (auto simp: sys_write_def fd_file_def split: sum.splits)
  with r show "n \<le> length bs" by (auto dest: sys_amount_le)
  show "os_files t = (os_files s)(fd_path d \<mapsto> c @ take n bs)"
    "os_fds t = (os_fds s)(fd \<mapsto> d\<lparr>fd_pos := length c + n\<rparr>)" "os_rest t = os_rest s"
    using assms r k sys_amount_frame [OF r]
    by (auto simp: sys_write_def fd_file_def os_rest_def Let_def)
qed

lemma sys_write_Inl:
  assumes "os_fds s fd = Some d" "os_files s (fd_path d) = Some c" "sys_write fd bs s = (Inl e, t)"
  shows "os_files t = os_files s" "os_fds t = os_fds s" "os_rest t = os_rest s" "os_resp s \<noteq> []"
proof -
  obtain r u where r: "sys_amount (length bs) s = (r, u)" by (cases "sys_amount (length bs) s")
  with assms show "os_files t = os_files s" "os_fds t = os_fds s" "os_rest t = os_rest s"
    using sys_amount_frame [OF r] by (auto simp: sys_write_def fd_file_def Let_def split: sum.splits)
  show "os_resp s \<noteq> []"
    using assms r by (auto simp: sys_write_def fd_file_def Let_def sys_amount_calm split: sum.splits)
qed

end
