(* ===== verification/Util.thy ===== *)
theory Util
  imports Os
begin

text \<open>
  The utility functions of \<^verbatim>\<open>src/nvwal_util.c\<close> and \<^verbatim>\<open>include/nvwal_util.h\<close>: file names built from
  a sequence number, opening and syncing files, emptying a folder, and the copies from and to a
  circular buffer.
\<close>

section \<open>C strings\<close>

definition NUL :: char where [simp]: "NUL = CHR 0x00"

definition strnlen :: "char list \<Rightarrow> nat \<Rightarrow> nat" where
  "strnlen s n = length (takeWhile (\<lambda>c. c \<noteq> NUL) (take n s))"

section \<open>Errors and warnings\<close>

definition nvwal_raise_einval :: "'s \<Rightarrow> ('a, 's) outcome" where
  "nvwal_raise_einval s = Fail EINVAL s"

definition nvwal_stock_error_code :: "nvwal_error_t \<Rightarrow> nvwal_error_t \<Rightarrow> nvwal_error_t" where
  "nvwal_stock_error_code cur_code new_code =
     (case new_code of Some e \<Rightarrow> Some e | None \<Rightarrow> cur_code)"

section \<open>File names\<close>

definition hex_char :: "nat \<Rightarrow> char" where
  "hex_char c = (if c < 10 then char_of (48 + c) else char_of (65 + (c - 10)))"

definition hex8 :: "u32 \<Rightarrow> char list" where
  "hex8 sequence = map (\<lambda>cpos. hex_char (unat (drop_bit (cpos * 4) sequence AND 15))) (rev [0..<8])"

definition nvwal_concat_sequence_filename :: "char list \<Rightarrow> char list \<Rightarrow> u32 \<Rightarrow> char list" where
  "nvwal_concat_sequence_filename folder file_prefix sequence =
     (let folder_len = strnlen folder kNvwalMaxFolderPathLength
      in if folder_len \<ge> kNvwalMaxFolderPathLength then []
         else let file_prefix_len = strnlen file_prefix 16
         in if file_prefix_len \<ge> 16 then []
            else take folder_len folder
                 @ (if folder_len = 0 then []
                    else if folder ! (folder_len - 1) \<noteq> CHR ''/'' then ''/'' else [])
                 @ take file_prefix_len file_prefix
                 @ hex8 sequence)"

text \<open>The path constructors return \<open>None\<close> where their assertion fails.\<close>

definition nvwal_construct_nv_segment_path :: "NvwalContext \<Rightarrow> u32 \<Rightarrow> char list option" where
  "nvwal_construct_nv_segment_path wal nv_segment_index =
     (if unat (cf_nv_root_len (wal_config wal)) + 32 < kNvwalMaxPathLength
      then Some (nvwal_concat_sequence_filename (cf_nv_root (wal_config wal)) ''nv_segment_'' nv_segment_index)
      else None)"

definition nvwal_construct_disk_segment_path :: "NvwalContext \<Rightarrow> u64 \<Rightarrow> char list option" where
  "nvwal_construct_disk_segment_path wal dsid =
     (if unat (cf_disk_root_len (wal_config wal)) + 32 < kNvwalMaxPathLength
      then Some (nvwal_concat_sequence_filename (cf_disk_root (wal_config wal)) ''nvwal_ds_'' (ucast dsid))
      else None)"

section \<open>Opening and syncing\<close>

definition nvwal_open_best_effort_o_direct ::
  "addr \<Rightarrow> bool \<Rightarrow> bool \<Rightarrow> os \<Rightarrow> (errno + int) \<times> os" where
  "nvwal_open_best_effort_o_direct path creat trunc s =
     (case sys_open path creat trunc False s of
        (Inl EINVAL, t) \<Rightarrow> sys_open path creat trunc False t
      | r \<Rightarrow> r)"

definition nvwal_open_and_fsync :: "addr \<Rightarrow> os \<Rightarrow> (unit, os) outcome" where
  "nvwal_open_and_fsync path s =
     (case sys_open path False False False s of
        (Inl e, t) \<Rightarrow> Fail e t
      | (Inr fd, t) \<Rightarrow>
          c_assert (fd \<noteq> 0)
            (case sys_fsync fd t of
               (Inl e, t) \<Rightarrow> Fail e (snd (sys_close fd t))
             | (Inr _, t) \<Rightarrow> Ok () (snd (sys_close fd t))))"

definition nvwal_open_and_syncfs :: "addr \<Rightarrow> os \<Rightarrow> (unit, os) outcome" where
  "nvwal_open_and_syncfs path s =
     (case sys_open path False False False s of
        (Inl e, t) \<Rightarrow> Fail e t
      | (Inr fd, t) \<Rightarrow> c_assert (fd \<noteq> 0) (Ok () (snd (sys_close fd (sys_sync t)))))"

section \<open>Directories\<close>

definition nvwal_is_valid_dir :: "addr \<Rightarrow> os \<Rightarrow> bool \<times> os" where
  "nvwal_is_valid_dir path s =
     (case sys_opendir path s of (Inr _, t) \<Rightarrow> (True, t) | (Inl _, t) \<Rightarrow> (False, t))"

text \<open>The loop of \<open>nvwal_is_nonempty_dir\<close> reads entries until it has found three or there are no more.\<close>

fun count_entries :: "nat \<Rightarrow> 'e list \<Rightarrow> nat" where
  "count_entries found es =
     (if found \<le> 2 then (case es of [] \<Rightarrow> found | _ # es \<Rightarrow> count_entries (found + 1) es) else found)"

definition nvwal_is_nonempty_dir :: "addr \<Rightarrow> os \<Rightarrow> bool \<times> os" where
  "nvwal_is_nonempty_dir path s =
     (case sys_opendir path s of
        (Inr es, t) \<Rightarrow> (count_entries 0 es > 2, t)
      | (Inl _, t) \<Rightarrow> (False, t))"

text \<open>
  Emptying a folder. The second function is the loop over the entries \<open>readdir\<close> gives. The
  terminating null character of a child path of exactly \<open>kNvwalMaxPathLength\<close> characters is written
  behind the end of the array, which is \<open>Abort\<close>.
\<close>

function (sequential) nvwal_remove_all_under :: "addr \<Rightarrow> os \<Rightarrow> (unit, os) outcome"
  and remove_entries :: "addr \<Rightarrow> (string \<times> dtype) list \<Rightarrow> os \<Rightarrow> (unit, os) outcome" where
  "nvwal_remove_all_under path s =
     (let path_len = strnlen path kNvwalMaxPathLength
      in if path_len \<ge> kNvwalMaxPathLength then nvwal_raise_einval s
         else (case sys_opendir path s of
                 (Inl _, t) \<Rightarrow> Fail ENOENT t
               | (Inr es, t) \<Rightarrow> remove_entries path es t))"
| "remove_entries path [] s = Ok () s"
| "remove_entries path ((name, ty) # es) s =
     (if take 1 name = ''.'' then remove_entries path es s
      else let path_len = strnlen path kNvwalMaxPathLength;
               child_len = strnlen name kNvwalMaxPathLength
      in if path_len + 1 + child_len > kNvwalMaxPathLength then nvwal_raise_einval s
         else if path_len + 1 + child_len = kNvwalMaxPathLength then Abort
         else let child_path = take path_len path @ ''/'' @ take child_len name
         in (case (if ty = DT_DIR then nvwal_remove_all_under child_path s else Ok () s) of
               Ok _ t \<Rightarrow>
                 (case sys_remove child_path t of
                    (Inl e, u) \<Rightarrow> Fail e u
                  | (Inr _, u) \<Rightarrow> remove_entries path es u)
             | r \<Rightarrow> r))"
  by pat_completeness auto

section \<open>Circular copies\<close>

text \<open>
  The copy from a circular buffer into memory, with the two \<open>memcpy\<close> of the source; \<open>None\<close> where an
  assertion fails. \<open>dest\<close> is the memory the destination pointer points into, at \<open>dest_off\<close>.
\<close>

definition nvwal_circular_memcpy ::
  "byte list \<Rightarrow> nat \<Rightarrow> byte list \<Rightarrow> u64 \<Rightarrow> u64 \<Rightarrow> u64 \<Rightarrow> byte list option" where
  "nvwal_circular_memcpy dest dest_off circular_src_base circular_src_size circular_src_cur_offset bytes_to_copy =
     (if \<not> circular_src_size \<ge> circular_src_cur_offset \<or> \<not> circular_src_size \<ge> bytes_to_copy then None
      else if circular_src_cur_offset + bytes_to_copy \<ge> circular_src_size
      then let bytes = circular_src_size - circular_src_cur_offset
           in if bytes \<noteq> 0
              then Some (mem_write
                     (mem_write dest dest_off
                        (mem_read circular_src_base (unat circular_src_cur_offset) (unat bytes)))
                     (dest_off + unat bytes)
                     (mem_read circular_src_base 0 (unat (bytes_to_copy - bytes))))
              else Some (mem_write dest dest_off (mem_read circular_src_base 0 (unat bytes_to_copy)))
      else Some (mem_write dest dest_off
                   (mem_read circular_src_base (unat circular_src_cur_offset) (unat bytes_to_copy))))"

definition nvwal_circular_dest_memcpy ::
  "byte list \<Rightarrow> u64 \<Rightarrow> u64 \<Rightarrow> byte list \<Rightarrow> u64 \<Rightarrow> byte list option" where
  "nvwal_circular_dest_memcpy circular_dest_base circular_dest_size circular_dest_cur_offset src bytes_to_copy =
     (if \<not> circular_dest_size \<ge> circular_dest_cur_offset \<or> \<not> circular_dest_size \<ge> bytes_to_copy then None
      else if circular_dest_cur_offset + bytes_to_copy \<ge> circular_dest_size
      then let bytes = circular_dest_size - circular_dest_cur_offset
           in if bytes \<noteq> 0
              then Some (mem_write
                     (mem_write circular_dest_base (unat circular_dest_cur_offset) (mem_read src 0 (unat bytes)))
                     0 (mem_read src (unat bytes) (unat (bytes_to_copy - bytes))))
              else Some (mem_write circular_dest_base 0 (mem_read src 0 (unat bytes_to_copy)))
      else Some (mem_write circular_dest_base (unat circular_dest_cur_offset)
                   (mem_read src 0 (unat bytes_to_copy))))"

text \<open>The reference: the \<open>n\<close> bytes of a circular buffer that start at an offset.\<close>

definition circular_read :: "byte list \<Rightarrow> nat \<Rightarrow> nat \<Rightarrow> byte list" where
  "circular_read buf off n = take n (drop off buf @ take off buf)"

section \<open>Termination of emptying a folder\<close>

lemma strnlen_le: "strnlen s n \<le> n"
  unfolding strnlen_def by (rule order_trans [OF length_takeWhile_le]) simp

lemma strnlen_le_length: "strnlen s n \<le> length s"
  unfolding strnlen_def by (rule order_trans [OF length_takeWhile_le]) simp

lemma take_strnlen: "take (strnlen s n) s = takeWhile (\<lambda>c. c \<noteq> NUL) (take n s)"
proof -
  have "takeWhile (\<lambda>c. c \<noteq> NUL) (take n s) = take (strnlen s n) (take n s)"
    unfolding strnlen_def by (rule takeWhile_eq_take)
  then show ?thesis using strnlen_le [of s n] by (simp add: min_def)
qed

lemma strnlen_no_nul: "NUL \<notin> set s \<Longrightarrow> strnlen s n = min n (length s)"
proof -
  assume "NUL \<notin> set s"
  then have "takeWhile (\<lambda>c. c \<noteq> NUL) (take n s) = take n s"
    by (auto simp: takeWhile_eq_all_conv dest: in_set_takeD)
  then show ?thesis by (simp only: strnlen_def length_take min.commute)
qed

lemma nul_notin_take_strnlen: "NUL \<notin> set (take (strnlen s n) s)"
  by (auto simp: take_strnlen dest: set_takeWhileD)

lemma strnlen_child:
  assumes "strnlen path m + 1 + strnlen name m < m"
  shows "strnlen (take (strnlen path m) path @ ''/'' @ take (strnlen name m) name) m
           = strnlen path m + 1 + strnlen name m"
proof -
  have "NUL \<notin> set (take (strnlen path m) path @ ''/'' @ take (strnlen name m) name)"
    using nul_notin_take_strnlen by auto
  with assms show ?thesis
    by (simp add: strnlen_no_nul min_absorb2 strnlen_le_length)
qed

termination nvwal_remove_all_under
proof (relation "measures
    [\<lambda>x. case x of Inl (p, s) \<Rightarrow> 2 * (257 - strnlen p 256) + 1 | Inr (p, es, s) \<Rightarrow> 2 * (257 - strnlen p 256),
     \<lambda>x. case x of Inl _ \<Rightarrow> 0 | Inr (p, es, s) \<Rightarrow> length es]", goal_cases)
  case 1
  show ?case by simp
next
  case (4 path name ty es s path_len child_len child_path)
  then show ?case using strnlen_child [of path 256 name] by simp linarith
qed auto

section \<open>Circular copies: lemmas and properties\<close>

lemma circular_read_no_wrap:
  "off + n \<le> length buf \<Longrightarrow> circular_read buf off n = mem_read buf off n"
  by (simp add: circular_read_def mem_read_def)

lemma circular_read_wrap:
  assumes "off \<le> length buf" "length buf \<le> off + n" "n \<le> length buf"
  shows "circular_read buf off n = mem_read buf off (length buf - off) @ mem_read buf 0 (n - (length buf - off))"
proof -
  have "n + off - length buf \<le> off" using assms by linarith
  then show ?thesis using assms by (simp add: circular_read_def mem_read_def min_absorb1)
qed

lemma length_circular_read [simp]:
  "off \<le> length buf \<Longrightarrow> n \<le> length buf \<Longrightarrow> length (circular_read buf off n) = n"
  by (simp add: circular_read_def)

lemma circular_memcpy_spec:
  assumes "length src = unat sz" "off \<le> sz" "n \<le> sz" "unat sz < 2 ^ 63"
    and "dest_off + unat n \<le> length dest"
  shows "nvwal_circular_memcpy dest dest_off src sz off n
           = Some (mem_write dest dest_off (circular_read src (unat off) (unat n)))"
proof -
  have le: "unat off \<le> unat sz" "unat n \<le> unat sz"
    using assms(2,3) by (simp_all add: word_le_nat_alt)
  have sum: "unat (off + n) = unat off + unat n"
    using le assms(4) by (intro unat_plus_no_wrap) simp
  have wrap: "sz \<le> off + n \<longleftrightarrow> unat sz \<le> unat off + unat n"
    by (simp add: word_le_nat_alt sum)
  have bytes: "unat (sz - off) = unat sz - unat off"
    using assms(2) by (rule unat_minus_le)
  show ?thesis
  proof (cases "sz \<le> off + n")
    case False
    then have "unat off + unat n \<le> length src" using wrap assms(1) by simp
    with False assms(2,3) show ?thesis
      by (simp add: nvwal_circular_memcpy_def circular_read_no_wrap)
  next
    case True
    then have w: "unat sz \<le> unat off + unat n" using wrap by simp
    then have "sz - off \<le> n" using bytes by (simp add: word_le_nat_alt)
    then have rest: "unat (n - (sz - off)) = unat n - (unat sz - unat off)"
      by (simp add: unat_minus_le bytes)
    have read: "circular_read src (unat off) (unat n)
        = mem_read src (unat off) (unat (sz - off)) @ mem_read src 0 (unat (n - (sz - off)))"
      using circular_read_wrap [of "unat off" src "unat n"] le w assms(1) by (simp add: rest bytes)
    have len: "length (mem_read src (unat off) (unat (sz - off))) = unat (sz - off)"
              "length (mem_read src 0 (unat (n - (sz - off)))) = unat (n - (sz - off))"
      using le assms(1) by (simp_all add: mem_simps bytes rest)
    have fits: "dest_off + length (mem_read src (unat off) (unat (sz - off)))
        + length (mem_read src 0 (unat (n - (sz - off)))) \<le> length dest"
      using assms(5) w le unfolding len unfolding bytes rest by linarith
    have "sz - off = 0 \<Longrightarrow> mem_read src (unat off) (unat (sz - off)) = []"
      by (simp add: mem_read_def)
    moreover have "mem_write (mem_write dest dest_off (mem_read src (unat off) (unat (sz - off))))
        (dest_off + unat (sz - off)) (mem_read src 0 (unat (n - (sz - off))))
        = mem_write dest dest_off (circular_read src (unat off) (unat n))"
      using mem_write_append [OF fits] by (simp only: read len(1))
    ultimately show ?thesis
      using True assms(2,3) by (auto simp: nvwal_circular_memcpy_def Let_def read)
  qed
qed

text \<open>
  C21. \<open>nvwal_circular_memcpy\<close>, with its one or two copies, stores at the destination exactly the
  \<open>n\<close> bytes that follow the offset in circular order, for every offset and length its assertions
  allow and any buffer of less than \<open>2 ^ 63\<close> bytes (so that offset plus length does not wrap around).
\<close>

theorem circular_memcpy_correct:
  assumes "length src = unat sz" "off \<le> sz" "n \<le> sz" "unat sz < 2 ^ 63"
    and "dest_off + unat n \<le> length dest"
  shows "nvwal_circular_memcpy dest dest_off src sz off n
           = Some (mem_write dest dest_off (circular_read src (unat off) (unat n)))"
  using assms by (rule circular_memcpy_spec)

theorem circular_memcpy_correct_witness:
  "nvwal_circular_memcpy [9, 9, 9, 9] 1 [10, 11, 12, 13] 4 3 3
     = Some (mem_write [9, 9, 9, 9] 1 (circular_read [10, 11, 12, 13] (unat (3 :: u64)) (unat (3 :: u64))))"
  by (rule circular_memcpy_correct) simp_all

lemma circular_read_mem_write_wrap:
  assumes "off \<le> length buf" "length a = length buf - off" "length b \<le> off"
  shows "circular_read (mem_write (mem_write buf off a) 0 b) off (length a + length b) = a @ b"
proof -
  have "mem_write (mem_write buf off a) 0 b = b @ drop (length b) (take off buf) @ a"
    using assms by (simp add: mem_write_def)
  then show ?thesis
    using assms by (simp add: circular_read_def)
qed

text \<open>
  C22. Round trip through a circular buffer: what \<open>nvwal_circular_dest_memcpy\<close> stores at an offset is
  what a circular read at that offset, and so \<open>nvwal_circular_memcpy\<close>, gets back.
\<close>

theorem circular_dest_roundtrip:
  assumes "length buf = unat sz" "off \<le> sz" "n \<le> sz" "unat sz < 2 ^ 63"
    and "unat n \<le> length src"
  shows "\<exists>buf'. nvwal_circular_dest_memcpy buf sz off src n = Some buf' \<and>
           length buf' = unat sz \<and> circular_read buf' (unat off) (unat n) = take (unat n) src"
proof -
  have le: "unat off \<le> unat sz" "unat n \<le> unat sz"
    using assms(2,3) by (simp_all add: word_le_nat_alt)
  have sum: "unat (off + n) = unat off + unat n"
    using le assms(4) by (intro unat_plus_no_wrap) simp
  have wrap: "sz \<le> off + n \<longleftrightarrow> unat sz \<le> unat off + unat n"
    by (simp add: word_le_nat_alt sum)
  have bytes: "unat (sz - off) = unat sz - unat off"
    using assms(2) by (rule unat_minus_le)
  show ?thesis
  proof (cases "sz \<le> off + n")
    case False
    then have lt: "unat off + unat n \<le> length buf" using wrap assms(1) by simp
    have "length (mem_read src 0 (unat n)) = unat n" using assms(5) by (simp add: mem_simps)
    then have "circular_read (mem_write buf (unat off) (mem_read src 0 (unat n))) (unat off) (unat n)
        = mem_read src 0 (unat n)"
      using lt mem_read_write_same [of "unat off" "mem_read src 0 (unat n)" buf]
      by (simp add: circular_read_no_wrap mem_simps)
    with False assms lt show ?thesis
      by (simp add: nvwal_circular_dest_memcpy_def mem_simps) (simp add: mem_read_def)
  next
    case True
    then have w: "unat sz \<le> unat off + unat n" using wrap by simp
    then have "sz - off \<le> n" using bytes by (simp add: word_le_nat_alt)
    then have rest: "unat (n - (sz - off)) = unat n - (unat sz - unat off)"
      by (simp add: unat_minus_le bytes)
    let ?a = "mem_read src 0 (unat (sz - off))"
    let ?b = "mem_read src (unat (sz - off)) (unat (n - (sz - off)))"
    have len: "length ?a = unat sz - unat off" "length ?b = unat n - (unat sz - unat off)"
      using le w assms(5) by (simp_all add: mem_simps bytes rest)
    have ab: "?a @ ?b = take (unat n) src"
      using le w by (simp add: mem_read_def bytes rest take_add [symmetric])
    have "circular_read (mem_write (mem_write buf (unat off) ?a) 0 ?b) (unat off) (length ?a + length ?b)
        = ?a @ ?b"
      by (rule circular_read_mem_write_wrap) (use le len assms(1) in simp_all)
    then have "circular_read (mem_write (mem_write buf (unat off) ?a) 0 ?b) (unat off) (unat n)
        = take (unat n) src"
      using len le w ab by simp
    moreover have "length (mem_write (mem_write buf (unat off) ?a) 0 ?b) = unat sz"
      using le len assms(1) by (simp add: mem_simps)
    moreover have "mem_write (mem_write buf (unat off) ?a) 0 ?b = mem_write buf 0 (mem_read src 0 (unat n))"
      if "sz - off = 0"
      using that by (simp add: mem_read_def mem_write_def)
    ultimately show ?thesis
      using True assms(2,3) by (auto simp: nvwal_circular_dest_memcpy_def Let_def)
  qed
qed

theorem circular_dest_roundtrip_witness:
  "\<exists>buf'. nvwal_circular_dest_memcpy [0, 0, 0, 0] 4 3 [7, 8] 2 = Some buf' \<and>
     length buf' = unat (4 :: u64) \<and>
     circular_read buf' (unat (3 :: u64)) (unat (2 :: u64)) = take (unat (2 :: u64)) [7, 8]"
  by (rule circular_dest_roundtrip) simp_all

section \<open>File names: lemmas and properties\<close>

lemma hex_char_inj:
  assumes "a < 16" "b < 16" "hex_char a = hex_char b"
  shows "a = b"
proof -
  have code: "of_char (hex_char n) = (if n < 10 then 48 + n else 55 + n)" if "n < 16" for n :: nat
    using that by (simp add: hex_char_def)
  have "(of_char (hex_char a) :: nat) = of_char (hex_char b)" by (simp only: assms(3))
  then have "(if a < 10 then 48 + a else 55 + a) = (if b < 10 then 48 + b else 55 + b)"
    unfolding code [OF assms(1)] code [OF assms(2)] .
  then show ?thesis by (simp split: if_splits)
qed

lemma nibble_less: "unat (drop_bit n (w :: u32) AND 15) < 16"
proof -
  have "unat (drop_bit n w AND 15) \<le> unat (15 :: u32)"
    by (rule word_and_le1 [THEN word_le_nat_alt [THEN iffD1]])
  then show ?thesis by simp
qed

lemma nibbles_determine_word:
  fixes s t :: u32
  assumes "\<And>k. k < 8 \<Longrightarrow> drop_bit (k * 4) s AND 15 = drop_bit (k * 4) t AND 15"
  shows "s = t"
proof (rule bit_word_eqI)
  fix n assume "n < LENGTH(32)"
  then have n: "n div 4 < 8" "n = n div 4 * 4 + n mod 4" "n mod 4 < 4" by auto
  have 15: "(15 :: u32) = mask 4" by (simp add: mask_eq_exp_minus_1)
  have bit: "bit (drop_bit (n div 4 * 4) w AND 15) (n mod 4) = bit w n" for w :: u32
    using n by (auto simp: 15 bit_and_iff bit_drop_bit_eq bit_mask_iff)
  from bit [of s] bit [of t] assms [OF n(1)] show "bit s n = bit t n" by simp
qed

lemma hex8_inj: "hex8 s = hex8 t \<Longrightarrow> s = t"
proof (rule nibbles_determine_word)
  fix k :: nat assume eq: "hex8 s = hex8 t" and k: "k < 8"
  from k have "k \<in> set (rev [0..<8])" by simp
  with eq have "hex_char (unat (drop_bit (k * 4) s AND 15)) = hex_char (unat (drop_bit (k * 4) t AND 15))"
    unfolding hex8_def map_eq_conv by blast
  then have "unat (drop_bit (k * 4) s AND 15) = unat (drop_bit (k * 4) t AND 15)"
    by (rule hex_char_inj [OF nibble_less nibble_less])
  then show "drop_bit (k * 4) s AND 15 = drop_bit (k * 4) t AND 15"
    by (simp only: word_unat_eq_iff)
qed

lemma length_hex8 [simp]: "length (hex8 s) = 8"
  by (simp add: hex8_def)

lemma concat_sequence_filename_inj:
  assumes "strnlen folder 224 < 224" "strnlen pre 16 < 16"
    and "nvwal_concat_sequence_filename folder pre s = nvwal_concat_sequence_filename folder pre t"
  shows "s = t"
proof -
  from assms have "hex8 s = hex8 t"
    by (simp add: nvwal_concat_sequence_filename_def Let_def)
  then show ?thesis by (rule hex8_inj)
qed

text \<open>
  C29. A file name built by \<open>nvwal_concat_sequence_filename\<close> fits, with its terminating null
  character, into the \<open>kNvwalMaxPathLength\<close> characters of the output array, whatever the arguments
  (the assertion in the function never fails); and for a folder and a prefix within the documented
  limits it determines the sequence number.
\<close>

theorem sequence_filename_fits_and_injective:
  "length (nvwal_concat_sequence_filename folder pre s) + 1 \<le> kNvwalMaxPathLength \<and>
   (strnlen folder kNvwalMaxFolderPathLength < kNvwalMaxFolderPathLength \<and> strnlen pre 16 < 16 \<longrightarrow>
    (nvwal_concat_sequence_filename folder pre s = nvwal_concat_sequence_filename folder pre t \<longleftrightarrow> s = t))"
proof -
  have "length (nvwal_concat_sequence_filename folder pre s) \<le> 223 + 1 + 15 + 8"
    by (auto simp: nvwal_concat_sequence_filename_def Let_def)
  with concat_sequence_filename_inj show ?thesis by auto
qed

theorem sequence_filename_fits_and_injective_witness:
  "nvwal_concat_sequence_filename ''/mnt/nv'' ''nv_segment_'' 10
     \<noteq> nvwal_concat_sequence_filename ''/mnt/nv'' ''nv_segment_'' 11"
proof -
  have "strnlen ''/mnt/nv'' kNvwalMaxFolderPathLength < kNvwalMaxFolderPathLength" "strnlen ''nv_segment_'' 16 < 16"
    by (simp_all add: strnlen_def)
  with sequence_filename_fits_and_injective [of "''/mnt/nv''" "''nv_segment_''" 10 11]
  show ?thesis by simp
qed

lemma disk_segment_path_inj:
  assumes "unat (cf_disk_root_len (wal_config wal)) + 32 < kNvwalMaxPathLength"
    and "strnlen (cf_disk_root (wal_config wal)) kNvwalMaxFolderPathLength < kNvwalMaxFolderPathLength"
    and "unat d < 2 ^ 32" "unat d' < 2 ^ 32"
    and same: "nvwal_construct_disk_segment_path wal d = nvwal_construct_disk_segment_path wal d'"
  shows "d = d'"
proof -
  have "strnlen ''nvwal_ds_'' 16 < 16" by (simp add: strnlen_def)
  with same assms(1,2) have "(ucast d :: u32) = ucast d'"
    using concat_sequence_filename_inj [of "cf_disk_root (wal_config wal)" "''nvwal_ds_''"]
    by (simp add: nvwal_construct_disk_segment_path_def)
  then have "unat (ucast d :: u32) = unat (ucast d' :: u32)" by simp
  with assms(3,4) show "d = d'" by (simp add: unsigned_ucast_eq take_bit_eq_mod unat_eq_u64)
qed

text \<open>
  C30. The path of a segment file on disk is unique for segment numbers below \<open>2 ^ 32\<close> only:
  \<open>nvwal_construct_disk_segment_path\<close> hands its 64-bit segment number to a 32-bit parameter, so
  segments whose numbers differ by \<open>2 ^ 32\<close> share one file.
\<close>

theorem disk_segment_path_unique_below_4g:
  assumes "unat (cf_disk_root_len (wal_config wal)) + 32 < kNvwalMaxPathLength"
    and "strnlen (cf_disk_root (wal_config wal)) kNvwalMaxFolderPathLength < kNvwalMaxFolderPathLength"
    and "unat d < 2 ^ 32" "unat d' < 2 ^ 32"
  shows "(nvwal_construct_disk_segment_path wal d = nvwal_construct_disk_segment_path wal d' \<longleftrightarrow> d = d') \<and>
    nvwal_construct_disk_segment_path wal (d + 2 ^ 32) = nvwal_construct_disk_segment_path wal d"
proof -
  have trunc: "unat (ucast x :: u32) = unat x mod 2 ^ 32" for x :: u64
    by (simp add: unsigned_ucast_eq take_bit_eq_mod)
  have "d = d'" if "nvwal_construct_disk_segment_path wal d = nvwal_construct_disk_segment_path wal d'"
    by (rule disk_segment_path_inj [OF assms that])
  moreover have "unat (ucast (d + 2 ^ 32) :: u32) = unat (ucast d :: u32)"
  proof -
    have "unat (d + 2 ^ 32) = unat d + 2 ^ 32"
      using assms(3) unat_plus_no_wrap [of d "2 ^ 32"] by simp
    then show ?thesis by (simp add: trunc)
  qed
  then have "(ucast (d + 2 ^ 32) :: u32) = ucast d" by (simp only: word_unat_eq_iff)
  then have "nvwal_construct_disk_segment_path wal (d + 2 ^ 32) = nvwal_construct_disk_segment_path wal d"
    by (simp add: nvwal_construct_disk_segment_path_def)
  ultimately show ?thesis by auto
qed

definition wal_sample_disk :: NvwalContext where
  "wal_sample_disk =
     zero_context\<lparr>wal_config := zero_config\<lparr>cf_disk_root := ''/d'', cf_disk_root_len := 2\<rparr>\<rparr>"

theorem disk_segment_path_unique_below_4g_witness:
  "nvwal_construct_disk_segment_path wal_sample_disk 1 \<noteq> nvwal_construct_disk_segment_path wal_sample_disk 2 \<and>
   nvwal_construct_disk_segment_path wal_sample_disk (1 + 2 ^ 32)
     = nvwal_construct_disk_segment_path wal_sample_disk 1"
  using disk_segment_path_unique_below_4g [of wal_sample_disk 1 2]
  by (simp add: wal_sample_disk_def strnlen_def)

end
