(* ===== verification/Writer.thy ===== *)
theory Writer
  imports Epoch Util
begin

text \<open>
  The writer side of \<^verbatim>\<open>src/nvwal_api.c\<close>: each client thread owns a circular buffer and five epoch
  frames that mark which bytes of it belong to which epoch. A writer function takes the WAL context
  for what it reads through \<open>parent_\<close> and returns the updated writer.
\<close>

section \<open>Epochs of the context\<close>

definition nvwal_query_durable_epoch :: "NvwalContext \<Rightarrow> u64" where
  "nvwal_query_durable_epoch wal = wal_durable_epoch wal"

definition nvwal_advance_stable_epoch :: "u64 \<Rightarrow> NvwalContext \<Rightarrow> (unit, NvwalContext) outcome" where
  "nvwal_advance_stable_epoch new_stable_epoch wal =
     (let durable_epoch = wal_durable_epoch wal
      in if nvwal_increment_epoch durable_epoch \<noteq> new_stable_epoch then Ok () wal
         else let wal = (if wal_stable_epoch wal = durable_epoch
                         then wal\<lparr>wal_stable_epoch := new_stable_epoch\<rparr> else wal)
              in c_assert (nvwal_is_epoch_equal_or_after (wal_stable_epoch wal) new_stable_epoch)
                   (Ok () wal))"

definition nvwal_get_version :: u64 where "nvwal_get_version = 1"

section \<open>Offsets and frames\<close>

definition wrap_writer_epoch_frame :: "u32 \<Rightarrow> u32 option" where
  "wrap_writer_epoch_frame current_epoch_frame =
     (if \<not> current_epoch_frame < of_nat kNvwalEpochFrameCount * 2 then None
      else if current_epoch_frame < of_nat kNvwalEpochFrameCount then Some current_epoch_frame
      else Some (current_epoch_frame - of_nat kNvwalEpochFrameCount))"

definition wrap_writer_offset :: "NvwalContext \<Rightarrow> u64 \<Rightarrow> u64 option" where
  "wrap_writer_offset wal offset =
     (let buffer_size = cf_writer_buffer_size (wal_config wal)
      in if \<not> offset < buffer_size * 2 then None
         else if offset < buffer_size then Some offset
         else Some (offset - buffer_size))"

definition calculate_writer_offset_distance :: "NvwalContext \<Rightarrow> u64 \<Rightarrow> u64 \<Rightarrow> u64" where
  "calculate_writer_offset_distance wal left_offset right_offset =
     (let buffer_size = cf_writer_buffer_size (wal_config wal)
      in if left_offset = right_offset then 0
         else if left_offset < right_offset then right_offset - left_offset
         else right_offset + buffer_size - left_offset)"

definition set_frame :: "nat \<Rightarrow> (NvwalWriterEpochFrame \<Rightarrow> NvwalWriterEpochFrame) \<Rightarrow>
    NvwalWriterContext \<Rightarrow> NvwalWriterContext" where
  "set_frame i f wr = wr\<lparr>wr_epoch_frames := (wr_epoch_frames wr)[i := f (wr_epoch_frames wr ! i)]\<rparr>"

text \<open>
  The loop that looks for the frame of an epoch: the first index that has it, or
  \<open>kNvwalEpochFrameCount\<close>.
\<close>

fun find_epoch_frame :: "NvwalWriterEpochFrame list \<Rightarrow> u64 \<Rightarrow> nat" where
  "find_epoch_frame [] target_epoch = 0"
| "find_epoch_frame (f # fs) target_epoch =
     (if fr_log_epoch f = target_epoch then 0 else Suc (find_epoch_frame fs target_epoch))"

section \<open>Operations\<close>

definition assure_writer_active_frame ::
  "u64 \<Rightarrow> NvwalWriterContext \<Rightarrow> (unit, NvwalWriterContext) outcome" where
  "assure_writer_active_frame log_epoch wr =
     elem_at (wr_epoch_frames wr) (unat (wr_active_frame wr)) (\<lambda>frame.
       if fr_log_epoch frame = log_epoch then Ok () wr
       else checked (if fr_log_epoch frame = kNvwalInvalidEpoch then Some (wr_active_frame wr)
                     else wrap_writer_epoch_frame (wr_active_frame wr + 1)) (\<lambda>active.
              elem_at (wr_epoch_frames wr) (unat active) (\<lambda>_.
                Ok () (set_frame (unat active)
                   (\<lambda>f. f\<lparr>fr_head_offset := wr_last_tail_offset wr,
                          fr_tail_offset := wr_last_tail_offset wr,
                          fr_log_epoch := log_epoch\<rparr>)
                   (wr\<lparr>wr_active_frame := active\<rparr>)))))"

definition nvwal_on_wal_write ::
  "NvwalContext \<Rightarrow> u64 \<Rightarrow> u64 \<Rightarrow> NvwalWriterContext \<Rightarrow> (unit, NvwalWriterContext) outcome" where
  "nvwal_on_wal_write wal bytes_written log_epoch wr =
     (let se = wal_stable_epoch wal;
          beyond_horizon = nvwal_add_epoch se (of_nat kNvwalEpochFrameCount)
      in c_assert (nvwal_is_epoch_after log_epoch se)
        (c_assert (nvwal_is_epoch_after beyond_horizon log_epoch)
          (and_then (assure_writer_active_frame log_epoch wr) (\<lambda>_ wr.
             elem_at (wr_epoch_frames wr) (unat (wr_active_frame wr)) (\<lambda>frame.
               c_assert (fr_log_epoch frame = log_epoch)
                 (c_assert (fr_tail_offset frame = wr_last_tail_offset wr)
                   (c_assert (calculate_writer_offset_distance wal (fr_head_offset frame)
                                (fr_tail_offset frame) + bytes_written
                              < cf_writer_buffer_size (wal_config wal))
                     (checked (wrap_writer_offset wal (fr_tail_offset frame + bytes_written)) (\<lambda>tail.
                        Ok () (set_frame (unat (wr_active_frame wr)) (\<lambda>f. f\<lparr>fr_tail_offset := tail\<rparr>)
                                 (wr\<lparr>wr_last_tail_offset := tail\<rparr>)))))))))))"

definition nvwal_tag_epoch ::
  "u64 \<Rightarrow> u64 \<Rightarrow> u64 \<Rightarrow> NvwalWriterContext \<Rightarrow> (unit, NvwalWriterContext) outcome" where
  "nvwal_tag_epoch target_epoch user_metadata_0 user_metadata_1 wr =
     (let frame_index = find_epoch_frame (wr_epoch_frames wr) target_epoch
      in if frame_index = kNvwalEpochFrameCount then Ok () wr
         else elem_at (wr_epoch_frames wr) frame_index (\<lambda>frame.
           c_assert (target_epoch = fr_log_epoch frame)
             (Ok () (set_frame frame_index
                (\<lambda>f. f\<lparr>fr_user_metadata_0 := user_metadata_0, fr_user_metadata_1 := user_metadata_1\<rparr>)
                wr))))"

fun consumed_writer_bytes :: "NvwalContext \<Rightarrow> u64 \<Rightarrow> NvwalWriterEpochFrame list \<Rightarrow> u64" where
  "consumed_writer_bytes wal consumed_bytes [] = consumed_bytes"
| "consumed_writer_bytes wal consumed_bytes (frame # frames) =
     (let durable = wal_durable_epoch wal;
          beyond_horizon = nvwal_add_epoch durable (of_nat kNvwalEpochFrameCount)
      in if fr_log_epoch frame = kNvwalInvalidEpoch
            \<or> nvwal_is_epoch_equal_or_after durable (fr_log_epoch frame)
            \<or> nvwal_is_epoch_equal_or_after (fr_log_epoch frame) beyond_horizon
         then consumed_writer_bytes wal consumed_bytes frames
         else consumed_writer_bytes wal
                (consumed_bytes + calculate_writer_offset_distance wal (fr_head_offset frame)
                                    (fr_tail_offset frame)) frames)"

definition nvwal_has_enough_writer_space :: "NvwalContext \<Rightarrow> NvwalWriterContext \<Rightarrow> bool" where
  "nvwal_has_enough_writer_space wal wr \<longleftrightarrow>
     consumed_writer_bytes wal 0 (wr_epoch_frames wr) * 2 \<le> cf_writer_buffer_size (wal_config wal)"

end
