(* ===== verification/Mds_Io.thy ===== *)
theory Mds_Io
  imports Epoch Util
begin

text \<open>
  The lower half of the metadata store: the 64-byte image of an epoch's metadata, the address
  arithmetic of \<^verbatim>\<open>include/nvwal_impl_mds.h\<close>, and the page files of \<^verbatim>\<open>src/nvwal_mds.c\<close> (\<open>mds_io_*\<close>). A
  pointer to a page file is its index among the files of the context.
\<close>

section \<open>The image of \<open>MdsEpochMetadata\<close>\<close>

text \<open>
  The layout of the struct: 8-byte fields at 0, 8, 24, 40 and 48, 4-byte fields at 16 and 32, each
  of these followed by 4 bytes of padding, and padding up to 64 (the union with \<open>u64_[8]\<close>); padding
  is written as zero.
\<close>

definition encode_epoch :: "MdsEpochMetadata \<Rightarrow> byte list" where
  "encode_epoch m =
     nat_bytes 8 (unat (em_epoch_id m)) @ nat_bytes 8 (unat (em_from_seg_id m))
     @ nat_bytes 4 (unat (em_from_offset m)) @ replicate 4 0
     @ nat_bytes 8 (unat (em_to_seg_id m))
     @ nat_bytes 4 (unat (em_to_off m)) @ replicate 4 0
     @ nat_bytes 8 (unat (em_user_metadata_0 m)) @ nat_bytes 8 (unat (em_user_metadata_1 m))
     @ replicate 8 0"

definition decode_epoch :: "byte list \<Rightarrow> MdsEpochMetadata" where
  "decode_epoch bs =
     \<lparr>em_epoch_id = of_nat (bytes_nat (mem_read bs 0 8)),
      em_from_seg_id = of_nat (bytes_nat (mem_read bs 8 8)),
      em_from_offset = of_nat (bytes_nat (mem_read bs 16 4)),
      em_to_seg_id = of_nat (bytes_nat (mem_read bs 24 8)),
      em_to_off = of_nat (bytes_nat (mem_read bs 32 4)),
      em_user_metadata_0 = of_nat (bytes_nat (mem_read bs 40 8)),
      em_user_metadata_1 = of_nat (bytes_nat (mem_read bs 48 8))\<rparr>"

definition epoch_metadata_size :: nat where [simp]: "epoch_metadata_size = 64"

section \<open>Address arithmetic\<close>

definition normalize_epoch_id :: "u64 \<Rightarrow> u64" where
  "normalize_epoch_id epoch_id = epoch_id - 1"

text \<open>An \<open>int\<close>: the quotient is truncated to 32 bits and sign-extended where it meets 64-bit operands.\<close>

definition max_epochs_per_page :: "NvwalContext \<Rightarrow> u64" where
  "max_epochs_per_page wal =
     scast (ucast (cf_mds_page_size (wal_config wal) div of_nat epoch_metadata_size) :: u32)"

definition epoch_id_to_file_no :: "NvwalContext \<Rightarrow> u64 \<Rightarrow> u64" where
  "epoch_id_to_file_no wal epoch_id =
     (normalize_epoch_id epoch_id div max_epochs_per_page wal) mod of_nat kNvwalMdsMaxPagefiles"

definition epoch_id_to_page_no :: "NvwalContext \<Rightarrow> u64 \<Rightarrow> u64" where
  "epoch_id_to_page_no wal epoch_id =
     (if epoch_id = kNvwalInvalidEpoch then kNvwalInvalidPage
      else 1 + normalize_epoch_id epoch_id div (max_epochs_per_page wal * of_nat kNvwalMdsMaxPagefiles))"

definition epoch_id_to_page_offset :: "NvwalContext \<Rightarrow> u64 \<Rightarrow> u64" where
  "epoch_id_to_page_offset wal epoch_id = normalize_epoch_id epoch_id mod max_epochs_per_page wal"

definition epoch_id_to_file_offset :: "u64 \<Rightarrow> u64" where
  "epoch_id_to_file_offset epoch_id = normalize_epoch_id epoch_id * of_nat epoch_metadata_size"

definition page_no_to_file_offset :: "NvwalContext \<Rightarrow> u64 \<Rightarrow> u64" where
  "page_no_to_file_offset wal page_no = (page_no - 1) * cf_mds_page_size (wal_config wal)"

section \<open>Page files\<close>

definition set_io_file :: "nat \<Rightarrow> (NvwalMdsPageFile \<Rightarrow> NvwalMdsPageFile) \<Rightarrow> world \<Rightarrow> world" where
  "set_io_file i f w =
     (let wal = w_wal w; mds = wal_mds wal; io = mds_io mds
      in w\<lparr>w_wal := wal\<lparr>wal_mds := mds\<lparr>mds_io := io\<lparr>io_files := (io_files io)[i := f (io_files io ! i)]\<rparr>\<rparr>\<rparr>\<rparr>)"

definition mds_io_file :: "u64 \<Rightarrow> nat option" where
  "mds_io_file file_no =
     (if file_no > of_nat (kNvwalMdsMaxPagefiles - 1) then None else Some (unat file_no))"

definition mds_page_file_path :: "NvwalContext \<Rightarrow> u64 \<Rightarrow> addr" where
  "mds_page_file_path wal file_no =
     nvwal_concat_sequence_filename (cf_disk_root (wal_config wal)) ''mds-pagefile-'' (ucast file_no)"

definition mds_io_file_exists :: "u64 \<Rightarrow> world \<Rightarrow> bool \<times> world" where
  "mds_io_file_exists file_no w =
     (case sys_stat (mds_page_file_path (w_wal w) file_no) (w_os w) of
        (Inr _, s) \<Rightarrow> (True, set_os s w)
      | (Inl _, s) \<Rightarrow> (False, set_os s w))"

definition mds_io_activate_file :: "u64 \<Rightarrow> int \<Rightarrow> world \<Rightarrow> (unit, world) outcome" where
  "mds_io_activate_file file_no fd w =
     checked (mds_io_file file_no) (\<lambda>i.
       Ok () (set_io_file i (\<lambda>_. \<lparr>pf_active = True, pf_file_no = file_no, pf_fd = fd\<rparr>) w))"

definition mds_io_open_file :: "u64 \<Rightarrow> world \<Rightarrow> (unit, world) outcome" where
  "mds_io_open_file file_no w =
     and_then (sys_call (sys_open (mds_page_file_path (w_wal w) file_no) False False True (w_os w)) w)
       (\<lambda>fd w. mds_io_activate_file file_no fd w)"

definition mds_io_create_file :: "u64 \<Rightarrow> world \<Rightarrow> (unit, world) outcome" where
  "mds_io_create_file file_no w =
     and_then (sys_call (sys_open (mds_page_file_path (w_wal w) file_no) True True True (w_os w)) w)
       (\<lambda>fd w.
          and_then (lift_outcome set_os
                      (nvwal_open_and_fsync (c_string (cf_disk_root (wal_config (w_wal w)))) (w_os w)) w)
            (\<lambda>_ w. mds_io_activate_file file_no fd w))"

definition mds_io_close_file :: "u64 \<Rightarrow> world \<Rightarrow> (unit, world) outcome" where
  "mds_io_close_file file_no w =
     checked (mds_io_file file_no) (\<lambda>i.
       elem_at (io_files (mds_io (wal_mds (w_wal w)))) i (\<lambda>file.
         Ok () (set_io_file i (\<lambda>f. f\<lparr>pf_active := False\<rparr>)
                  (set_os (snd (sys_close (pf_fd file) (w_os w))) w))))"

text \<open>
  The read loop; \<open>acc\<close> holds what was read so far. An answer that is not pending is a full one: a
  read that is then still short has reached the end of the file, where every further call of
  \<open>pread\<close> returns 0 and the loop does not end.
\<close>

function mds_io_pread_loop ::
  "int \<Rightarrow> byte list \<Rightarrow> nat \<Rightarrow> nat \<Rightarrow> os \<Rightarrow> (byte list, os) outcome" where
  "mds_io_pread_loop fd acc count offset s =
     (if length acc < count
      then (case sys_pread fd (count - length acc) (offset + length acc) s of
              (Inl e, t) \<Rightarrow> Fail e t
            | (Inr bs, t) \<Rightarrow>
                if os_resp s = []
                then (if length acc + length bs < count then Spin t else Ok (acc @ bs) t)
                else mds_io_pread_loop fd (acc @ bs) count offset t)
      else Ok acc s)"
  by pat_completeness auto

definition mds_io_pread :: "int \<Rightarrow> nat \<Rightarrow> nat \<Rightarrow> os \<Rightarrow> (byte list, os) outcome" where
  "mds_io_pread fd count offset s = mds_io_pread_loop fd [] count offset s"

text \<open>The write loop, on the bytes still to be written.\<close>

function mds_io_write_loop :: "int \<Rightarrow> byte list \<Rightarrow> os \<Rightarrow> (unit, os) outcome" where
  "mds_io_write_loop fd bs s =
     (if bs = [] then Ok () s
      else case sys_write fd bs s of
             (Inl e, t) \<Rightarrow> Fail e t
           | (Inr n, t) \<Rightarrow> mds_io_write_loop fd (drop n bs) t)"
  by pat_completeness auto

definition mds_io_append_page :: "int \<Rightarrow> byte list \<Rightarrow> os \<Rightarrow> (unit, os) outcome" where
  "mds_io_append_page fd buf s =
     and_then (mds_io_write_loop fd buf s) (\<lambda>_ t. Ok () (snd (sys_fsync fd t)))"

definition mds_io_truncate_file :: "NvwalContext \<Rightarrow> int \<Rightarrow> u64 \<Rightarrow> os \<Rightarrow> (unit, os) outcome" where
  "mds_io_truncate_file wal fd page_length s =
     (let len = page_length * cf_mds_page_size (wal_config wal)
      in case sys_ftruncate fd (unat len) s of
           (Inl e, t) \<Rightarrow> Fail e t
         | (Inr _, t) \<Rightarrow> (case sys_fsync fd t of (Inl e, t) \<Rightarrow> Fail e t | (Inr _, t) \<Rightarrow> Ok () t))"

definition mds_io_recovery_complete_append_page ::
  "NvwalContext \<Rightarrow> int \<Rightarrow> os \<Rightarrow> (unit, os) outcome" where
  "mds_io_recovery_complete_append_page wal fd s =
     (let page_size = unat (cf_mds_page_size (wal_config wal))
      in case sys_fstat fd s of
           (Inl e, t) \<Rightarrow> Fail e t
         | (Inr st_size, t) \<Rightarrow>
             if st_size mod page_size \<noteq> 0
             then mds_io_truncate_file wal fd (of_nat (st_size div page_size)) t
             else Ok () t)"

definition mds_io_num_pages :: "NvwalContext \<Rightarrow> int \<Rightarrow> os \<Rightarrow> (u64, os) outcome" where
  "mds_io_num_pages wal fd s =
     (let page_size = unat (cf_mds_page_size (wal_config wal))
      in case sys_fstat fd s of
           (Inl e, t) \<Rightarrow> Fail e t
         | (Inr st_size, t) \<Rightarrow>
             if st_size mod page_size \<noteq> 0 then nvwal_raise_einval t
             else Ok (of_nat (st_size div page_size)) t)"

section \<open>Starting and stopping the page files\<close>

definition page_file_nos :: "u64 list" where
  "page_file_nos = map of_nat [0..<kNvwalMdsMaxPagefiles]"

text \<open>A loop over file numbers that counts those for which a test holds, and one that stops at an error.\<close>

fun count_existing :: "(u64 \<Rightarrow> world \<Rightarrow> bool \<times> world) \<Rightarrow> u64 list \<Rightarrow> world \<Rightarrow> nat \<times> world" where
  "count_existing ex [] w = (0, w)"
| "count_existing ex (i # is) w =
     (case ex i w of (b, w) \<Rightarrow>
        case count_existing ex is w of (n, w) \<Rightarrow> ((if b then 1 else 0) + n, w))"

fun for_each :: "('i \<Rightarrow> 's \<Rightarrow> (unit, 's) outcome) \<Rightarrow> 'i list \<Rightarrow> 's \<Rightarrow> (unit, 's) outcome" where
  "for_each f [] w = Ok () w"
| "for_each f (i # is) w = and_then (f i w) (\<lambda>_ w. for_each f is w)"

definition clear_io :: "world \<Rightarrow> world" where
  "clear_io w = w\<lparr>w_wal := (w_wal w)\<lparr>wal_mds := (wal_mds (w_wal w))\<lparr>mds_io := mds_io zero_mds\<rparr>\<rparr>\<rparr>"

definition mds_io_init :: "NvwalInitMode \<Rightarrow> world \<Rightarrow> (bool, world) outcome" where
  "mds_io_init mode w =
     (case count_existing mds_io_file_exists page_file_nos (clear_io w) of
        (num_existing, w) \<Rightarrow>
          if mode = kNvwalInitRestart \<and> num_existing = kNvwalMdsMaxPagefiles
             \<or> mode = kNvwalInitCreateIfNotExists \<and> num_existing = kNvwalMdsMaxPagefiles
          then and_then (for_each mds_io_open_file page_file_nos w) (\<lambda>_ w. Ok True w)
          else if mode = kNvwalInitCreateIfNotExists \<and> num_existing = 0
          then and_then (for_each mds_io_create_file page_file_nos w) (\<lambda>_ w. Ok False w)
          else Fail EIO w)"

definition mds_io_uninit :: "world \<Rightarrow> (unit, world) outcome" where
  "mds_io_uninit w =
     for_each (\<lambda>i w. elem_at (io_files (mds_io (wal_mds (w_wal w)))) (unat i) (\<lambda>file.
                 if pf_active file then mds_io_close_file i w else Ok () w)) page_file_nos w"

section \<open>Termination of the loops\<close>

lemma sys_amount_resp:
  "sys_amount n s = (r, t) \<Longrightarrow> os_resp s \<noteq> [] \<Longrightarrow> length (os_resp t) < length (os_resp s)"
  "sys_amount n s = (r, t) \<Longrightarrow> os_resp s = [] \<Longrightarrow> r = Inr n \<and> t = s"
  by (auto simp: sys_amount_def sys_next_def split: list.splits sys_resp.splits)

lemma sys_pread_progress:
  assumes "sys_pread fd n off s = (Inr bs, t)" "os_resp s \<noteq> []"
  shows "length (os_resp t) < length (os_resp s)"
  using assms sys_amount_resp(1)
  by (fastforce simp: sys_pread_def split: option.splits prod.splits sum.splits if_splits)

termination mds_io_pread_loop
  by (relation "measure (\<lambda>(fd, acc, count, offset, s). length (os_resp s))")
    (auto intro: sys_pread_progress [OF sym])

lemma sys_write_progress:
  assumes "sys_write fd bs s = (Inr n, t)" "bs \<noteq> []"
  shows "length (os_resp t) + length (drop n bs) < length (os_resp s) + length bs"
proof -
  obtain u where u: "sys_amount (length bs) s = (Inr n, u)" "os_resp t = os_resp u"
    using assms(1) by (auto simp: sys_write_def Let_def split: option.splits prod.splits sum.splits)
  show ?thesis
  proof (cases "os_resp s = []")
    case True
    with u sys_amount_resp(2) [OF u(1)] assms(2) show ?thesis by simp
  next
    case False
    with u sys_amount_resp(1) [OF u(1)] show ?thesis by simp
  qed
qed

lemma sys_write_resp: "sys_write fd bs s = (Inr n, t) \<Longrightarrow> os_resp s = [] \<Longrightarrow> os_resp t = []"
  by (auto simp: sys_write_def Let_def sys_amount_calm split: option.splits prod.splits sum.splits)

termination mds_io_write_loop
  by (relation "measure (\<lambda>(fd, bs, s). length (os_resp s) + length bs)")
    (auto dest!: sys_write_progress [OF sym])

declare mds_io_pread_loop.simps [simp del] mds_io_write_loop.simps [simp del]

section \<open>Images of records\<close>

lemma length_encode_epoch [simp]: "length (encode_epoch m) = 64"
  by (simp add: encode_epoch_def)

lemma word_bytes_roundtrip:
  "of_nat (bytes_nat (nat_bytes 8 (unat (x :: u64)))) = x"
  "of_nat (bytes_nat (nat_bytes 4 (unat (y :: u32)))) = y"
  using unsigned_less [of x, where ?'a = nat] unsigned_less [of y, where ?'a = nat]
  by (simp_all add: bytes_nat_nat_bytes)

lemma mem_read_skip: "length a \<le> off \<Longrightarrow> mem_read (a @ b) off n = mem_read b (off - length a) n"
  by (simp add: mem_read_def)

lemma mem_read_here: "n = length a \<Longrightarrow> mem_read (a @ b) 0 n = a"
  by (simp add: mem_read_def)

lemma decode_encode_epoch [simp]: "decode_epoch (encode_epoch m) = m"
  by (simp add: decode_epoch_def encode_epoch_def mem_read_skip mem_read_here word_bytes_roundtrip)

section \<open>Addresses\<close>

text \<open>
  The page sizes the address arithmetic is meant for: those \<open>sanity_check_config\<close> leaves, as long as
  the number of records of a page fits an \<open>int\<close>.
\<close>

definition mds_page_ok :: "NvwalContext \<Rightarrow> bool" where
  "mds_page_ok wal \<longleftrightarrow>
     cf_mds_page_size (wal_config wal) mod 512 = 0 \<and> cf_mds_page_size (wal_config wal) \<noteq> 0 \<and>
     unat (cf_mds_page_size (wal_config wal)) < 2 ^ 37"

text \<open>The number of records of a page.\<close>

definition page_epochs :: "NvwalContext \<Rightarrow> nat" where
  "page_epochs wal = unat (cf_mds_page_size (wal_config wal)) div epoch_metadata_size"

lemma unat_div_u64: "unat (a div (b :: u64)) = unat a div unat b"
  by (simp add: unat_div)

lemma unat_mod_u64: "unat (a mod (b :: u64)) = unat a mod unat b"
  by (simp add: unat_mod)

lemma unat_mult_no_wrap:
  fixes a b :: u64
  assumes "unat a * unat b < 2 ^ 64"
  shows "unat (a * b) = unat a * unat b"
  using assms by (simp add: unat_word_ariths)

lemma page_epochs_pos:
  assumes "mds_page_ok wal"
  shows "0 < page_epochs wal" "unat (cf_mds_page_size (wal_config wal)) = page_epochs wal * 64"
    "page_epochs wal < 2147483648"
proof -
  let ?ps = "cf_mds_page_size (wal_config wal)"
  have "unat (?ps mod 512) = 0" using assms by (simp add: mds_page_ok_def)
  then have "unat ?ps mod 512 = 0" by (simp add: unat_mod_u64)
  then obtain k where k: "unat ?ps = 512 * k" by auto
  moreover have "unat ?ps \<noteq> 0" using assms by (simp add: mds_page_ok_def unsigned_eq_0_iff)
  ultimately show "0 < page_epochs wal" "unat ?ps = page_epochs wal * 64"
    by (auto simp: page_epochs_def)
  show "page_epochs wal < 2147483648"
    using assms by (simp add: page_epochs_def mds_page_ok_def less_mult_imp_div_less)
qed

lemma unat_max_epochs_per_page:
  assumes "mds_page_ok wal"
  shows "unat (max_epochs_per_page wal) = page_epochs wal"
proof -
  let ?q = "cf_mds_page_size (wal_config wal) div 64"
  have q: "unat ?q = page_epochs wal" by (simp add: page_epochs_def unat_div_u64)
  then have lt: "unat ?q < 2147483648" using page_epochs_pos(3) [OF assms] by simp
  then have u: "unat (ucast ?q :: u32) = unat ?q"
    by (simp add: unsigned_ucast_eq take_bit_eq_mod)
  then have "sint (ucast ?q :: u32) = int (unat ?q)"
    using lt by (simp add: sint_u32_alt)
  then have "scast (ucast ?q :: u32) = (of_int (int (unat ?q)) :: u64)"
    by (metis of_int_sint)
  then show ?thesis
    using lt q by (simp add: max_epochs_per_page_def unat_of_nat take_bit_eq_mod)
qed

lemma unat_epoch_id_to_page_no:
  assumes "mds_page_ok wal" "e \<noteq> 0"
  shows "unat (epoch_id_to_page_no wal e) = 1 + (unat e - 1) div page_epochs wal"
proof -
  let ?d = "normalize_epoch_id e div (max_epochs_per_page wal * of_nat kNvwalMdsMaxPagefiles)"
  have d: "unat ?d = (unat e - 1) div page_epochs wal"
    using assms by (simp add: normalize_epoch_id_def unat_div_u64 unat_pred_u64
        unat_max_epochs_per_page)
  also have "\<dots> \<le> unat e - 1" by (rule div_le_dividend)
  finally have "unat ?d < 18446744073709551615"
    using unat_u64_less [of e] assms(2) by (simp add: unsigned_eq_0_iff [symmetric])
  then have "?d \<noteq> - 1" by (auto simp: unat_minus_1_u64)
  then show ?thesis
    using assms(2) d unat_suc_u64 [of ?d] by (simp add: epoch_id_to_page_no_def add.commute)
qed

lemma unat_epoch_id_to_page_offset:
  assumes "mds_page_ok wal" "e \<noteq> 0"
  shows "unat (epoch_id_to_page_offset wal e) = (unat e - 1) mod page_epochs wal"
  using assms by (simp add: epoch_id_to_page_offset_def normalize_epoch_id_def unat_mod_u64
      unat_pred_u64 unat_max_epochs_per_page)

lemma epoch_id_to_file_no_0 [simp]: "epoch_id_to_file_no wal e = 0"
proof -
  have "unat (epoch_id_to_file_no wal e) = 0"
    by (simp add: epoch_id_to_file_no_def unat_mod_u64)
  then show ?thesis by (simp add: unsigned_eq_0_iff)
qed

lemma unat_epoch_id_to_file_offset:
  assumes "e \<noteq> 0" "unat e < 2 ^ 56"
  shows "unat (epoch_id_to_file_offset e) = (unat e - 1) * 64"
  using assms unat_mult_no_wrap [of "e - 1" 64]
  by (simp add: epoch_id_to_file_offset_def normalize_epoch_id_def unat_pred_u64)

lemma unat_page_no_to_file_offset:
  assumes "p \<noteq> 0" "(unat p - 1) * unat (cf_mds_page_size (wal_config wal)) < 2 ^ 64"
  shows "unat (page_no_to_file_offset wal p) = (unat p - 1) * unat (cf_mds_page_size (wal_config wal))"
  using assms unat_mult_no_wrap [of "p - 1" "cf_mds_page_size (wal_config wal)"]
  by (simp add: page_no_to_file_offset_def unat_pred_u64)

text \<open>
  C24. Addresses of epoch records agree and do not clash. For the page sizes the store accepts, the
  record of an epoch lies inside its page; its offset in the page file is the start of its page plus
  its offset in the page, so the NVRAM buffer and the page file lay out records alike; and two epochs
  with the same page number and page offset are the same epoch.
\<close>

theorem epoch_address_agrees:
  assumes "mds_page_ok wal" "e \<noteq> 0" "e' \<noteq> 0" "unat e < 2 ^ 56"
  shows "(unat (epoch_id_to_page_offset wal e) + 1) * epoch_metadata_size
           \<le> unat (cf_mds_page_size (wal_config wal)) \<and>
         unat (epoch_id_to_file_offset e)
           = unat (page_no_to_file_offset wal (epoch_id_to_page_no wal e))
             + unat (epoch_id_to_page_offset wal e) * epoch_metadata_size \<and>
         (epoch_id_to_page_no wal e = epoch_id_to_page_no wal e' \<and>
          epoch_id_to_page_offset wal e = epoch_id_to_page_offset wal e' \<longrightarrow> e = e')"
proof -
  let ?k = "page_epochs wal"
  note k = page_epochs_pos [OF assms(1)]
  note p = unat_epoch_id_to_page_no [OF assms(1)]
  note o = unat_epoch_id_to_page_offset [OF assms(1)]
  have "unat (epoch_id_to_page_offset wal e) < ?k" using o [OF assms(2)] k(1) by simp
  then have inside: "(unat (epoch_id_to_page_offset wal e) + 1) * 64 \<le> ?k * 64" by simp
  have split: "(unat e - 1) * 64 = (unat e - 1) div ?k * ?k * 64 + (unat e - 1) mod ?k * 64"
    by (metis add_mult_distrib div_mult_mod_eq)
  have pn: "epoch_id_to_page_no wal e \<noteq> 0" using p [OF assms(2)] by (auto simp: unsigned_eq_0_iff)
  have "(unat (epoch_id_to_page_no wal e) - 1) * unat (cf_mds_page_size (wal_config wal)) \<le> (unat e - 1) * 64"
    using split p [OF assms(2)] k(2) by simp
  also have "\<dots> < 2 ^ 64" using assms(4) by simp
  finally have pf: "unat (page_no_to_file_offset wal (epoch_id_to_page_no wal e))
      = (unat e - 1) div ?k * (?k * 64)"
    using unat_page_no_to_file_offset [OF pn, of wal] p [OF assms(2)] k(2) by simp
  have "e = e'" if "epoch_id_to_page_no wal e = epoch_id_to_page_no wal e'"
    "epoch_id_to_page_offset wal e = epoch_id_to_page_offset wal e'"
  proof -
    from that have "(unat e - 1) div ?k = (unat e' - 1) div ?k" "(unat e - 1) mod ?k = (unat e' - 1) mod ?k"
      using p o assms(2,3) by (metis add_left_cancel)+
    then have "unat e - 1 = unat e' - 1" by (metis div_mult_mod_eq)
    moreover have "0 < unat e" "0 < unat e'" using assms(2,3) by (simp_all add: unat_gt_0)
    ultimately show "e = e'" by (simp add: unat_eq_u64 [symmetric])
  qed
  with inside split pf show ?thesis
    using k(2) o [OF assms(2)] unat_epoch_id_to_file_offset [OF assms(2,4)] by simp
qed

definition wal_sample_mds :: NvwalContext where
  "wal_sample_mds = zero_context\<lparr>wal_config := zero_config\<lparr>cf_mds_page_size := 512\<rparr>\<rparr>"

theorem epoch_address_agrees_witness:
  "mds_page_ok wal_sample_mds \<and>
   unat (epoch_id_to_file_offset 10)
     = unat (page_no_to_file_offset wal_sample_mds (epoch_id_to_page_no wal_sample_mds 10))
       + unat (epoch_id_to_page_offset wal_sample_mds 10) * epoch_metadata_size"
proof -
  have "mds_page_ok wal_sample_mds" by (simp add: mds_page_ok_def wal_sample_mds_def)
  with epoch_address_agrees [of wal_sample_mds 10 11] show ?thesis by simp
qed

section \<open>Appending and reading pages\<close>

text \<open>
  The write loop appends what it is given, however the operating system splits or fails the calls:
  all of it if it succeeds, a prefix if it returns an error.
\<close>

lemma write_loop_appends:
  assumes "os_fds s fd = Some d" "fd_append d" "os_files s (fd_path d) = Some c"
  shows "case mds_io_write_loop fd bs s of
      Ok _ t \<Rightarrow> os_files t = (os_files s)(fd_path d \<mapsto> c @ bs) \<and> os_rest t = os_rest s \<and>
               (\<exists>n. os_fds t = (os_fds s)(fd \<mapsto> d\<lparr>fd_pos := n\<rparr>)) \<and>
               (os_resp s = [] \<longrightarrow> os_resp t = [])
    | Fail e t \<Rightarrow> (\<exists>n \<le> length bs. os_files t = (os_files s)(fd_path d \<mapsto> c @ take n bs)) \<and>
               os_rest t = os_rest s \<and> os_resp s \<noteq> []
    | _ \<Rightarrow> False"
  using assms
proof (induction fd bs s arbitrary: c d rule: mds_io_write_loop.induct)
  case (1 fd bs s)
  show ?case
  proof (cases "bs = []")
    case True
    have "d\<lparr>fd_pos := fd_pos d\<rparr> = d" by simp
    with True 1(2-4) show ?thesis
      by (subst mds_io_write_loop.simps) (auto simp: fun_upd_idem intro!: exI [of _ "fd_pos d"])
  next
    case False
    obtain r t where r: "sys_write fd bs s = (r, t)" by (cases "sys_write fd bs s")
    show ?thesis
    proof (cases r)
      case (Inl e)
      with r False 1(2-4) sys_write_Inl [of s fd d c bs e t] show ?thesis
        by (subst mds_io_write_loop.simps) (auto simp: fun_upd_idem intro!: exI [of _ 0])
    next
      case (Inr n)
      note w = sys_write_append [OF 1(2-4), of bs n t]
      have t: "n \<le> length bs" "os_files t = (os_files s)(fd_path d \<mapsto> c @ take n bs)"
        "os_fds t = (os_fds s)(fd \<mapsto> d\<lparr>fd_pos := length c + n\<rparr>)" "os_rest t = os_rest s"
        using r Inr w by simp_all
      have rs: "os_resp s = [] \<longleftrightarrow> os_resp s = [] \<and> os_resp t = []"
        using r Inr sys_write_resp by blast
      note IH = 1(1) [OF False r [symmetric] Inr, of "d\<lparr>fd_pos := length c + n\<rparr>" "c @ take n bs"]
      have eq: "mds_io_write_loop fd bs s = mds_io_write_loop fd (drop n bs) t"
        using r Inr False by (subst mds_io_write_loop.simps) simp
      show ?thesis
      proof (cases "mds_io_write_loop fd (drop n bs) t")
        case (Ok a u)
        then show ?thesis using IH t rs eq 1(3) by auto
      next
        case (Fail e u)
        with IH t 1(3) obtain m where m: "m \<le> length (drop n bs)"
          "os_files u = (os_files s)(fd_path d \<mapsto> c @ take n bs @ take m (drop n bs))" by auto
        have "n + m \<le> length bs" "take n bs @ take m (drop n bs) = take (n + m) bs"
          using m t by (simp_all add: take_add)
        with m have "\<exists>k \<le> length bs. os_files u = (os_files s)(fd_path d \<mapsto> c @ take k bs)" by metis
        then show ?thesis using Fail IH t rs eq 1(3) by auto
      qed (use IH t eq 1(3) in auto)
    qed
  qed
qed

lemma sys_pread_cases:
  assumes "fd_file fd s = Some (p, c)" "off + n \<le> length c" "off < 2 ^ 63"
  obtains (error) e t where "sys_pread fd n off s = (Inl e, t)" "os_resp s \<noteq> []"
  | (bytes) k t where "sys_pread fd n off s = (Inr (mem_read c off k), t)" "k \<le> n"
      "os_files t = os_files s" "os_fds t = os_fds s" "os_resp s = [] \<longrightarrow> k = n \<and> t = s"
proof -
  obtain r t where r: "sys_amount (length (take n (drop off c))) s = (r, t)"
    by (cases "sys_amount (length (take n (drop off c))) s")
  show thesis
  proof (cases r)
    case (Inl e)
    with r have "os_resp s \<noteq> []" by (auto simp: sys_amount_calm)
    with Inl r assms show ?thesis by (intro error [of e t]) (auto simp: sys_pread_def)
  next
    case (Inr k)
    have "k \<le> n" using sys_amount_le [of _ s k t] r Inr assms(2) by auto
    moreover have "os_resp s = [] \<longrightarrow> k = n \<and> t = s"
      using r Inr assms(2) by (auto simp: sys_amount_calm)
    ultimately show ?thesis
      using r Inr assms sys_amount_frame [OF r]
      by (intro bytes [of k t]) (auto simp: sys_pread_def mem_read_def)
  qed
qed

lemma mem_read_add: "mem_read c off (m + k) = mem_read c off m @ mem_read c (off + m) k"
  by (simp add: mem_read_def take_add add.commute [of off])

text \<open>
  The read loop returns the requested range of the file, whichever way the operating system splits
  the calls; it returns an error only if one of them failed.
\<close>

lemma pread_loop_reads:
  assumes "fd_file fd s = Some (p, c)" "off + count \<le> length c" "off + count < 2 ^ 63"
    and "m \<le> count" "acc = mem_read c off m"
  shows "case mds_io_pread_loop fd acc count off s of
      Ok bs t \<Rightarrow> bs = mem_read c off count \<and> os_files t = os_files s \<and> os_fds t = os_fds s \<and>
                (os_resp s = [] \<longrightarrow> t = s)
    | Fail e t \<Rightarrow> os_resp s \<noteq> []
    | _ \<Rightarrow> False"
  using assms
proof (induction fd acc count off s arbitrary: m rule: mds_io_pread_loop.induct)
  case (1 fd acc count off s)
  have len: "length acc = m" using 1(3,5,6) by (simp add: mem_simps)
  show ?case
  proof (cases "m < count")
    case False
    with 1(5,6) len show ?thesis by (subst mds_io_pread_loop.simps) simp
  next
    case True
    have fits: "off + m + (count - m) \<le> length c" "off + m < 2 ^ 63" using 1(3,4) True by auto
    from 1(2) fits show ?thesis
    proof (cases rule: sys_pread_cases)
      case (error e t)
      with True len show ?thesis by (subst mds_io_pread_loop.simps) (simp add: len)
    next
      case (bytes k t)
      have lenk: "length (mem_read c (off + m) k) = k" using bytes(2) fits(1) by (simp add: mem_simps)
      show ?thesis
      proof (cases "os_resp s = []")
        case calm: True
        with bytes True len lenk 1(6) show ?thesis
          by (subst mds_io_pread_loop.simps) (auto simp: len mem_read_add [symmetric])
      next
        case busy: False
        have step: "mds_io_pread_loop fd acc count off s
            = mds_io_pread_loop fd (acc @ mem_read c (off + m) k) count off t"
          using bytes(1) True busy len by (subst mds_io_pread_loop.simps) (simp add: len)
        have ff: "fd_file fd t = Some (p, c)"
          using 1(2) unfolding fd_file_def bytes(3) bytes(4) .
        have acc: "acc @ mem_read c (off + length acc) k = mem_read c off (m + k)"
          using 1(6) len by (simp add: mem_read_add)
        have "m + k \<le> count" using bytes(2) True by simp
        from 1(1) [OF _ bytes(1) [folded len, symmetric] refl busy ff 1(3,4) this acc]
        show ?thesis
          unfolding step using bytes(3,4) busy True len by (auto split: outcome.splits)
      qed
    qed
  qed
qed

lemma pread_calm:
  assumes "fd_file fd s = Some (p, c)" "off + count \<le> length c" "off + count < 2 ^ 63" "os_resp s = []"
  shows "mds_io_pread fd count off s = Ok (mem_read c off count) s"
  using pread_loop_reads [OF assms(1-3), of 0 "[]"] assms(4)
  by (auto simp: mds_io_pread_def mem_read_def split: outcome.splits)


definition os_sample_append :: os where
  "os_sample_append = empty_os\<lparr>os_files := [''/p'' \<mapsto> [1, 2]],
     os_fds := [5 \<mapsto> \<lparr>fd_path = ''/p'', fd_append = True, fd_pos = 0\<rparr>]\<rparr>"


end
