(* ===== verification/Mds_Buf.thy ===== *)
theory Mds_Buf
  imports Mds_Io
begin

text \<open>
  The buffer manager of the metadata store (\<open>mds_bufmgr_*\<close> in \<^verbatim>\<open>src/nvwal_mds.c\<close>): one page-sized
  buffer in NVRAM per page file, which holds the page that still receives epochs.
\<close>

section \<open>Buffer files\<close>

definition mds_buffer_path :: "NvwalContext \<Rightarrow> nat \<Rightarrow> addr" where
  "mds_buffer_path wal buffer_id =
     nvwal_concat_sequence_filename (cf_nv_root (wal_config wal)) ''mds-nvram-buf-'' (of_nat buffer_id)"

text \<open>\<open>pmem_memset_persist\<close> and \<open>pmem_memcpy_persist\<close>: the store followed by \<open>pmem_persist\<close>.\<close>

definition pmem_store_persist :: "pmem \<Rightarrow> addr \<Rightarrow> nat \<Rightarrow> byte list \<Rightarrow> os \<Rightarrow> os" where
  "pmem_store_persist pm p off bs s = persist_mapped pm p off (length bs) (store_mapped p off bs s)"

definition create_nvram_buffer_file :: "pmem \<Rightarrow> nat \<Rightarrow> world \<Rightarrow> (unit, world) outcome" where
  "create_nvram_buffer_file pm buffer_id w =
     (let wal = w_wal w;
          pathname = mds_buffer_path wal buffer_id;
          page_size = unat (cf_mds_page_size (wal_config wal))
      in and_then (sys_call (nvwal_open_best_effort_o_direct pathname True True (w_os w)) w) (\<lambda>nv_fd w.
         and_then (sys_call (sys_fallocate nv_fd page_size (w_os w)) w) (\<lambda>_ w.
         and_then (sys_call (sys_mmap nv_fd (w_os w)) w) (\<lambda>m w.
           let s = pmem_store_persist pm m 0 (replicate page_size 0) (w_os w);
               s = snd (sys_munmap m s);
               s = snd (sys_fsync nv_fd s);
               s = snd (sys_close nv_fd s)
           in lift_outcome set_os (nvwal_open_and_fsync (c_string (cf_nv_root (wal_config wal))) s) w))))"

definition nvram_buffer_file_exists :: "u64 \<Rightarrow> world \<Rightarrow> bool \<times> world" where
  "nvram_buffer_file_exists buffer_id w =
     (case sys_stat (mds_buffer_path (w_wal w) (unat buffer_id)) (w_os w) of
        (Inr _, s) \<Rightarrow> (True, set_os s w)
      | (Inl _, s) \<Rightarrow> (False, set_os s w))"

definition map_nvram_buffer_file :: "nat \<Rightarrow> world \<Rightarrow> (addr, world) outcome" where
  "map_nvram_buffer_file buffer_id w =
     and_then (sys_call (nvwal_open_best_effort_o_direct (mds_buffer_path (w_wal w) buffer_id)
                           False False (w_os w)) w) (\<lambda>nv_fd w.
       and_then (sys_call (sys_mmap nv_fd (w_os w)) w) (\<lambda>nv_baseaddr w.
         Ok nv_baseaddr (set_os (snd (sys_close nv_fd (w_os w))) w)))"

definition unmap_nvram_buffer_file :: "addr option \<Rightarrow> os \<Rightarrow> (unit, os) outcome" where
  "unmap_nvram_buffer_file nv_baseaddr s =
     (case nv_baseaddr of
        None \<Rightarrow> Ok () s
      | Some p \<Rightarrow> (case sys_munmap p s of (Inl e, t) \<Rightarrow> Fail e t | (Inr _, t) \<Rightarrow> Ok () t))"

section \<open>Buffers\<close>

definition write_buffers :: "world \<Rightarrow> NvwalMdsBuffer list" where
  [simp]: "write_buffers w = bm_write_buffers (mds_bufmgr (wal_mds (w_wal w)))"

definition set_buffer :: "nat \<Rightarrow> (NvwalMdsBuffer \<Rightarrow> NvwalMdsBuffer) \<Rightarrow> world \<Rightarrow> world" where
  "set_buffer i f w =
     (let wal = w_wal w; mds = wal_mds wal; bufmgr = mds_bufmgr mds; bs = bm_write_buffers bufmgr
      in w\<lparr>w_wal := wal\<lparr>wal_mds := mds\<lparr>mds_bufmgr := bufmgr\<lparr>bm_write_buffers := bs[i := f (bs ! i)]\<rparr>\<rparr>\<rparr>\<rparr>)"

definition mds_bufmgr_map_nvram_buffer :: "u64 \<Rightarrow> world \<Rightarrow> (unit, world) outcome" where
  "mds_bufmgr_map_nvram_buffer buffer_id w =
     and_then (map_nvram_buffer_file (unat buffer_id) w) (\<lambda>baseaddr w.
       elem_at (write_buffers w) (unat buffer_id) (\<lambda>_.
         Ok () (set_buffer (unat buffer_id)
                  (\<lambda>b. b\<lparr>bf_file := None, bf_page_no := 0, bf_baseaddr := Some baseaddr\<rparr>) w)))"

definition mds_bufmgr_create_nvram_buffer :: "pmem \<Rightarrow> u64 \<Rightarrow> world \<Rightarrow> (unit, world) outcome" where
  "mds_bufmgr_create_nvram_buffer pm buffer_id w =
     and_then (create_nvram_buffer_file pm (unat buffer_id) w) (\<lambda>_ w.
       and_then (map_nvram_buffer_file (unat buffer_id) w) (\<lambda>baseaddr w.
         elem_at (write_buffers w) (unat buffer_id) (\<lambda>_.
           Ok () (set_buffer (unat buffer_id)
                    (\<lambda>b. b\<lparr>bf_file := None, bf_page_no := 0, bf_baseaddr := Some baseaddr\<rparr>) w))))"

definition clear_bufmgr :: "world \<Rightarrow> world" where
  "clear_bufmgr w =
     w\<lparr>w_wal := (w_wal w)\<lparr>wal_mds := (wal_mds (w_wal w))\<lparr>mds_bufmgr := mds_bufmgr zero_mds\<rparr>\<rparr>\<rparr>"

definition mds_bufmgr_init :: "pmem \<Rightarrow> NvwalInitMode \<Rightarrow> world \<Rightarrow> (bool, world) outcome" where
  "mds_bufmgr_init pm mode w =
     (case count_existing nvram_buffer_file_exists page_file_nos (clear_bufmgr w) of
        (num_existing, w) \<Rightarrow>
          if mode = kNvwalInitRestart \<and> num_existing = kNvwalMdsMaxPagefiles
             \<or> mode = kNvwalInitCreateIfNotExists \<and> num_existing = kNvwalMdsMaxPagefiles
          then and_then (for_each mds_bufmgr_map_nvram_buffer page_file_nos w) (\<lambda>_ w. Ok True w)
          else if mode = kNvwalInitCreateIfNotExists \<and> num_existing = 0
          then and_then (for_each (mds_bufmgr_create_nvram_buffer pm) page_file_nos w) (\<lambda>_ w. Ok False w)
          else Fail EIO w)"

definition mds_bufmgr_uninit :: "world \<Rightarrow> (unit, world) outcome" where
  "mds_bufmgr_uninit w =
     for_each (\<lambda>i w. elem_at (write_buffers w) (unat i) (\<lambda>buffer.
       and_then (lift_outcome set_os (unmap_nvram_buffer_file (bf_baseaddr buffer) (w_os w)) w)
         (\<lambda>_ w. Ok () (set_buffer (unat i) (\<lambda>b. b\<lparr>bf_baseaddr := None\<rparr>) w)))) page_file_nos w"

text \<open>The page a buffer holds.\<close>

definition mds_bufmgr_page :: "NvwalMdsBuffer \<Rightarrow> os \<Rightarrow> byte list" where
  "mds_bufmgr_page buffer s = (case bf_baseaddr buffer of None \<Rightarrow> [] | Some p \<Rightarrow> mapped p s)"

text \<open>
  The buffer of a page file is the one with the file's number. The result is that number; the
  source's \<open>*bufferp\<close> points to that buffer.
\<close>

definition mds_bufmgr_alloc_page :: "nat \<Rightarrow> u64 \<Rightarrow> world \<Rightarrow> (nat, world) outcome" where
  "mds_bufmgr_alloc_page file page_no w =
     elem_at (io_files (mds_io (wal_mds (w_wal w)))) file (\<lambda>pf.
       let i = unat (pf_file_no pf)
       in elem_at (write_buffers w) i (\<lambda>buffer.
         if page_no = kNvwalInvalidPage then Fail EINVAL w
         else
           let w = (if bf_page_no buffer = 0
                    then set_buffer i (\<lambda>b. b\<lparr>bf_file := Some (pf_file_no pf), bf_page_no := page_no\<rparr>) w
                    else w);
               cur = (if bf_page_no buffer = 0 then page_no else bf_page_no buffer)
           in if page_no = cur then Ok i (set_buffer i (\<lambda>b. b\<lparr>bf_dirty := True\<rparr>) w)
              else if page_no = cur + 1
              then (if \<not> bf_dirty buffer
                    then Ok i (set_buffer i (\<lambda>b. b\<lparr>bf_page_no := page_no, bf_dirty := True\<rparr>) w)
                    else Fail ENOBUFS w)
              else Abort))"

definition mds_bufmgr_read_page :: "pmem \<Rightarrow> nat \<Rightarrow> u64 \<Rightarrow> world \<Rightarrow> (nat, world) outcome" where
  "mds_bufmgr_read_page pm file page_no w =
     elem_at (io_files (mds_io (wal_mds (w_wal w)))) file (\<lambda>pf.
       let i = unat (pf_file_no pf);
           n = unat (max_epochs_per_page (w_wal w)) * epoch_metadata_size
       in elem_at (write_buffers w) i (\<lambda>buffer.
         checked (bf_baseaddr buffer) (\<lambda>p.
           and_then (lift_outcome set_os
                       (mds_io_pread (pf_fd pf) n (unat (page_no_to_file_offset (w_wal w) page_no)) (w_os w)) w)
             (\<lambda>bs w.
               Ok i (set_buffer i
                       (\<lambda>b. b\<lparr>bf_page_no := page_no, bf_file := Some (pf_file_no pf), bf_dirty := True\<rparr>)
                       (set_os (persist_mapped pm p 0 n (store_mapped p 0 bs (w_os w))) w))))))"

definition mds_bufmgr_writeback :: "world \<Rightarrow> (unit, world) outcome" where
  "mds_bufmgr_writeback w =
     for_each (\<lambda>i w. elem_at (write_buffers w) (unat i) (\<lambda>buffer.
       if bf_dirty buffer
       then checked (bf_file buffer) (\<lambda>file_no.
              elem_at (io_files (mds_io (wal_mds (w_wal w)))) (unat file_no) (\<lambda>pf.
                and_then (lift_outcome set_os
                            (mds_io_append_page (pf_fd pf)
                               (mem_read (mds_bufmgr_page buffer (w_os w)) 0
                                  (unat (cf_mds_page_size (wal_config (w_wal w))))) (w_os w)) w)
                  (\<lambda>_ w. Ok () (set_buffer (unat i) (\<lambda>b. b\<lparr>bf_dirty := False\<rparr>) w))))
       else Ok () w)) page_file_nos w"

end
