(* ===== verification/Mds.thy ===== *)
theory Mds
  imports Mds_Buf
begin

text \<open>
  The metadata store of \<^verbatim>\<open>src/nvwal_mds.c\<close>: a record per epoch, appended by the flusher when the
  epoch becomes durable and read by cursors and queries. Records live in the NVRAM buffer until
  their page is full and in the page file afterwards; the control block says up to which epoch they
  are valid.
\<close>

section \<open>Epochs of the control block\<close>

definition mds_durable_epoch :: "world \<Rightarrow> u64 option" where
  "mds_durable_epoch w =
     map_option (\<lambda>p. fp_durable_epoch (cb_flusher_progress (os_cblock (w_os w) p)))
       (wal_nv_control_block (w_wal w))"

definition mds_paged_epoch :: "world \<Rightarrow> u64 option" where
  "mds_paged_epoch w =
     map_option (\<lambda>p. fp_paged_mds_epoch (cb_flusher_progress (os_cblock (w_os w) p)))
       (wal_nv_control_block (w_wal w))"

definition mds_set_durable_epoch :: "pmem \<Rightarrow> u64 \<Rightarrow> world \<Rightarrow> (unit, world) outcome" where
  "mds_set_durable_epoch pm new_de w =
     with_cblock w (\<lambda>p cb. Ok () (set_os (store_durable_epoch pm p new_de (w_os w)) w))"

definition mds_update_durable_epoch :: "pmem \<Rightarrow> u64 \<Rightarrow> world \<Rightarrow> (unit, world) outcome" where
  "mds_update_durable_epoch pm new_de w =
     with_cblock w (\<lambda>p cb.
       c_assert (nvwal_is_epoch_equal_or_after new_de (fp_durable_epoch (cb_flusher_progress cb)))
         (Ok () (set_os (store_durable_epoch pm p new_de (w_os w)) w)))"

definition mds_set_paged_epoch :: "pmem \<Rightarrow> u64 \<Rightarrow> world \<Rightarrow> (unit, world) outcome" where
  "mds_set_paged_epoch pm new_mpe w =
     with_cblock w (\<lambda>p cb. Ok () (set_os (store_paged_epoch pm p new_mpe (w_os w)) w))"

definition mds_update_paged_epoch :: "pmem \<Rightarrow> u64 \<Rightarrow> world \<Rightarrow> (unit, world) outcome" where
  "mds_update_paged_epoch pm new_mpe w =
     with_cblock w (\<lambda>p cb.
       c_assert (nvwal_is_epoch_equal_or_after new_mpe (fp_paged_mds_epoch (cb_flusher_progress cb)))
         (Ok () (set_os (store_paged_epoch pm p new_mpe (w_os w)) w)))"

definition set_latest_epoch :: "u64 \<Rightarrow> world \<Rightarrow> world" where
  "set_latest_epoch e w =
     w\<lparr>w_wal := (w_wal w)\<lparr>wal_mds := (wal_mds (w_wal w))\<lparr>mds_latest_epoch_of := e\<rparr>\<rparr>\<rparr>"

definition mds_latest_epoch :: "world \<Rightarrow> u64" where
  "mds_latest_epoch w = mds_latest_epoch_of (wal_mds (w_wal w))"

section \<open>Writing\<close>

text \<open>
  The buffer for a page: when the buffer still holds the page before, that page is written back, the
  paged epoch is recorded, and the allocation is tried again.
\<close>

definition mds_get_buffer :: "pmem \<Rightarrow> nat \<Rightarrow> u64 \<Rightarrow> world \<Rightarrow> (nat, world) outcome" where
  "mds_get_buffer pm file page_no w =
     (case mds_bufmgr_alloc_page file page_no w of
        Fail ENOBUFS w \<Rightarrow>
          and_then (mds_bufmgr_writeback w) (\<lambda>_ w.
            checked (mds_durable_epoch w) (\<lambda>de.
              and_then (mds_update_paged_epoch pm de w) (\<lambda>_ w.
                mds_bufmgr_alloc_page file page_no w)))
      | r \<Rightarrow> r)"

definition mds_write_epoch :: "pmem \<Rightarrow> MdsEpochMetadata \<Rightarrow> world \<Rightarrow> (unit, world) outcome" where
  "mds_write_epoch pm epoch_metadata w =
     (let epoch_id = em_epoch_id epoch_metadata;
          file_no = epoch_id_to_file_no (w_wal w) epoch_id;
          page_no = epoch_id_to_page_no (w_wal w) epoch_id
      in checked (mds_io_file file_no) (\<lambda>file.
        and_then (mds_get_buffer pm file page_no w)
          (\<lambda>i w. elem_at (write_buffers w) i (\<lambda>buffer. checked (bf_baseaddr buffer) (\<lambda>p.
             let epoch_off = unat (epoch_id_to_page_offset (w_wal w) epoch_id);
                 s = pmem_store_persist pm p (epoch_off * epoch_metadata_size)
                       (encode_epoch epoch_metadata) (w_os w);
                 w = set_latest_epoch (mds_latest_epoch w + 1) (set_os s w)
             in mds_update_durable_epoch pm epoch_id w)))))"

definition mds_writeback :: "world \<Rightarrow> (unit, world) outcome" where
  "mds_writeback w = mds_bufmgr_writeback w"

definition mds_rollback_to_epoch :: "pmem \<Rightarrow> u64 \<Rightarrow> world \<Rightarrow> (unit, world) outcome" where
  "mds_rollback_to_epoch pm epoch w =
     and_then (mds_set_durable_epoch pm epoch w) (\<lambda>_ w.
     checked (mds_paged_epoch w) (\<lambda>paged.
     and_then
       (if epoch < paged
        then let file_no = epoch_id_to_file_no (w_wal w) epoch;
                 page_no = epoch_id_to_page_no (w_wal w) epoch
             in checked (mds_io_file file_no) (\<lambda>file.
               and_then (mds_bufmgr_read_page pm file page_no w) (\<lambda>_ w.
                 let new_latest_paged_page = page_no - 1
                 in elem_at (io_files (mds_io (wal_mds (w_wal w)))) file (\<lambda>pf.
                   and_then (lift_outcome set_os
                               (mds_io_truncate_file (w_wal w) (pf_fd pf) new_latest_paged_page (w_os w)) w)
                     (\<lambda>_ w. mds_set_paged_epoch pm
                              (max_epochs_per_page (w_wal w) * new_latest_paged_page) w))))
        else Ok () w)
       (\<lambda>_ w. Ok () (if epoch < mds_latest_epoch w then set_latest_epoch epoch w else w))))"

section \<open>Recovery, start and stop\<close>

text \<open>A call whose error return the caller does not look at.\<close>

fun ignore_error :: "('a, 's) outcome \<Rightarrow> (unit, 's) outcome" where
  "ignore_error (Ok a s) = Ok () s"
| "ignore_error (Fail e s) = Ok () s"
| "ignore_error Abort = Abort"
| "ignore_error (Spin s) = Spin s"

definition mds_recover :: "pmem \<Rightarrow> world \<Rightarrow> (unit, world) outcome" where
  "mds_recover pm w =
     for_each (\<lambda>i w.
       checked (mds_io_file i) (\<lambda>file.
       checked (mds_durable_epoch w) (\<lambda>latest_epoch.
       checked (mds_paged_epoch w) (\<lambda>latest_paged_epoch.
         and_then
           (if latest_epoch < latest_paged_epoch
            then ignore_error (mds_rollback_to_epoch pm latest_epoch w)
            else let latest_epoch_page = epoch_id_to_page_no (w_wal w) latest_epoch
                 in if latest_epoch_page \<noteq> kNvwalInvalidPage
                    then ignore_error (mds_bufmgr_alloc_page file latest_epoch_page w)
                    else Ok () w)
           (\<lambda>_ w. Ok () (if latest_epoch > mds_latest_epoch w
                         then set_latest_epoch latest_epoch w else w)))))) page_file_nos w"

definition mds_sanity_check_config :: "world \<Rightarrow> (unit, world) outcome" where
  "mds_sanity_check_config w =
     (let page_size = cf_mds_page_size (wal_config (w_wal w))
      in if page_size mod 512 \<noteq> 0 then nvwal_raise_einval w
         else if page_size = 0
         then Ok () (w\<lparr>w_wal := (w_wal w)\<lparr>wal_config :=
                        (wal_config (w_wal w))\<lparr>cf_mds_page_size := kNvwalMdsPageSize\<rparr>\<rparr>\<rparr>)
         else Ok () w)"

definition mds_init :: "pmem \<Rightarrow> NvwalInitMode \<Rightarrow> world \<Rightarrow> (unit, world) outcome" where
  "mds_init pm mode w =
     and_then (mds_sanity_check_config w) (\<lambda>_ w.
       let w = w\<lparr>w_wal := (w_wal w)\<lparr>wal_mds := zero_mds\<rparr>\<rparr>;
           mode = (if mode = kNvwalInitCreateTruncate then kNvwalInitCreateIfNotExists else mode)
       in and_then (mds_io_init mode w) (\<lambda>io_did_restart w.
            case and_then (mds_bufmgr_init pm mode w) (\<lambda>bufmgr_did_restart w.
                   if io_did_restart \<and> bufmgr_did_restart then mds_recover pm w else Ok () w) of
              Fail e w \<Rightarrow>
                (case mds_io_uninit w of Ok _ w \<Rightarrow> Fail e w | Fail _ _ \<Rightarrow> Abort | r \<Rightarrow> r)
            | r \<Rightarrow> r))"

definition mds_uninit :: "world \<Rightarrow> (unit, world) outcome" where
  "mds_uninit w = and_then (mds_bufmgr_uninit w) (\<lambda>_ w. mds_io_uninit w)"

section \<open>Reading\<close>

definition zero_epoch :: MdsEpochMetadata where
  "zero_epoch = \<lparr>em_epoch_id = 0, em_from_seg_id = 0, em_from_offset = 0, em_to_seg_id = 0,
     em_to_off = 0, em_user_metadata_0 = 0, em_user_metadata_1 = 0\<rparr>"

text \<open>The entries in a sequence of images, and an array whose first elements are replaced.\<close>

definition decode_epochs :: "byte list \<Rightarrow> nat \<Rightarrow> MdsEpochMetadata list" where
  "decode_epochs bs n =
     map (\<lambda>i. decode_epoch (mem_read bs (i * epoch_metadata_size) epoch_metadata_size)) [0..<n]"

definition overwrite :: "'a list \<Rightarrow> 'a list \<Rightarrow> 'a list" where
  "overwrite xs ys = ys @ drop (length ys) xs"

definition mds_epoch_iterator_prefetch :: "MdsEpochIterator \<Rightarrow> world \<Rightarrow> (MdsEpochIterator, world) outcome" where
  "mds_epoch_iterator_prefetch it w =
     (let wal = w_wal w;
          cur = it_cur_epoch_id it;
          file_no = epoch_id_to_file_no wal cur;
          page_no = epoch_id_to_page_no wal cur;
          buf = it_buffer it;
          es = ib_epoch_metadata buf
      in checked (mds_io_file file_no) (\<lambda>file.
         elem_at (io_files (mds_io (wal_mds wal))) file (\<lambda>pf.
         elem_at (write_buffers w) (unat (pf_file_no pf)) (\<lambda>nvbuf.
           if bf_page_no nvbuf = page_no \<and> bf_page_no nvbuf \<noteq> kNvwalInvalidPage
           then let epoch_off = unat (epoch_id_to_page_offset wal cur);
                    em = decode_epoch (mem_read (mds_bufmgr_page nvbuf (w_os w))
                           (epoch_off * epoch_metadata_size) epoch_metadata_size)
                in Ok (it\<lparr>it_buffer := \<lparr>ib_epoch_metadata = overwrite es [em], ib_num_entries = 1\<rparr>,
                          it_epoch_metadata := 0\<rparr>) w
           else if ib_num_entries buf > 0
                   \<and> cur \<ge> em_epoch_id (es ! 0) \<and> cur \<le> em_epoch_id (es ! (ib_num_entries buf - 1))
           then Ok (it\<lparr>it_epoch_metadata := unat (cur - em_epoch_id (es ! 0))\<rparr>) w
           else let max_prefetchable_epoch_id = page_no * max_epochs_per_page wal;
                    upper = min (min (cur + of_nat kNvwalMdsReadPrefetch - 1) (it_end_epoch_id it))
                              max_prefetchable_epoch_id;
                    num_entries = unat (upper - cur + 1)
                in (case mds_io_pread (pf_fd pf) (num_entries * epoch_metadata_size)
                           (unat (epoch_id_to_file_offset cur)) (w_os w) of
                      Ok bs s \<Rightarrow>
                        Ok (it\<lparr>it_buffer := \<lparr>ib_epoch_metadata = overwrite es (decode_epochs bs num_entries),
                                            ib_num_entries = num_entries\<rparr>,
                               it_epoch_metadata := 0\<rparr>) (set_os s w)
                    | Fail e s \<Rightarrow> Abort
                    | Abort \<Rightarrow> Abort
                    | Spin s \<Rightarrow> Spin (set_os s w))))))"

definition mds_epoch_iterator_init :: "u64 \<Rightarrow> u64 \<Rightarrow> world \<Rightarrow> (MdsEpochIterator, world) outcome" where
  "mds_epoch_iterator_init begin_epoch_id end_epoch_id w =
     (if end_epoch_id < begin_epoch_id then Fail EINVAL w
      else mds_epoch_iterator_prefetch
             \<lparr>it_cur_epoch_id = begin_epoch_id, it_begin_epoch_id = begin_epoch_id,
              it_end_epoch_id = end_epoch_id,
              it_buffer = \<lparr>ib_epoch_metadata = replicate kNvwalMdsReadPrefetch zero_epoch,
                           ib_num_entries = 0\<rparr>,
              it_epoch_metadata = 0\<rparr> w)"

definition mds_epoch_iterator_next :: "MdsEpochIterator \<Rightarrow> world \<Rightarrow> (MdsEpochIterator, world) outcome" where
  "mds_epoch_iterator_next it w =
     (let it = it\<lparr>it_cur_epoch_id := it_cur_epoch_id it + 1\<rparr>
      in if it_cur_epoch_id it < it_end_epoch_id it then mds_epoch_iterator_prefetch it w
         else Ok it w)"

definition mds_epoch_iterator_done :: "MdsEpochIterator \<Rightarrow> bool" where
  "mds_epoch_iterator_done it \<longleftrightarrow> it_cur_epoch_id it \<ge> it_end_epoch_id it"

definition mds_epoch_iterator_destroy :: MdsEpochIterator where
  "mds_epoch_iterator_destroy =
     \<lparr>it_cur_epoch_id = 0, it_begin_epoch_id = 0, it_end_epoch_id = 0,
      it_buffer = \<lparr>ib_epoch_metadata = replicate kNvwalMdsReadPrefetch zero_epoch, ib_num_entries = 0\<rparr>,
      it_epoch_metadata = 0\<rparr>"

text \<open>The entry the iterator points at.\<close>

definition it_entry :: "MdsEpochIterator \<Rightarrow> MdsEpochMetadata" where
  "it_entry it = ib_epoch_metadata (it_buffer it) ! it_epoch_metadata it"

definition mds_read_one_epoch :: "u64 \<Rightarrow> world \<Rightarrow> (MdsEpochMetadata, world) outcome" where
  "mds_read_one_epoch epoch_id w =
     c_assert (epoch_id \<noteq> kNvwalInvalidEpoch)
       (and_then (mds_epoch_iterator_init epoch_id (epoch_id + 1) w) (\<lambda>it w.
          c_assert (\<not> mds_epoch_iterator_done it)
            (c_assert (em_epoch_id (it_entry it) = epoch_id) (Ok (it_entry it) w))))"

definition mds_read_latest_epoch :: "world \<Rightarrow> (MdsEpochMetadata, world) outcome" where
  "mds_read_latest_epoch w = mds_read_one_epoch (mds_latest_epoch w) w"

section \<open>Searching\<close>

definition user_metadata :: "MdsEpochMetadata \<Rightarrow> int \<Rightarrow> u64" where
  "user_metadata em user_metadata_id =
     (if user_metadata_id = 0 then em_user_metadata_0 em
      else if user_metadata_id = 1 then em_user_metadata_1 em
      else em_user_metadata_0 em)"

text \<open>
  The two binary searches. The predicate is the client's function on the searched metadata word. A
  loop reads records with \<open>rd\<close>, which the searches instantiate with \<open>mds_read_one_epoch\<close>, and is
  given fuel for each round; the searches start it with more than the width of the interval.
\<close>

fun lower_bound_loop :: "(u64 \<Rightarrow> 'w \<Rightarrow> (MdsEpochMetadata, 'w) outcome) \<Rightarrow> nat \<Rightarrow> int \<Rightarrow> (u64 \<Rightarrow> bool) \<Rightarrow>
    u64 \<Rightarrow> u64 \<Rightarrow> MdsEpochMetadata option \<Rightarrow> 'w \<Rightarrow> (MdsEpochMetadata, 'w) outcome" where
  "lower_bound_loop rd 0 uid pred low high out w = Spin w"
| "lower_bound_loop rd (Suc fuel) uid pred low high out w =
     (if low \<le> high
      then let md = (low + high) div 2
           in and_then (rd md w) (\<lambda>em w.
                if pred (user_metadata em uid)
                then lower_bound_loop rd fuel uid pred low (md - 1) (Some em) w
                else lower_bound_loop rd fuel uid pred (md + 1) high out w)
      else (case out of Some em \<Rightarrow> Ok em w | None \<Rightarrow> Fail EPERM w))"

definition mds_find_metadata_lower_bound ::
  "int \<Rightarrow> (u64 \<Rightarrow> bool) \<Rightarrow> world \<Rightarrow> (MdsEpochMetadata, world) outcome" where
  "mds_find_metadata_lower_bound user_metadata_id pred w =
     (let le = mds_latest_epoch w
      in lower_bound_loop mds_read_one_epoch (unat le + 1) user_metadata_id pred (kNvwalInvalidEpoch + 1) le None w)"

fun upper_bound_loop :: "(u64 \<Rightarrow> 'w \<Rightarrow> (MdsEpochMetadata, 'w) outcome) \<Rightarrow> nat \<Rightarrow> int \<Rightarrow> (u64 \<Rightarrow> bool) \<Rightarrow>
    u64 \<Rightarrow> u64 \<Rightarrow> MdsEpochMetadata option \<Rightarrow> 'w \<Rightarrow> (MdsEpochMetadata, 'w) outcome" where
  "upper_bound_loop rd 0 uid pred low high out w = Spin w"
| "upper_bound_loop rd (Suc fuel) uid pred low high out w =
     (if low \<le> high
      then let md = (low + high) div 2
           in and_then (rd md w) (\<lambda>em w.
                if pred (user_metadata em uid)
                then upper_bound_loop rd fuel uid pred (md + 1) high (Some em) w
                else upper_bound_loop rd fuel uid pred low (md - 1) out w)
      else (case out of Some em \<Rightarrow> Ok em w | None \<Rightarrow> Fail EPERM w))"

definition mds_find_metadata_upper_bound ::
  "int \<Rightarrow> (u64 \<Rightarrow> bool) \<Rightarrow> world \<Rightarrow> (MdsEpochMetadata, world) outcome" where
  "mds_find_metadata_upper_bound user_metadata_id pred w =
     (let le = mds_latest_epoch w
      in upper_bound_loop mds_read_one_epoch (unat le + 1) user_metadata_id pred (kNvwalInvalidEpoch + 1) le None w)"

section \<open>The queries of the API\<close>

definition nvwal_query_epoch_lower_bound :: "int \<Rightarrow> (u64 \<Rightarrow> bool) \<Rightarrow> world \<Rightarrow> (u64, world) outcome" where
  "nvwal_query_epoch_lower_bound user_metadata_id pred w =
     (case mds_find_metadata_lower_bound user_metadata_id pred w of
        Ok em w \<Rightarrow> Ok (em_epoch_id em) w
      | Fail e w \<Rightarrow> Ok kNvwalInvalidEpoch w
      | Abort \<Rightarrow> Abort | Spin w \<Rightarrow> Spin w)"

definition nvwal_query_epoch_upper_bound :: "int \<Rightarrow> (u64 \<Rightarrow> bool) \<Rightarrow> world \<Rightarrow> (u64, world) outcome" where
  "nvwal_query_epoch_upper_bound user_metadata_id pred w =
     (case mds_find_metadata_upper_bound user_metadata_id pred w of
        Ok em w \<Rightarrow> Ok (em_epoch_id em) w
      | Fail e w \<Rightarrow> Ok kNvwalInvalidEpoch w
      | Abort \<Rightarrow> Abort | Spin w \<Rightarrow> Spin w)"

definition nvwal_epoch_metadata :: "u64 \<Rightarrow> world \<Rightarrow> (u64 \<times> u64, world) outcome" where
  "nvwal_epoch_metadata epoch w =
     and_then (mds_read_one_epoch epoch w)
       (\<lambda>em w. Ok (em_user_metadata_0 em, em_user_metadata_1 em) w)"

end
