(* ===== verification/Pin.thy ===== *)
theory Pin
  imports Types
begin

text \<open>
  The pin of a segment, \<^verbatim>\<open>src/nvwal_impl_pin.c\<close>: a 32-bit signed counter that readers increment to
  keep the flusher from recycling the segment and that the flusher sets to \<open>-1\<close> while it recycles.
  The functions are modelled on the counter; \<open>pin_step\<close> is the protocol of any number of readers
  and one flusher, one step for each access to the shared counter.
\<close>

section \<open>Functions\<close>

definition kNvwalPinExclusive :: u32 where [simp]: "kNvwalPinExclusive = - 1"

text \<open>\<open>nvwal_atomic_compare_exchange_strong\<close>: whether it swapped, and the new value.\<close>

definition atomic_compare_exchange :: "'a \<Rightarrow> 'a \<Rightarrow> 'a \<Rightarrow> bool \<times> 'a" where
  "atomic_compare_exchange cur expected desired =
     (if cur = expected then (True, desired) else (False, cur))"

text \<open>
  The reader loads the counter and then tries to swap it; between the two another thread may have
  changed it, so the loaded value is an argument of its own.
\<close>

definition nvwal_pin_read_try_lock :: "u32 \<Rightarrow> u32 \<Rightarrow> (bool, u32) outcome" where
  "nvwal_pin_read_try_lock cur_value pin_count =
     (if sint cur_value < 0 then c_assert (cur_value = kNvwalPinExclusive) (Ok False pin_count)
      else let (swapped, v) = atomic_compare_exchange pin_count cur_value (cur_value + 1)
           in Ok swapped v)"

definition nvwal_pin_read_unconditional_lock :: "u32 \<Rightarrow> (unit, u32) outcome" where
  "nvwal_pin_read_unconditional_lock pin_count =
     and_then (nvwal_pin_read_try_lock pin_count pin_count)
       (\<lambda>locked v. if locked then Ok () v else Spin v)"

definition nvwal_pin_read_unlock :: "u32 \<Rightarrow> (unit, u32) outcome" where
  "nvwal_pin_read_unlock pin_count = c_assert (sint pin_count > 0) (Ok () (pin_count - 1))"

definition nvwal_pin_flusher_try_lock :: "u32 \<Rightarrow> bool \<times> u32" where
  "nvwal_pin_flusher_try_lock pin_count = atomic_compare_exchange pin_count 0 kNvwalPinExclusive"

definition nvwal_pin_flusher_unconditional_lock :: "u32 \<Rightarrow> (unit, u32) outcome" where
  "nvwal_pin_flusher_unconditional_lock pin_count =
     (case nvwal_pin_flusher_try_lock pin_count of (True, v) \<Rightarrow> Ok () v | (False, v) \<Rightarrow> Spin v)"

definition nvwal_pin_flusher_unlock :: "u32 \<Rightarrow> (unit, u32) outcome" where
  "nvwal_pin_flusher_unlock pin_count = c_assert (pin_count = kNvwalPinExclusive) (Ok () 0)"

section \<open>The protocol\<close>

datatype reader_pc = RIdle | RLoaded u32 | RHolding

record pin_sys =
  ps_pin :: u32
  ps_reader :: "nat \<Rightarrow> reader_pc"
  ps_flusher_holds :: bool

definition pin_init :: pin_sys where
  "pin_init = \<lparr>ps_pin = 0, ps_reader = (\<lambda>_. RIdle), ps_flusher_holds = False\<rparr>"

text \<open>
  One step of reader \<open>i < n\<close> or of the flusher. A reader between its calls (\<open>RIdle\<close>) loads the
  counter; with the loaded value it finishes \<open>nvwal_pin_read_try_lock\<close>, holding the pin if that
  returned 1 and going back to retry if not; a reader that holds a pin unlocks it. The flusher
  tries to lock, and unlocks what it locked.
\<close>

inductive pin_step :: "nat \<Rightarrow> pin_sys \<Rightarrow> pin_sys \<Rightarrow> bool" for n where
  read_load: "i < n \<Longrightarrow> ps_reader s i = RIdle \<Longrightarrow>
     pin_step n s (s\<lparr>ps_reader := (ps_reader s)(i := RLoaded (ps_pin s))\<rparr>)"
| read_swap: "i < n \<Longrightarrow> ps_reader s i = RLoaded v \<Longrightarrow>
     nvwal_pin_read_try_lock v (ps_pin s) = Ok locked p \<Longrightarrow>
     pin_step n s (s\<lparr>ps_pin := p, ps_reader := (ps_reader s)(i := (if locked then RHolding else RIdle))\<rparr>)"
| read_unlock: "i < n \<Longrightarrow> ps_reader s i = RHolding \<Longrightarrow>
     nvwal_pin_read_unlock (ps_pin s) = Ok () p \<Longrightarrow>
     pin_step n s (s\<lparr>ps_pin := p, ps_reader := (ps_reader s)(i := RIdle)\<rparr>)"
| flusher_lock: "\<not> ps_flusher_holds s \<Longrightarrow>
     nvwal_pin_flusher_try_lock (ps_pin s) = (locked, p) \<Longrightarrow>
     pin_step n s (s\<lparr>ps_pin := p, ps_flusher_holds := locked\<rparr>)"
| flusher_unlock: "ps_flusher_holds s \<Longrightarrow>
     nvwal_pin_flusher_unlock (ps_pin s) = Ok () p \<Longrightarrow>
     pin_step n s (s\<lparr>ps_pin := p, ps_flusher_holds := False\<rparr>)"

inductive pin_reachable :: "nat \<Rightarrow> pin_sys \<Rightarrow> bool" for n where
  init: "pin_reachable n pin_init"
| step: "pin_reachable n s \<Longrightarrow> pin_step n s t \<Longrightarrow> pin_reachable n t"

text \<open>
  No step is stuck on an assertion: what each participant does next in a state does not abort.
\<close>

definition pin_no_abort :: "nat \<Rightarrow> pin_sys \<Rightarrow> bool" where
  "pin_no_abort n s \<longleftrightarrow>
     (\<forall>i < n. case ps_reader s i of
        RIdle \<Rightarrow> True
      | RLoaded v \<Rightarrow> nvwal_pin_read_try_lock v (ps_pin s) \<noteq> Abort
      | RHolding \<Rightarrow> nvwal_pin_read_unlock (ps_pin s) \<noteq> Abort) \<and>
     (ps_flusher_holds s \<longrightarrow> nvwal_pin_flusher_unlock (ps_pin s) \<noteq> Abort)"

section \<open>The contract of a pin\<close>

text \<open>
  What the flusher and the cursors rely on, stated once: \<open>pins\<close> is the number of readers that hold
  the pin, \<open>None\<close> while the flusher recycles the segment.
\<close>

locale segment_pin =
  fixes pins :: "'p \<Rightarrow> nat option"
    and read_lock :: "'p \<Rightarrow> (unit, 'p) outcome"
    and read_unlock :: "'p \<Rightarrow> (unit, 'p) outcome"
    and excl_lock :: "'p \<Rightarrow> (unit, 'p) outcome"
    and excl_unlock :: "'p \<Rightarrow> (unit, 'p) outcome"
    and max_pins :: nat
  assumes read_lock_shared: "pins p = Some k \<Longrightarrow> k < max_pins \<Longrightarrow>
            \<exists>p'. read_lock p = Ok () p' \<and> pins p' = Some (Suc k)"
    and read_lock_excl: "pins p = None \<Longrightarrow> read_lock p = Spin p"
    and read_unlock_shared: "pins p = Some (Suc k) \<Longrightarrow> Suc k \<le> max_pins \<Longrightarrow>
            \<exists>p'. read_unlock p = Ok () p' \<and> pins p' = Some k"
    and excl_lock_free: "pins p = Some 0 \<Longrightarrow> \<exists>p'. excl_lock p = Ok () p' \<and> pins p' = None"
    and excl_lock_busy: "pins p \<noteq> Some 0 \<Longrightarrow> excl_lock p = Spin p"
    and excl_unlock_excl: "pins p = None \<Longrightarrow> \<exists>p'. excl_unlock p = Ok () p' \<and> pins p' = Some 0"
begin

text \<open>The flusher gets the segment only when no reader holds it, and leaves it free of pins.\<close>

lemma excl_lock_iff: "(\<exists>p'. excl_lock p = Ok () p') \<longleftrightarrow> pins p = Some 0"
  using excl_lock_free excl_lock_busy by fastforce

lemma excl_roundtrip:
  assumes "pins p = Some 0"
  shows "\<exists>p'. and_then (excl_lock p) (\<lambda>_ q. excl_unlock q) = Ok () p' \<and> pins p' = Some 0"
proof -
  from excl_lock_free [OF assms] obtain q where q: "excl_lock p = Ok () q" "pins q = None" by blast
  from excl_unlock_excl [OF q(2)] q(1) show ?thesis by auto
qed

text \<open>A reader that locks and unlocks leaves the number of pins as it was.\<close>

lemma read_roundtrip:
  assumes "pins p = Some k" "k < max_pins"
  shows "\<exists>p'. and_then (read_lock p) (\<lambda>_ q. read_unlock q) = Ok () p' \<and> pins p' = Some k"
proof -
  from read_lock_shared [OF assms] obtain q where q: "read_lock p = Ok () q" "pins q = Some (Suc k)"
    by blast
  from read_unlock_shared [OF q(2)] assms(2) q(1) show ?thesis by auto
qed

text \<open>While a reader holds the pin the flusher waits.\<close>

lemma pinned_blocks_flusher:
  assumes "pins p = Some k" "k < max_pins" "read_lock p = Ok () p'"
  shows "excl_lock p' = Spin p'"
proof (rule excl_lock_busy)
  from read_lock_shared [OF assms(1,2)] assms(3) show "pins p' \<noteq> Some 0" by auto
qed

end

section \<open>The counter meets the contract\<close>

definition pin_pins :: "u32 \<Rightarrow> nat option" where
  "pin_pins p = (if p = - 1 then None else Some (unat p))"

lemma pin_read_try_lock_shared:
  assumes "unat p < 2147483648"
  shows "nvwal_pin_read_try_lock p p = Ok True (p + 1)" "unat (p + 1) = Suc (unat p)"
    "p \<noteq> - 1" "p + 1 \<noteq> - 1"
proof -
  show np: "p \<noteq> - 1" using assms by (auto simp: unat_minus_1_u32)
  then show s: "unat (p + 1) = Suc (unat p)" by (rule unat_suc_u32)
  show "p + 1 \<noteq> - 1"
  proof
    assume "p + 1 = - 1"
    then have "unat (p + 1) = 4294967295" by (simp only: unat_minus_1_u32)
    with s assms show False by linarith
  qed
  show "nvwal_pin_read_try_lock p p = Ok True (p + 1)"
    using assms by (simp add: nvwal_pin_read_try_lock_def atomic_compare_exchange_def sint_u32_alt)
qed

lemma pin_pins_Some: "pin_pins p = Some k \<longleftrightarrow> p \<noteq> - 1 \<and> unat p = k"
  by (simp add: pin_pins_def)

lemma pin_pins_None: "pin_pins p = None \<longleftrightarrow> p = - 1"
  by (simp add: pin_pins_def)

text \<open>
  The functions on the counter satisfy the contract for up to \<open>2^31 - 1\<close> readers.
\<close>

interpretation counter: segment_pin pin_pins nvwal_pin_read_unconditional_lock
  nvwal_pin_read_unlock nvwal_pin_flusher_unconditional_lock nvwal_pin_flusher_unlock 2147483647
proof
  fix p :: u32 and k
  show "\<exists>p'. nvwal_pin_read_unconditional_lock p = Ok () p' \<and> pin_pins p' = Some (Suc k)"
    if "pin_pins p = Some k" "k < 2147483647"
    using that pin_read_try_lock_shared [of p]
    by (auto simp: nvwal_pin_read_unconditional_lock_def pin_pins_Some)
  show "nvwal_pin_read_unconditional_lock p = Spin p" if "pin_pins p = None"
    using that by (simp add: nvwal_pin_read_unconditional_lock_def nvwal_pin_read_try_lock_def
        pin_pins_None)
  show "\<exists>p'. nvwal_pin_read_unlock p = Ok () p' \<and> pin_pins p' = Some k"
    if k: "pin_pins p = Some (Suc k)" "Suc k \<le> 2147483647"
  proof -
    have "p \<noteq> 0" using k by (auto simp: pin_pins_Some)
    then have u: "unat (p - 1) = k" using k by (simp add: pin_pins_Some unat_minus_one)
    then have "p - 1 \<noteq> - 1" using k by (auto simp: unat_minus_1_u32)
    moreover have "0 < sint p" using k by (simp add: sint_u32_alt pin_pins_Some)
    ultimately show ?thesis using u by (simp add: nvwal_pin_read_unlock_def pin_pins_Some)
  qed
  show "\<exists>p'. nvwal_pin_flusher_unconditional_lock p = Ok () p' \<and> pin_pins p' = None"
    if "pin_pins p = Some 0"
    using that by (simp add: nvwal_pin_flusher_unconditional_lock_def nvwal_pin_flusher_try_lock_def
        atomic_compare_exchange_def pin_pins_Some pin_pins_None unsigned_eq_0_iff)
  show "nvwal_pin_flusher_unconditional_lock p = Spin p" if "pin_pins p \<noteq> Some 0"
    using that by (auto simp: nvwal_pin_flusher_unconditional_lock_def
        nvwal_pin_flusher_try_lock_def atomic_compare_exchange_def pin_pins_Some)
  show "\<exists>p'. nvwal_pin_flusher_unlock p = Ok () p' \<and> pin_pins p' = Some 0" if "pin_pins p = None"
    using that by (simp add: nvwal_pin_flusher_unlock_def pin_pins_None pin_pins_Some)
qed

section \<open>Safety of the protocol\<close>

definition holders :: "pin_sys \<Rightarrow> nat set" where
  "holders s = {i. ps_reader s i = RHolding}"

text \<open>
  The invariant: while the flusher holds the pin the counter is \<open>-1\<close> and nobody else holds it;
  otherwise the counter is the number of holding readers. A loaded value is \<open>-1\<close> or was such a
  number.
\<close>

definition pin_inv :: "nat \<Rightarrow> pin_sys \<Rightarrow> bool" where
  "pin_inv n s \<longleftrightarrow>
     holders s \<subseteq> {..<n} \<and>
     (if ps_flusher_holds s then ps_pin s = - 1 \<and> holders s = {}
      else unat (ps_pin s) = card (holders s)) \<and>
     (\<forall>i v. ps_reader s i = RLoaded v \<longrightarrow> v = - 1 \<or> unat v \<le> n)"

lemma pin_inv_holders_le: "pin_inv n s \<Longrightarrow> card (holders s) \<le> n"
  using card_mono [of "{..<n}" "holders s"] by (simp add: pin_inv_def)

lemma pin_inv_finite: "pin_inv n s \<Longrightarrow> finite (holders s)"
  using finite_subset [of "holders s" "{..<n}"] by (simp add: pin_inv_def)

lemma pin_inv_value: "pin_inv n s \<Longrightarrow> ps_pin s = - 1 \<or> unat (ps_pin s) \<le> n"
  using pin_inv_holders_le [of n s] by (auto simp: pin_inv_def split: if_splits)

lemma pin_inv_init: "pin_inv n pin_init"
  by (simp add: pin_inv_def pin_init_def holders_def)

lemma holders_update [simp]:
  "holders (s\<lparr>ps_pin := p, ps_reader := (ps_reader s)(i := c)\<rparr>)
     = (if c = RHolding then insert i (holders s) else holders s - {i})"
  "holders (s\<lparr>ps_reader := (ps_reader s)(i := c)\<rparr>)
     = (if c = RHolding then insert i (holders s) else holders s - {i})"
  "holders (s\<lparr>ps_pin := p, ps_flusher_holds := b\<rparr>) = holders s"
  by (auto simp: holders_def)

lemma not_holding: "ps_reader s i \<noteq> RHolding \<Longrightarrow> holders s - {i} = holders s"
  by (auto simp: holders_def)

lemma read_try_lock_Ok:
  assumes "nvwal_pin_read_try_lock v p = Ok locked q"
  shows "if locked then v = p \<and> sint v \<ge> 0 \<and> q = p + 1 else q = p"
  using assms by (auto simp: nvwal_pin_read_try_lock_def atomic_compare_exchange_def c_assert_def
      split: if_splits)

lemma pin_inv_swap_success:
  assumes inv: "pin_inv n s" and n: "n < 2147483648"
    and i: "i < n" "ps_reader s i = RLoaded v" and v: "sint (ps_pin s) \<ge> 0"
  shows "pin_inv n (s\<lparr>ps_pin := ps_pin s + 1, ps_reader := (ps_reader s)(i := RHolding)\<rparr>)"
proof -
  have np: "ps_pin s \<noteq> - 1" using v by auto
  then have nf: "\<not> ps_flusher_holds s" using inv by (auto simp: pin_inv_def)
  have "i \<notin> holders s" using i by (simp add: holders_def)
  then have "card (insert i (holders s)) = Suc (card (holders s))"
    using pin_inv_finite [OF inv] by simp
  with np nf inv i show ?thesis by (auto simp: pin_inv_def unat_suc_u32)
qed

lemma pin_inv_unlock:
  assumes inv: "pin_inv n s" and i: "ps_reader s i = RHolding"
  shows "pin_inv n (s\<lparr>ps_pin := ps_pin s - 1, ps_reader := (ps_reader s)(i := RIdle)\<rparr>)"
proof -
  have mem: "i \<in> holders s" using i by (simp add: holders_def)
  then have nf: "\<not> ps_flusher_holds s" using inv by (auto simp: pin_inv_def)
  have "card (holders s) \<noteq> 0" using mem pin_inv_finite [OF inv] by auto
  then have "ps_pin s \<noteq> 0" using inv nf by (auto simp: pin_inv_def)
  then have "unat (ps_pin s - 1) = card (holders s - {i})"
    using inv nf mem by (simp add: pin_inv_def unat_minus_one card_Diff_singleton)
  with nf inv show ?thesis by (auto simp: pin_inv_def)
qed

lemma pin_inv_step:
  assumes "pin_step n s t" "pin_inv n s" "n < 2147483648"
  shows "pin_inv n t"
  using assms(1)
proof cases
  case (read_load i)
  then show ?thesis using assms(2) pin_inv_value [OF assms(2)] not_holding [of s i]
    by (auto simp: pin_inv_def)
next
  case (read_swap i v locked p)
  show ?thesis
  proof (cases locked)
    case True
    with read_try_lock_Ok [OF read_swap(4)]
    have "v = ps_pin s" "0 \<le> sint (ps_pin s)" "p = ps_pin s + 1" by auto
    with True read_swap assms pin_inv_swap_success [of n s i v] show ?thesis by simp
  next
    case False
    with read_try_lock_Ok [OF read_swap(4)] read_swap assms(2) not_holding [of s i]
    show ?thesis by (auto simp: pin_inv_def)
  qed
next
  case (read_unlock i p)
  then show ?thesis using pin_inv_unlock [OF assms(2), of i]
    by (auto simp: nvwal_pin_read_unlock_def c_assert_def split: if_splits)
next
  case (flusher_lock locked p)
  then show ?thesis using assms(2) pin_inv_finite [OF assms(2)]
    by (auto simp: pin_inv_def nvwal_pin_flusher_try_lock_def atomic_compare_exchange_def
        split: if_splits)
next
  case (flusher_unlock p)
  then show ?thesis using assms(2)
    by (auto simp: pin_inv_def nvwal_pin_flusher_unlock_def c_assert_def split: if_splits)
qed

lemma pin_inv_reachable: "pin_reachable n s \<Longrightarrow> n < 2147483648 \<Longrightarrow> pin_inv n s"
  by (induction rule: pin_reachable.induct) (auto intro: pin_inv_init pin_inv_step)

lemma pin_inv_no_abort:
  assumes inv: "pin_inv n s" and n: "n < 2147483648"
  shows "pin_no_abort n s"
proof -
  have "nvwal_pin_read_try_lock v (ps_pin s) \<noteq> Abort" if "ps_reader s i = RLoaded v" for i v
  proof -
    from inv that have "v = - 1 \<or> unat v < 2147483648" using n by (fastforce simp: pin_inv_def)
    then show ?thesis
      by (auto simp: nvwal_pin_read_try_lock_def sint_u32_alt split: prod.splits)
  qed
  moreover have "nvwal_pin_read_unlock (ps_pin s) \<noteq> Abort" if "ps_reader s i = RHolding" for i
  proof -
    have mem: "i \<in> holders s" using that by (simp add: holders_def)
    then have "\<not> ps_flusher_holds s" using inv by (auto simp: pin_inv_def)
    moreover have "0 < card (holders s)" using mem pin_inv_finite [OF inv] card_gt_0_iff by blast
    ultimately have "0 < unat (ps_pin s)" "unat (ps_pin s) < 2147483648"
      using inv n pin_inv_holders_le [OF inv] by (auto simp: pin_inv_def)
    then show ?thesis by (simp add: nvwal_pin_read_unlock_def sint_u32_alt del: of_nat_unat)
  qed
  moreover have "nvwal_pin_flusher_unlock (ps_pin s) \<noteq> Abort" if "ps_flusher_holds s"
    using inv that by (simp add: pin_inv_def nvwal_pin_flusher_unlock_def)
  ultimately show ?thesis by (auto simp: pin_no_abort_def split: reader_pc.splits)
qed

text \<open>
  C18. Pins exclude the flusher. In every state that any interleaving of up to \<open>2^31 - 1\<close> readers and
  the flusher reaches, the flusher holds a segment exclusively only while no reader holds a pin on
  it, the counter of a segment not held by the flusher is the number of its readers, and no
  assertion of the pin functions fails.
\<close>

theorem pin_mutual_exclusion:
  assumes "pin_reachable n s" "n < 2 ^ 31"
  shows "(ps_flusher_holds s \<longrightarrow> holders s = {}) \<and>
         (\<not> ps_flusher_holds s \<longrightarrow> unat (ps_pin s) = card (holders s)) \<and> pin_no_abort n s"
  using pin_inv_reachable [OF assms(1)] pin_inv_no_abort [of n s] assms(2)
  by (auto simp: pin_inv_def)

text \<open>A run in which a reader takes the pin and the flusher then fails to lock the segment.\<close>

definition pin_sample :: pin_sys where
  "pin_sample = \<lparr>ps_pin = 1, ps_reader = (\<lambda>_. RIdle)(0 := RHolding), ps_flusher_holds = False\<rparr>"

lemma pin_sample_reachable: "pin_reachable 2 pin_sample"
proof -
  let ?s1 = "pin_init\<lparr>ps_reader := (ps_reader pin_init)(0 := RLoaded (ps_pin pin_init))\<rparr>"
  have 1: "pin_step 2 pin_init ?s1"
    by (rule pin_step.read_load) (simp_all add: pin_init_def)
  have "pin_step 2 ?s1 (?s1\<lparr>ps_pin := 1, ps_reader := (ps_reader ?s1)(0 := (if True then RHolding else RIdle))\<rparr>)"
    by (rule pin_step.read_swap [where v = 0])
      (simp_all add: pin_init_def nvwal_pin_read_try_lock_def atomic_compare_exchange_def)
  then have 2: "pin_step 2 ?s1 pin_sample"
    by (simp add: pin_sample_def pin_init_def)
  have "pin_step 2 pin_sample (pin_sample\<lparr>ps_pin := 1, ps_flusher_holds := False\<rparr>)"
    by (rule pin_step.flusher_lock)
      (simp_all add: pin_sample_def nvwal_pin_flusher_try_lock_def atomic_compare_exchange_def)
  with 1 2 show ?thesis by (meson pin_reachable.init pin_reachable.step)
qed

theorem pin_mutual_exclusion_witness:
  "unat (ps_pin pin_sample) = card (holders pin_sample) \<and> pin_no_abort 2 pin_sample"
  using pin_mutual_exclusion [OF pin_sample_reachable] by (simp add: pin_sample_def)

end
