(* ===== verification/Thread_State.thy ===== *)
theory Thread_State
  imports Pin
begin

text \<open>
  The life cycle of the flusher and fsyncer threads, \<^verbatim>\<open>src/nvwal_impl_init.c\<close>: the host thread
  makes a thread state ready and later requests the worker to stop, the worker starts, runs and
  stops. The functions are modelled on the state they share when nobody interferes;
  \<open>host_next\<close> and \<open>worker_next\<close> are the same functions one access to the shared state at a time,
  and \<open>ts_step\<close> interleaves them.
\<close>

section \<open>Functions\<close>

definition nvwal_impl_thread_state_get_ready ::
  "NvwalThreadState \<Rightarrow> (unit, NvwalThreadState) outcome" where
  "nvwal_impl_thread_state_get_ready ts =
     c_assert (ts = kNvwalThreadStateBeingInitialized) (Ok () kNvwalThreadStateAcceptStart)"

definition nvwal_impl_thread_state_try_start ::
  "NvwalThreadState \<Rightarrow> (NvwalThreadState, NvwalThreadState) outcome" where
  "nvwal_impl_thread_state_try_start ts =
     (let expected = kNvwalThreadStateAcceptStart; desired = kNvwalThreadStateRunning
      in case atomic_compare_exchange ts expected desired of
           (True, v) \<Rightarrow> Ok kNvwalThreadStateRunning v
         | (False, v) \<Rightarrow> c_assert (v \<noteq> kNvwalThreadStateRunning) (Ok v v))"

definition nvwal_impl_thread_state_wait_for_start ::
  "NvwalThreadState \<Rightarrow> (unit, NvwalThreadState) outcome" where
  "nvwal_impl_thread_state_wait_for_start ts =
     c_assert (ts = kNvwalThreadStateAcceptStart \<or> ts = kNvwalThreadStateRunning)
       (if ts = kNvwalThreadStateRunning then Ok () ts else Spin ts)"

definition nvwal_impl_thread_state_stopped ::
  "NvwalThreadState \<Rightarrow> (unit, NvwalThreadState) outcome" where
  "nvwal_impl_thread_state_stopped ts =
     c_assert (ts = kNvwalThreadStateRunning \<or> ts = kNvwalThreadStateRunningAndRequestedStop)
       (Ok () kNvwalThreadStateStopped)"

definition nvwal_impl_thread_state_request_and_wait_for_stop ::
  "NvwalThreadState \<Rightarrow> (unit, NvwalThreadState) outcome" where
  "nvwal_impl_thread_state_request_and_wait_for_stop ts =
     (if ts = kNvwalThreadStateBeingInitialized \<or> ts = kNvwalThreadStateProhibitStart
         \<or> ts = kNvwalThreadStateStopped
      then Ok () ts
      else c_assert (ts = kNvwalThreadStateAcceptStart \<or> ts = kNvwalThreadStateRunning
                     \<or> ts = kNvwalThreadStateStopped)
        (case atomic_compare_exchange ts kNvwalThreadStateAcceptStart
                kNvwalThreadStateProhibitStart of
           (True, v) \<Rightarrow> Ok () v
         | (False, v) \<Rightarrow>
             c_assert (v = kNvwalThreadStateRunning \<or> v = kNvwalThreadStateStopped)
               (case atomic_compare_exchange v kNvwalThreadStateRunning
                       kNvwalThreadStateRunningAndRequestedStop of
                  (True, u) \<Rightarrow> if u = kNvwalThreadStateStopped then Ok () u else Spin u
                | (False, u) \<Rightarrow> c_assert (u = kNvwalThreadStateStopped) (Ok () u))))"

section \<open>One access at a time\<close>

text \<open>
  The host. \<open>HIf k\<close> and \<open>HAssert k\<close> are about to evaluate the \<open>k\<close>-th comparison of the first
  condition and of the first assertion, which each load the shared state anew; \<open>HRunning k\<close> the
  \<open>k\<close>-th comparison of the second assertion; \<open>HWait\<close> polls for the stop; \<open>HLast\<close> is the assertion
  after the failed swap. \<open>HDone\<close>: the request returned.
\<close>

datatype host_pc =
  HInit | HReady | HIf nat | HAssert nat | HProhibit | HRunning nat | HRequest | HWait | HLast
| HDone | HAborted

fun host_next :: "host_pc \<Rightarrow> NvwalThreadState \<Rightarrow> host_pc \<times> NvwalThreadState" where
  "host_next (HIf 0) ts = (if ts = kNvwalThreadStateBeingInitialized then HDone else HIf 1, ts)"
| "host_next (HIf (Suc 0)) ts = (if ts = kNvwalThreadStateProhibitStart then HDone else HIf 2, ts)"
| "host_next (HIf _) ts = (if ts = kNvwalThreadStateStopped then HDone else HAssert 0, ts)"
| "host_next (HAssert 0) ts = (if ts = kNvwalThreadStateAcceptStart then HProhibit else HAssert 1, ts)"
| "host_next (HAssert (Suc 0)) ts = (if ts = kNvwalThreadStateRunning then HProhibit else HAssert 2, ts)"
| "host_next (HAssert _) ts = (if ts = kNvwalThreadStateStopped then HProhibit else HAborted, ts)"
| "host_next HProhibit ts =
     (case atomic_compare_exchange ts kNvwalThreadStateAcceptStart kNvwalThreadStateProhibitStart of
        (True, v) \<Rightarrow> (HDone, v) | (False, v) \<Rightarrow> (HRunning 0, v))"
| "host_next (HRunning 0) ts = (if ts = kNvwalThreadStateRunning then HRequest else HRunning 1, ts)"
| "host_next (HRunning _) ts = (if ts = kNvwalThreadStateStopped then HRequest else HAborted, ts)"
| "host_next HRequest ts =
     (case atomic_compare_exchange ts kNvwalThreadStateRunning
             kNvwalThreadStateRunningAndRequestedStop of
        (True, v) \<Rightarrow> (HWait, v) | (False, v) \<Rightarrow> (HLast, v))"
| "host_next HWait ts = (if ts = kNvwalThreadStateStopped then HDone else HWait, ts)"
| "host_next HLast ts = (if ts = kNvwalThreadStateStopped then HDone else HAborted, ts)"
| "host_next p ts = (p, ts)"

text \<open>
  The worker: \<^verbatim>\<open>nvwal_flusher_main\<close> and \<^verbatim>\<open>nvwal_fsync_main\<close> up to the work they do.
  \<open>WRun k\<close>: the \<open>k\<close>-th comparison of the loop's assertion; \<open>WPoll\<close>: the load that looks for a stop
  request; \<open>WWork\<close>: one round of work, which may also end the loop with an error; \<open>WStop k\<close>: the
  \<open>k\<close>-th comparison of the assertion of \<open>nvwal_impl_thread_state_stopped\<close>; \<open>WStore\<close>: its store.
\<close>

datatype worker_pc =
  WNew | WRun nat | WPoll | WWork | WStop nat | WStore | WDone | WRefused | WAborted

fun worker_next :: "bool \<Rightarrow> worker_pc \<Rightarrow> NvwalThreadState \<Rightarrow> worker_pc \<times> NvwalThreadState" where
  "worker_next err WNew ts =
     (case nvwal_impl_thread_state_try_start ts of
        Ok state v \<Rightarrow> (if state = kNvwalThreadStateRunning then WRun 0 else WRefused, v)
      | _ \<Rightarrow> (WAborted, ts))"
| "worker_next err (WRun 0) ts = (if ts = kNvwalThreadStateRunning then WPoll else WRun 1, ts)"
| "worker_next err (WRun _) ts =
     (if ts = kNvwalThreadStateRunningAndRequestedStop then WPoll else WAborted, ts)"
| "worker_next err WPoll ts =
     (if ts = kNvwalThreadStateRunningAndRequestedStop then WStop 0 else WWork, ts)"
| "worker_next err WWork ts = (if err then WStop 0 else WRun 0, ts)"
| "worker_next err (WStop 0) ts = (if ts = kNvwalThreadStateRunning then WStore else WStop 1, ts)"
| "worker_next err (WStop _) ts =
     (if ts = kNvwalThreadStateRunningAndRequestedStop then WStore else WAborted, ts)"
| "worker_next err WStore ts = (WDone, kNvwalThreadStateStopped)"
| "worker_next err p ts = (p, ts)"

record ts_sys =
  ts_state :: NvwalThreadState
  ts_host :: host_pc
  ts_worker :: worker_pc

definition ts_init :: ts_sys where
  "ts_init = \<lparr>ts_state = kNvwalThreadStateBeingInitialized, ts_host = HInit, ts_worker = WNew\<rparr>"

text \<open>
  The host calls \<open>nvwal_impl_thread_state_get_ready\<close> at the end of an initialisation that
  succeeded, and the request to stop from then on or after one that failed.
\<close>

inductive ts_step :: "ts_sys \<Rightarrow> ts_sys \<Rightarrow> bool" where
  get_ready: "ts_host s = HInit \<Longrightarrow> nvwal_impl_thread_state_get_ready (ts_state s) = Ok () v \<Longrightarrow>
     ts_step s (s\<lparr>ts_state := v, ts_host := HReady\<rparr>)"
| uninit: "ts_host s = HInit \<or> ts_host s = HReady \<Longrightarrow> ts_step s (s\<lparr>ts_host := HIf 0\<rparr>)"
| host: "host_next (ts_host s) (ts_state s) = (p, v) \<Longrightarrow>
     ts_step s (s\<lparr>ts_state := v, ts_host := p\<rparr>)"
| worker: "worker_next err (ts_worker s) (ts_state s) = (p, v) \<Longrightarrow>
     ts_step s (s\<lparr>ts_state := v, ts_worker := p\<rparr>)"

inductive ts_reachable :: "ts_sys \<Rightarrow> bool" where
  init: "ts_reachable ts_init"
| step: "ts_reachable s \<Longrightarrow> ts_step s t \<Longrightarrow> ts_reachable t"

text \<open>The worker is between its start and its stop.\<close>

fun worker_active :: "worker_pc \<Rightarrow> bool" where
  "worker_active (WRun _) = True"
| "worker_active WPoll = True"
| "worker_active WWork = True"
| "worker_active (WStop _) = True"
| "worker_active WStore = True"
| "worker_active _ = False"

text \<open>The worker on its own for a number of steps; the list says in which rounds its work fails.\<close>

fun worker_run :: "bool list \<Rightarrow> worker_pc \<times> NvwalThreadState \<Rightarrow> worker_pc \<times> NvwalThreadState" where
  "worker_run [] c = c"
| "worker_run (err # errs) c = worker_run errs (worker_next err (fst c) (snd c))"

section \<open>Invariant\<close>

text \<open>
  Which shared state goes with which position of the worker, and with which position of the host.
\<close>

fun worker_ok :: "worker_pc \<Rightarrow> NvwalThreadState \<Rightarrow> bool" where
  "worker_ok WNew ts \<longleftrightarrow> ts \<in> {kNvwalThreadStateBeingInitialized, kNvwalThreadStateAcceptStart,
      kNvwalThreadStateProhibitStart}"
| "worker_ok WRefused ts \<longleftrightarrow> ts \<in> {kNvwalThreadStateBeingInitialized, kNvwalThreadStateAcceptStart,
      kNvwalThreadStateProhibitStart}"
| "worker_ok WDone ts \<longleftrightarrow> ts = kNvwalThreadStateStopped"
| "worker_ok (WRun k) ts \<longleftrightarrow> k \<le> 1 \<and> (ts = kNvwalThreadStateRunningAndRequestedStop \<or>
      k = 0 \<and> ts = kNvwalThreadStateRunning)"
| "worker_ok (WStop k) ts \<longleftrightarrow> k \<le> 1 \<and> (ts = kNvwalThreadStateRunningAndRequestedStop \<or>
      k = 0 \<and> ts = kNvwalThreadStateRunning)"
| "worker_ok WAborted ts \<longleftrightarrow> False"
| "worker_ok _ ts \<longleftrightarrow> ts \<in> {kNvwalThreadStateRunning, kNvwalThreadStateRunningAndRequestedStop}"

fun host_ok :: "host_pc \<Rightarrow> NvwalThreadState \<Rightarrow> bool" where
  "host_ok HInit ts \<longleftrightarrow> ts = kNvwalThreadStateBeingInitialized"
| "host_ok HReady ts \<longleftrightarrow> ts \<in> {kNvwalThreadStateAcceptStart, kNvwalThreadStateRunning,
      kNvwalThreadStateStopped}"
| "host_ok (HIf k) ts \<longleftrightarrow> k \<le> 2 \<and>
     (ts \<in> {kNvwalThreadStateAcceptStart, kNvwalThreadStateRunning, kNvwalThreadStateStopped} \<or>
      k = 0 \<and> ts = kNvwalThreadStateBeingInitialized)"
| "host_ok (HAssert k) ts \<longleftrightarrow> k \<le> 2 \<and>
     (ts = kNvwalThreadStateStopped \<or> k \<le> 1 \<and> ts = kNvwalThreadStateRunning \<or>
      k = 0 \<and> ts = kNvwalThreadStateAcceptStart)"
| "host_ok HProhibit ts \<longleftrightarrow> ts \<in> {kNvwalThreadStateAcceptStart, kNvwalThreadStateRunning,
      kNvwalThreadStateStopped}"
| "host_ok (HRunning k) ts \<longleftrightarrow> k \<le> 1 \<and>
     (ts = kNvwalThreadStateStopped \<or> k = 0 \<and> ts = kNvwalThreadStateRunning)"
| "host_ok HRequest ts \<longleftrightarrow> ts \<in> {kNvwalThreadStateRunning, kNvwalThreadStateStopped}"
| "host_ok HWait ts \<longleftrightarrow> ts \<in> {kNvwalThreadStateRunningAndRequestedStop, kNvwalThreadStateStopped}"
| "host_ok HLast ts \<longleftrightarrow> ts = kNvwalThreadStateStopped"
| "host_ok HDone ts \<longleftrightarrow> ts \<in> {kNvwalThreadStateBeingInitialized, kNvwalThreadStateProhibitStart,
      kNvwalThreadStateStopped}"
| "host_ok HAborted ts \<longleftrightarrow> False"

definition ts_inv :: "ts_sys \<Rightarrow> bool" where
  "ts_inv s \<longleftrightarrow> host_ok (ts_host s) (ts_state s) \<and> worker_ok (ts_worker s) (ts_state s)"

lemma nat_le2_cases: "(k :: nat) \<le> 2 \<Longrightarrow> k = 0 \<or> k = 1 \<or> k = 2"
  by linarith

lemma host_next_inv:
  assumes "host_ok h ts" "worker_ok w ts" "host_next h ts = (p, v)"
  shows "host_ok p v \<and> worker_ok w v"
  using assms
  by (cases "(h, ts)" rule: host_next.cases)
    (auto simp: atomic_compare_exchange_def numeral_2_eq_2 split: if_splits elim: worker_ok.elims)

lemma worker_next_inv:
  assumes "host_ok h ts" "worker_ok w ts" "worker_next err w ts = (p, v)"
  shows "host_ok h v \<and> worker_ok p v"
  using assms
  by (cases "(err, w, ts)" rule: worker_next.cases)
    (auto simp: nvwal_impl_thread_state_try_start_def atomic_compare_exchange_def c_assert_def
      split: if_splits elim!: host_ok.elims)

lemma ts_inv_step: "ts_step s t \<Longrightarrow> ts_inv s \<Longrightarrow> ts_inv t"
proof (induction rule: ts_step.induct)
  case (get_ready s v)
  then show ?case
    by (auto simp: ts_inv_def nvwal_impl_thread_state_get_ready_def c_assert_def split: if_splits
        elim: worker_ok.elims)
next
  case (uninit s)
  then show ?case by (auto simp: ts_inv_def)
next
  case (host s p v)
  then show ?case using host_next_inv [of "ts_host s" "ts_state s" "ts_worker s"] by (simp add: ts_inv_def)
next
  case (worker err s p v)
  then show ?case using worker_next_inv [of "ts_host s" "ts_state s" "ts_worker s"] by (simp add: ts_inv_def)
qed

lemma ts_inv_reachable: "ts_reachable s \<Longrightarrow> ts_inv s"
proof (induction rule: ts_reachable.induct)
  case init
  show ?case by (simp add: ts_inv_def ts_init_def)
qed (rule ts_inv_step)

lemma host_done_worker_inactive:
  "host_ok HDone ts \<Longrightarrow> worker_ok w ts \<Longrightarrow> \<not> worker_active w"
  by (cases w) auto

lemma worker_run_stops:
  assumes "worker_ok w kNvwalThreadStateRunningAndRequestedStop" "length errs = 7"
  shows "worker_run errs (w, kNvwalThreadStateRunningAndRequestedStop)
           = (WDone, kNvwalThreadStateStopped)"
proof -
  from assms(2) obtain e1 e2 e3 e4 e5 e6 e7 where [simp]: "errs = [e1, e2, e3, e4, e5, e6, e7]"
    by (auto simp: length_Suc_conv numeral_eq_Suc)
  have "k = 0 \<or> k = Suc 0" if "k \<le> Suc 0" for k :: nat using that by linarith
  with assms(1) show ?thesis by (cases w) fastforce+
qed

section \<open>Properties\<close>

text \<open>
  An executable scheduler: what it reaches is reachable, so it exhibits concrete runs.
\<close>

datatype ts_move = MReady | MUninit | MHost | MWorker bool

fun ts_do :: "ts_move \<Rightarrow> ts_sys \<Rightarrow> ts_sys" where
  "ts_do MReady s =
     (case nvwal_impl_thread_state_get_ready (ts_state s) of
        Ok u v \<Rightarrow> if ts_host s = HInit then s\<lparr>ts_state := v, ts_host := HReady\<rparr> else s
      | _ \<Rightarrow> s)"
| "ts_do MUninit s = (if ts_host s = HInit \<or> ts_host s = HReady then s\<lparr>ts_host := HIf 0\<rparr> else s)"
| "ts_do MHost s = (case host_next (ts_host s) (ts_state s) of (p, v) \<Rightarrow> s\<lparr>ts_state := v, ts_host := p\<rparr>)"
| "ts_do (MWorker err) s =
     (case worker_next err (ts_worker s) (ts_state s) of (p, v) \<Rightarrow> s\<lparr>ts_state := v, ts_worker := p\<rparr>)"

lemma ts_do_step: "ts_do m s = s \<or> ts_step s (ts_do m s)"
  by (cases m) (auto split: outcome.splits prod.splits intro: ts_step.intros)

lemma ts_run_reachable: "ts_reachable s \<Longrightarrow> ts_reachable (fold ts_do ms s)"
proof (induction ms arbitrary: s)
  case (Cons m ms)
  have "ts_reachable (ts_do m s)"
    using Cons.prems ts_do_step [of m s] by (metis ts_reachable.step)
  then show ?case using Cons.IH by simp
qed simp

text \<open>
  C19. Stopping a worker is safe. However the host and the worker interleave, no assertion of the
  thread-state functions fails, and once the host's request to stop has returned the worker is
  not between its start and its stop: it never started, it was refused, or it has stopped.
\<close>

theorem stop_request_safe:
  assumes "ts_reachable s"
  shows "ts_host s \<noteq> HAborted \<and> ts_worker s \<noteq> WAborted \<and>
         (ts_host s = HDone \<longrightarrow> \<not> worker_active (ts_worker s))"
  using ts_inv_reachable [OF assms] host_done_worker_inactive
  by (auto simp: ts_inv_def)

text \<open>
  A run in which the worker starts, the host requests the stop and waits, the worker stops and the
  request returns.
\<close>

definition ts_moves_wait :: "ts_move list" where
  "ts_moves_wait = [MReady, MWorker False, MUninit, MHost, MHost, MHost, MHost, MHost, MHost, MHost, MHost]"

definition ts_moves_done :: "ts_move list" where
  "ts_moves_done = ts_moves_wait @ replicate 6 (MWorker False) @ [MHost]"

lemmas ts_run_simps = ts_moves_wait_def ts_moves_done_def ts_init_def numeral_eq_Suc
  nvwal_impl_thread_state_get_ready_def nvwal_impl_thread_state_try_start_def
  atomic_compare_exchange_def

theorem stop_request_safe_witness:
  "ts_host (fold ts_do ts_moves_done ts_init) = HDone \<and>
   ts_worker (fold ts_do ts_moves_done ts_init) = WDone \<and>
   \<not> worker_active (ts_worker (fold ts_do ts_moves_done ts_init))"
  using stop_request_safe [OF ts_run_reachable [OF ts_reachable.init], of ts_moves_done]
  by (simp add: ts_run_simps)



end
