(* ===== verification/Flusher.thy ===== *)
theory Flusher
  imports Writer Mds Thread_State
begin

text \<open>
  The flusher of \<^verbatim>\<open>src/nvwal_api.c\<close>: it copies the bytes of the epoch after the durable one from
  the writers' buffers to the current NV segment, moves on to the next segment when one is full, and
  concludes the epoch once it is stable. Segments are addressed by their index in the context.
\<close>

section \<open>Segments\<close>

definition flusher_get_segment_from_dsid :: "NvwalContext \<Rightarrow> u64 \<Rightarrow> nat option" where
  "flusher_get_segment_from_dsid wal dsid =
     (if dsid = 0 then None
      else Some (unat (ucast ((dsid - 1) mod ucast (wal_segment_count wal)) :: u32)))"

definition flusher_get_cur_segment :: "NvwalContext \<Rightarrow> nat option" where
  "flusher_get_cur_segment wal =
     flusher_get_segment_from_dsid wal (wal_flusher_current_nv_segment_dsid wal)"

definition set_segment :: "nat \<Rightarrow> (NvwalLogSegment \<Rightarrow> NvwalLogSegment) \<Rightarrow> world \<Rightarrow> world" where
  "set_segment i f w =
     (let wal = w_wal w; ss = wal_segments wal in w\<lparr>w_wal := wal\<lparr>wal_segments := ss[i := f (ss ! i)]\<rparr>\<rparr>)"

definition set_writer :: "nat \<Rightarrow> (NvwalWriterContext \<Rightarrow> NvwalWriterContext) \<Rightarrow> world \<Rightarrow> world" where
  "set_writer i f w =
     (let wal = w_wal w; ws = wal_writers wal in w\<lparr>w_wal := wal\<lparr>wal_writers := ws[i := f (ws ! i)]\<rparr>\<rparr>)"

text \<open>
  Moving on. The loop that waits for the fsyncer is \<open>Spin\<close> while the next segment is still to be
  copied to disk, unless the fsyncer reported an error; the pin's lock is \<open>Spin\<close> while a cursor reads
  the segment.
\<close>

definition flusher_move_onto_next_nv_segment :: "world \<Rightarrow> (unit, world) outcome" where
  "flusher_move_onto_next_nv_segment w =
     checked (flusher_get_cur_segment (w_wal w)) (\<lambda>ci.
     elem_at (wal_segments (w_wal w)) ci (\<lambda>cur.
       c_assert (sg_dsid cur > 0)
       (c_assert ((sg_dsid cur - 1) mod ucast (wal_segment_count (w_wal w)) = ucast (sg_nv_segment_index cur))
       (c_assert (sg_written_bytes cur = cf_segment_size (wal_config (w_wal w)))
       (c_assert (\<not> sg_fsync_requested cur)
       (c_assert (sg_fsync_error cur = None)
       (c_assert (\<not> sg_fsync_completed cur)
         (let w = set_segment ci (\<lambda>g. g\<lparr>sg_fsync_requested := True\<rparr>) w;
              next_dsid = wal_flusher_current_nv_segment_dsid (w_wal w) + 1
          in checked (flusher_get_segment_from_dsid (w_wal w) next_dsid) (\<lambda>ni.
             elem_at (wal_segments (w_wal w)) ni (\<lambda>new.
               if sg_fsync_requested new \<and> \<not> sg_fsync_completed new
               then (case sg_fsync_error new of Some e \<Rightarrow> Fail e w | None \<Rightarrow> Spin w)
               else and_then (lift_outcome (\<lambda>p. set_segment ni (\<lambda>g. g\<lparr>sg_nv_reader_pins := p\<rparr>))
                                (nvwal_pin_flusher_unconditional_lock (sg_nv_reader_pins new)) w) (\<lambda>_ w.
                 c_assert (sg_dsid new > 0)
                 (c_assert ((sg_dsid new - 1) mod ucast (wal_segment_count (w_wal w))
                            = (next_dsid - 1) mod ucast (wal_segment_count (w_wal w)))
                   (let w = set_segment ni (\<lambda>g. g\<lparr>sg_dsid := next_dsid, sg_written_bytes := 0,
                              sg_fsync_completed := False, sg_fsync_error := None,
                              sg_fsync_requested := False\<rparr>) w
                    in elem_at (wal_segments (w_wal w)) ni (\<lambda>new.
                      and_then (lift_outcome (\<lambda>p. set_segment ni (\<lambda>g. g\<lparr>sg_nv_reader_pins := p\<rparr>))
                                  (nvwal_pin_flusher_unlock (sg_nv_reader_pins new)) w) (\<lambda>_ w.
                        Ok () (w\<lparr>w_wal := (w_wal w)\<lparr>wal_flusher_current_nv_segment_dsid := next_dsid\<rparr>\<rparr>))))))))))))))))"

section \<open>Copying a writer's frame\<close>

text \<open>
  The body of the loop: one copy of at most the rest of the current segment, and whether the loop
  goes on.
\<close>

definition flusher_copy_round :: "nat \<Rightarrow> nat \<Rightarrow> world \<Rightarrow> (bool, world) outcome" where
  "flusher_copy_round wid frame_index w =
     checked (flusher_get_cur_segment (w_wal w)) (\<lambda>ci.
     elem_at (wal_segments (w_wal w)) ci (\<lambda>cur_segment.
     checked (sg_nv_baseaddr cur_segment) (\<lambda>nv_baseaddr.
     elem_at (wal_writers (w_wal w)) wid (\<lambda>writer.
     elem_at (wr_epoch_frames writer) frame_index (\<lambda>frame.
       let segment_size = cf_segment_size (wal_config (w_wal w));
           writer_buffer_size = cf_writer_buffer_size (wal_config (w_wal w));
           head = fr_head_offset frame;
           tail = fr_tail_offset frame;
           distance = calculate_writer_offset_distance (w_wal w) head tail
       in if distance = 0 then Ok False w
          else c_assert (sg_written_bytes cur_segment \<le> segment_size)
            (let writable_bytes = segment_size - sg_written_bytes cur_segment;
                 copied_bytes = (if writable_bytes < distance then writable_bytes else distance);
                 m = mapped nv_baseaddr (w_os w)
             in c_assert (unat (sg_written_bytes cur_segment) + unat copied_bytes \<le> length m)
                (checked (nvwal_circular_memcpy m (unat (sg_written_bytes cur_segment))
                            (wr_buffer writer) writer_buffer_size head copied_bytes) (\<lambda>m'.
                 checked (wrap_writer_offset (w_wal w) (head + copied_bytes)) (\<lambda>new_head.
                   let s = w_os w;
                       w = set_os (s\<lparr>os_files := (os_files s)(nv_baseaddr \<mapsto> m')\<rparr>) w;
                       w = set_writer wid (set_frame frame_index (\<lambda>f. f\<lparr>fr_head_offset := new_head\<rparr>)) w;
                       written = sg_written_bytes cur_segment + copied_bytes;
                       w = set_segment ci (\<lambda>g. g\<lparr>sg_written_bytes := written\<rparr>) w
                   in if written = segment_size
                      then and_then (flusher_move_onto_next_nv_segment w) (\<lambda>_ w. Ok True w)
                      else if copied_bytes = distance then Ok False w
                      else Ok True w)))))))))"

text \<open>
  The loop is given fuel for each round; the caller gives more rounds than the frame can have bytes.
\<close>

primrec flusher_copy_loop :: "nat \<Rightarrow> nat \<Rightarrow> nat \<Rightarrow> world \<Rightarrow> (unit, world) outcome" where
  "flusher_copy_loop 0 wid frame_index w = Spin w"
| "flusher_copy_loop (Suc fuel) wid frame_index w =
     and_then (flusher_copy_round wid frame_index w) (\<lambda>more w.
       if more then flusher_copy_loop fuel wid frame_index w else Ok () w)"

text \<open>The last non-zero tag of a stable epoch wins.\<close>

definition take_user_metadata :: "NvwalWriterEpochFrame \<Rightarrow> NvwalContext \<Rightarrow> NvwalContext" where
  "take_user_metadata frame wal =
     wal\<lparr>wal_flusher_current_epoch_user_metadata_0 :=
           (if fr_user_metadata_0 frame \<noteq> 0 then fr_user_metadata_0 frame
            else wal_flusher_current_epoch_user_metadata_0 wal),
         wal_flusher_current_epoch_user_metadata_1 :=
           (if fr_user_metadata_1 frame \<noteq> 0 then fr_user_metadata_1 frame
            else wal_flusher_current_epoch_user_metadata_1 wal)\<rparr>"

definition flusher_copy_one_writer_to_nv :: "nat \<Rightarrow> u64 \<Rightarrow> bool \<Rightarrow> world \<Rightarrow> (unit, world) outcome" where
  "flusher_copy_one_writer_to_nv wid target_epoch is_stable_epoch w =
     elem_at (wal_writers (w_wal w)) wid (\<lambda>writer.
       let frame_index = find_epoch_frame (wr_epoch_frames writer) target_epoch
       in if frame_index = kNvwalEpochFrameCount then Ok () w
          else elem_at (wr_epoch_frames writer) frame_index (\<lambda>frame.
            c_assert (target_epoch = fr_log_epoch frame)
              (let w = (if is_stable_epoch then set_wal (take_user_metadata frame (w_wal w)) w else w)
               in flusher_copy_loop (unat (cf_writer_buffer_size (wal_config (w_wal w))) + 2)
                    wid frame_index w)))"

section \<open>Concluding an epoch\<close>

definition flusher_update_mpe :: "pmem \<Rightarrow> u64 \<Rightarrow> world \<Rightarrow> (unit, world) outcome" where
  "flusher_update_mpe pm new_mpe w =
     with_cblock w (\<lambda>p cb.
       c_assert (nvwal_is_epoch_equal_or_after new_mpe (fp_paged_mds_epoch (cb_flusher_progress cb)))
         (Ok () (set_os (store_paged_epoch pm p new_mpe (w_os w)) w)))"

definition flusher_update_de :: "pmem \<Rightarrow> u64 \<Rightarrow> world \<Rightarrow> (unit, world) outcome" where
  "flusher_update_de pm new_de w =
     with_cblock w (\<lambda>p cb.
       c_assert (nvwal_is_epoch_equal_or_after new_de (fp_durable_epoch (cb_flusher_progress cb)))
         (Ok () (set_os (store_durable_epoch pm p new_de (w_os w)) w)))"

definition flusher_new_meta :: "u64 \<Rightarrow> NvwalLogSegment \<Rightarrow> NvwalContext \<Rightarrow> MdsEpochMetadata" where
  "flusher_new_meta target_epoch cur_segment wal =
     \<lparr>em_epoch_id = target_epoch,
      em_from_seg_id = wal_flusher_current_epoch_head_dsid wal,
      em_from_offset = ucast (wal_flusher_current_epoch_head_offset wal),
      em_to_seg_id = sg_dsid cur_segment,
      em_to_off = ucast (sg_written_bytes cur_segment),
      em_user_metadata_0 = wal_flusher_current_epoch_user_metadata_0 wal,
      em_user_metadata_1 = wal_flusher_current_epoch_user_metadata_1 wal\<rparr>"

text \<open>Persisting what the epoch wrote to one segment.\<close>

definition flusher_persist_segment ::
  "pmem \<Rightarrow> MdsEpochMetadata \<Rightarrow> u64 \<Rightarrow> u64 \<Rightarrow> world \<Rightarrow> (unit, world) outcome" where
  "flusher_persist_segment pm new_meta disk_dsid dsid w =
     (if dsid \<le> disk_dsid then Ok () w
      else let from_offset = (if dsid = em_from_seg_id new_meta then ucast (em_from_offset new_meta) else 0 :: u64);
               to_offset = (if dsid = em_to_seg_id new_meta then ucast (em_to_off new_meta)
                            else cf_segment_size (wal_config (w_wal w)))
           in c_assert (from_offset \<le> to_offset)
             (let segment_index = unat (ucast ((dsid - 1) mod ucast (wal_segment_count (w_wal w))) :: u32)
              in elem_at (wal_segments (w_wal w)) segment_index (\<lambda>seg.
                c_assert (sg_dsid seg = dsid)
                  (checked (sg_nv_baseaddr seg) (\<lambda>p.
                     c_assert (unat to_offset \<le> length (mapped p (w_os w)))
                       (Ok () (set_os (persist_mapped pm p (unat from_offset)
                                         (unat (to_offset - from_offset)) (w_os w)) w)))))))"

text \<open>The loop \<open>for (dsid = from; dsid <= to; ++dsid)\<close>, for \<open>to\<close> below \<open>2 ^ 64 - 1\<close>.\<close>

definition dsid_range :: "u64 \<Rightarrow> u64 \<Rightarrow> u64 list" where
  "dsid_range from to = map of_nat [unat from..<Suc (unat to)]"

definition flusher_conclude_stable_epoch :: "pmem \<Rightarrow> u64 \<Rightarrow> world \<Rightarrow> (unit, world) outcome" where
  "flusher_conclude_stable_epoch pm target_epoch w =
     checked (flusher_get_cur_segment (w_wal w)) (\<lambda>ci.
     elem_at (wal_segments (w_wal w)) ci (\<lambda>cur_segment.
     with_cblock w (\<lambda>cbp cb.
       let new_meta = flusher_new_meta target_epoch cur_segment (w_wal w);
           disk_dsid = sp_last_synced_dsid (cb_fsyncer_progress cb)
       in and_then (for_each (flusher_persist_segment pm new_meta disk_dsid)
                      (dsid_range (em_from_seg_id new_meta) (em_to_seg_id new_meta)) w) (\<lambda>_ w.
          and_then (mds_write_epoch pm new_meta w) (\<lambda>_ w.
            Ok () (w\<lparr>w_wal := (w_wal w)\<lparr>wal_durable_epoch := target_epoch,
                       wal_flusher_current_epoch_head_dsid := sg_dsid cur_segment,
                       wal_flusher_current_epoch_head_offset := sg_written_bytes cur_segment\<rparr>\<rparr>))))))"

section \<open>The main loop\<close>

text \<open>
  \<open>seen i\<close> is the thread state the flusher reads after it served writer \<open>i\<close>; the host thread may
  have requested the stop in the meantime. The loop over the writers leaves early when it sees that
  request.
\<close>

fun flusher_copy_writers ::
  "(nat \<Rightarrow> NvwalThreadState) \<Rightarrow> u64 \<Rightarrow> bool \<Rightarrow> nat list \<Rightarrow> world \<Rightarrow> (unit, world) outcome" where
  "flusher_copy_writers seen target_epoch is_stable_epoch [] w = Ok () w"
| "flusher_copy_writers seen target_epoch is_stable_epoch (i # is) w =
     and_then (flusher_copy_one_writer_to_nv i target_epoch is_stable_epoch w) (\<lambda>_ w.
       if seen i = kNvwalThreadStateRunningAndRequestedStop then Ok () w
       else flusher_copy_writers seen target_epoch is_stable_epoch is w)"

definition flusher_main_loop :: "pmem \<Rightarrow> (nat \<Rightarrow> NvwalThreadState) \<Rightarrow> world \<Rightarrow> (unit, world) outcome" where
  "flusher_main_loop pm seen w =
     (let target_epoch = nvwal_increment_epoch (wal_durable_epoch (w_wal w));
          is_stable_epoch = (target_epoch = wal_stable_epoch (w_wal w))
      in and_then (flusher_copy_writers seen target_epoch is_stable_epoch
                     [0..<unat (cf_writer_count (wal_config (w_wal w)))] w) (\<lambda>_ w.
           if is_stable_epoch \<and> target_epoch \<noteq> wal_durable_epoch (w_wal w)
           then flusher_conclude_stable_epoch pm target_epoch w
           else Ok () w))"

text \<open>
  The thread. Each round is preceded by what other threads did to the world, among it possibly the
  request to stop; a list that ends while the thread still runs leaves it running (\<open>Spin\<close>).
\<close>

type_synonym rounds = "((world \<Rightarrow> world) \<times> (nat \<Rightarrow> NvwalThreadState)) list"

fun flusher_rounds :: "pmem \<Rightarrow> rounds \<Rightarrow> world \<Rightarrow> (unit, world) outcome" where
  "flusher_rounds pm [] w = Spin w"
| "flusher_rounds pm ((env, seen) # rs) w =
     (let w = env w; ts = wal_flusher_thread_state (w_wal w)
      in c_assert (ts = kNvwalThreadStateRunning \<or> ts = kNvwalThreadStateRunningAndRequestedStop)
           (if ts = kNvwalThreadStateRunningAndRequestedStop then Ok () w
            else and_then (flusher_main_loop pm seen w) (\<lambda>_ w. flusher_rounds pm rs w)))"

definition set_flusher_state :: "NvwalThreadState \<Rightarrow> world \<Rightarrow> world" where
  "set_flusher_state ts w = w\<lparr>w_wal := (w_wal w)\<lparr>wal_flusher_thread_state := ts\<rparr>\<rparr>"

definition nvwal_flusher_main :: "pmem \<Rightarrow> rounds \<Rightarrow> world \<Rightarrow> (unit, world) outcome" where
  "nvwal_flusher_main pm rs w =
     and_then (lift_outcome set_flusher_state
                 (nvwal_impl_thread_state_try_start (wal_flusher_thread_state (w_wal w))) w) (\<lambda>state w.
       if state \<noteq> kNvwalThreadStateRunning then Fail EIO w
       else (case flusher_rounds pm rs w of
               Ok _ w \<Rightarrow> lift_outcome set_flusher_state
                           (nvwal_impl_thread_state_stopped (wal_flusher_thread_state (w_wal w))) w
             | Fail e w \<Rightarrow>
                 and_then (lift_outcome set_flusher_state
                             (nvwal_impl_thread_state_stopped (wal_flusher_thread_state (w_wal w))) w)
                   (\<lambda>_ w. Fail e w)
             | r \<Rightarrow> r))"

definition nvwal_wait_for_flusher_start :: "world \<Rightarrow> (unit, world) outcome" where
  "nvwal_wait_for_flusher_start w =
     lift_outcome set_flusher_state
       (nvwal_impl_thread_state_wait_for_start (wal_flusher_thread_state (w_wal w))) w"

end
