(* ===== verification/Fsyncer.thy ===== *)
theory Fsyncer
  imports Flusher
begin

text \<open>
  The fsyncer of \<^verbatim>\<open>src/nvwal_api.c\<close>: it copies the segment after the last synced one to a file on
  disk once the flusher requested it, and durably records the progress in the control block.
\<close>

section \<open>Copying a segment to disk\<close>

text \<open>
  The write loop, on the bytes still to be written; \<open>seen k\<close> is the thread state it reads after its
  \<open>k\<close>-th call of \<open>write\<close>.
\<close>

function fsyncer_write_loop ::
  "(nat \<Rightarrow> NvwalThreadState) \<Rightarrow> nat \<Rightarrow> int \<Rightarrow> byte list \<Rightarrow> os \<Rightarrow> (unit, os) outcome" where
  "fsyncer_write_loop seen k fd bs s =
     (if bs = [] then Ok () s
      else case sys_write fd bs s of
             (Inl e, t) \<Rightarrow> Fail e t
           | (Inr n, t) \<Rightarrow>
               if seen k = kNvwalThreadStateRunningAndRequestedStop then Fail ETIMEDOUT t
               else fsyncer_write_loop seen (Suc k) fd (drop n bs) t)"
  by pat_completeness auto
termination
  by (relation "measure (\<lambda>(seen, k, fd, bs, s). length (os_resp s) + length bs)")
    (auto dest!: sys_write_progress [OF sym])

declare fsyncer_write_loop.simps [simp del]

definition fsyncer_sync_one_segment_to_disk ::
  "pmem \<Rightarrow> (nat \<Rightarrow> NvwalThreadState) \<Rightarrow> nat \<Rightarrow> world \<Rightarrow> (unit, world) outcome" where
  "fsyncer_sync_one_segment_to_disk pm seen i w =
     elem_at (wal_segments (w_wal w)) i (\<lambda>segment.
       let dsid = sg_dsid segment;
           segment_size = unat (cf_segment_size (wal_config (w_wal w)))
       in c_assert (dsid \<noteq> 0)
         (c_assert (\<not> sg_fsync_completed segment)
           (let w = set_segment i (\<lambda>g. g\<lparr>sg_fsync_error := None\<rparr>) w
            in checked (nvwal_construct_disk_segment_path (w_wal w) dsid) (\<lambda>disk_path.
               checked (sg_nv_baseaddr segment) (\<lambda>nv_baseaddr.
                 case sys_open disk_path True False False (w_os w) of
                   (Inl e, s) \<Rightarrow>
                     Fail e (set_segment i (\<lambda>g. g\<lparr>sg_fsync_error := Some e\<rparr>) (set_os s w))
                 | (Inr disk_fd, s) \<Rightarrow>
                     c_assert (disk_fd \<noteq> 0)
                     (c_assert (segment_size \<le> length (mapped nv_baseaddr s))
                       (case fsyncer_write_loop seen 0 disk_fd
                               (mem_read (mapped nv_baseaddr s) 0 segment_size) s of
                          Fail e s \<Rightarrow>
                            Fail e (set_segment i (\<lambda>g. g\<lparr>sg_fsync_error := Some e\<rparr>)
                                      (set_os (snd (sys_close disk_fd s)) w))
                        | Abort \<Rightarrow> Abort
                        | Spin s \<Rightarrow> Spin (set_os s w)
                        | Ok _ s \<Rightarrow>
                            (let s = snd (sys_close disk_fd (snd (sys_fsync disk_fd s)))
                             in and_then (ignore_error (lift_outcome set_os
                                   (nvwal_open_and_fsync
                                      (c_string (cf_disk_root (wal_config (w_wal w)))) s) w)) (\<lambda>_ w.
                               let w = set_segment i (\<lambda>g. g\<lparr>sg_fsync_completed := True\<rparr>) w
                               in with_cblock w (\<lambda>p cb.
                                 c_assert (dsid > sp_last_synced_dsid (cb_fsyncer_progress cb))
                                   (Ok () (set_os (store_last_synced_dsid pm p dsid (w_os w)) w))))))))))))"

section \<open>The thread\<close>

definition fsyncer_cur_segment :: "world \<Rightarrow> nat option" where
  "fsyncer_cur_segment w =
     map_option (\<lambda>p.
       let last_sync_dsid = sp_last_synced_dsid (cb_fsyncer_progress (os_cblock (w_os w) p))
       in if last_sync_dsid = kNvwalInvalidDsid then 0
          else unat (ucast (last_sync_dsid mod ucast (wal_segment_count (w_wal w))) :: u32))
       (wal_nv_control_block (w_wal w))"

definition fsyncer_round :: "pmem \<Rightarrow> (nat \<Rightarrow> NvwalThreadState) \<Rightarrow> world \<Rightarrow> (unit, world) outcome" where
  "fsyncer_round pm seen w =
     checked (fsyncer_cur_segment w) (\<lambda>cur_segment.
     elem_at (wal_segments (w_wal w)) cur_segment (\<lambda>segment.
       if \<not> sg_fsync_completed segment \<and> sg_fsync_requested segment
       then fsyncer_sync_one_segment_to_disk pm seen cur_segment w
       else Ok () w))"

text \<open>
  The loop of the thread, as that of the flusher: each round is preceded by what other threads did.
  The third component is the thread state that is read at the end of the round.
\<close>

fun fsyncer_rounds ::
  "pmem \<Rightarrow> ((world \<Rightarrow> world) \<times> (nat \<Rightarrow> NvwalThreadState) \<times> NvwalThreadState) list \<Rightarrow> world \<Rightarrow>
   (unit, world) outcome" where
  "fsyncer_rounds pm [] w = Spin w"
| "fsyncer_rounds pm ((env, seen, last_seen) # rs) w =
     (let w = env w; ts = wal_fsyncer_thread_state (w_wal w)
      in c_assert (ts = kNvwalThreadStateRunning \<or> ts = kNvwalThreadStateRunningAndRequestedStop)
           (if ts = kNvwalThreadStateRunningAndRequestedStop then Ok () w
            else and_then (fsyncer_round pm seen w) (\<lambda>_ w.
                   if last_seen = kNvwalThreadStateRunningAndRequestedStop then Ok () w
                   else fsyncer_rounds pm rs w)))"

definition set_fsyncer_state :: "NvwalThreadState \<Rightarrow> world \<Rightarrow> world" where
  "set_fsyncer_state ts w = w\<lparr>w_wal := (w_wal w)\<lparr>wal_fsyncer_thread_state := ts\<rparr>\<rparr>"

definition nvwal_fsync_main ::
  "pmem \<Rightarrow> ((world \<Rightarrow> world) \<times> (nat \<Rightarrow> NvwalThreadState) \<times> NvwalThreadState) list \<Rightarrow> world \<Rightarrow>
   (unit, world) outcome" where
  "nvwal_fsync_main pm rs w =
     and_then (lift_outcome set_fsyncer_state
                 (nvwal_impl_thread_state_try_start (wal_fsyncer_thread_state (w_wal w))) w) (\<lambda>state w.
       if state \<noteq> kNvwalThreadStateRunning then Fail EIO w
       else (case fsyncer_rounds pm rs w of
               Ok _ w \<Rightarrow> lift_outcome set_fsyncer_state
                           (nvwal_impl_thread_state_stopped (wal_fsyncer_thread_state (w_wal w))) w
             | Fail e w \<Rightarrow>
                 and_then (lift_outcome set_fsyncer_state
                             (nvwal_impl_thread_state_stopped (wal_fsyncer_thread_state (w_wal w))) w)
                   (\<lambda>_ w. Fail e w)
             | r \<Rightarrow> r))"

definition nvwal_wait_for_fsync_start :: "world \<Rightarrow> (unit, world) outcome" where
  "nvwal_wait_for_fsync_start w =
     lift_outcome set_fsyncer_state
       (nvwal_impl_thread_state_wait_for_start (wal_fsyncer_thread_state (w_wal w))) w"

end
