(* ===== verification/Cursor.thy ===== *)
theory Cursor
  imports Fsyncer
begin

text \<open>
  The log cursor of \<^verbatim>\<open>src/nvwal_impl_cursor.c\<close>: it reads the bytes of a range of epochs, region by
  region, from the file on disk of a segment that was synced and from the pinned NV segment
  otherwise. The state of a call is the cursor and the world.
\<close>

type_synonym cstate = "NvwalLogCursor \<times> world"

section \<open>Inline functions\<close>

definition zero_cursor_epoch :: NvwalCursorEpochMetadata where
  "zero_cursor_epoch =
     \<lparr>ce_epoch = 0, ce_start_dsid = 0, ce_last_dsid = 0, ce_start_offset = 0, ce_end_offset = 0\<rparr>"

definition zero_cursor :: NvwalLogCursor where
  "zero_cursor =
     \<lparr>cu_current_epoch = 0, cu_start_epoch = 0, cu_end_epoch = 0, cu_cur_offset = 0, cu_cur_len = 0,
      cu_cur_segment_data = None, cu_cur_segment_disk_fd = 0, cu_cur_segment_from_nv_segment = False,
      cu_cur_segment_id = 0, cu_fetched_epochs_current = 0, cu_fetched_epochs_count = 0,
      cu_fetched_epochs = replicate kNvwalCursorEpochPrefetches zero_cursor_epoch\<rparr>"

definition nvwal_cursor_is_valid :: "NvwalLogCursor \<Rightarrow> bool" where
  "nvwal_cursor_is_valid cu \<longleftrightarrow> cu_cur_segment_data cu \<noteq> None"

definition nvwal_cursor_get_data_length :: "NvwalLogCursor \<Rightarrow> u64" where
  "nvwal_cursor_get_data_length cu = cu_cur_len cu"

definition nvwal_cursor_get_current_epoch :: "NvwalLogCursor \<Rightarrow> u64" where
  "nvwal_cursor_get_current_epoch cu = cu_current_epoch cu"

text \<open>The bytes the returned pointer points at, as many as the returned length.\<close>

definition nvwal_cursor_get_data :: "NvwalLogCursor \<Rightarrow> os \<Rightarrow> byte list" where
  "nvwal_cursor_get_data cu s =
     (case cu_cur_segment_data cu of
        None \<Rightarrow> []
      | Some p \<Rightarrow> mem_read (mapped p s) (unat (cu_cur_offset cu)) (unat (nvwal_cursor_get_data_length cu)))"

section \<open>Opening and closing a segment\<close>

definition cursor_close_cur_segment :: "cstate \<Rightarrow> (unit, cstate) outcome" where
  "cursor_close_cur_segment st =
     (case st of (cu, w) \<Rightarrow>
        if cu_cur_segment_from_nv_segment cu
        then c_assert (cu_cur_segment_disk_fd cu = 0)
          (let i = unat (ucast ((cu_cur_segment_id cu - 1) mod ucast (wal_segment_count (w_wal w))) :: u32)
           in elem_at (wal_segments (w_wal w)) i (\<lambda>seg.
             and_then (lift_outcome (\<lambda>p st. (fst st, set_segment i (\<lambda>g. g\<lparr>sg_nv_reader_pins := p\<rparr>) (snd st)))
                         (nvwal_pin_read_unlock (sg_nv_reader_pins seg)) (cu, w)) (\<lambda>_ (cu, w).
               Ok () (cu\<lparr>cu_cur_segment_data := None, cu_cur_segment_disk_fd := 0,
                         cu_cur_segment_from_nv_segment := False,
                         cu_cur_segment_id := kNvwalInvalidDsid\<rparr>, w))))
        else
          let (e1, s) = (case cu_cur_segment_data cu of
                           None \<Rightarrow> (None, w_os w)
                         | Some p \<Rightarrow> (case sys_munmap p (w_os w) of
                                        (Inl e, s) \<Rightarrow> (nvwal_stock_error_code None (Some e), s)
                                      | (Inr _, s) \<Rightarrow> (None, s)));
              fd = cu_cur_segment_disk_fd cu;
              (e2, s) = (if fd \<noteq> 0 \<and> fd \<noteq> - 1
                         then (case sys_close fd s of
                                 (Inl e, s) \<Rightarrow> (nvwal_stock_error_code e1 (Some e), s)
                               | (Inr _, s) \<Rightarrow> (e1, s))
                         else (e1, s));
              st = (cu\<lparr>cu_cur_segment_data := None, cu_cur_segment_disk_fd := 0,
                       cu_cur_segment_id := kNvwalInvalidDsid\<rparr>, set_os s w)
          in case e2 of None \<Rightarrow> Ok () st | Some e \<Rightarrow> Fail e st)"

text \<open>
  One attempt of the retry loop; the result says whether the segment was opened or the loop goes
  round again. \<open>env\<close> is what the flusher and the fsyncer do between the first load of
  \<open>last_synced_dsid_\<close> and the second one, while the pin is waited for.
\<close>

definition cursor_open_attempt ::
  "(world \<Rightarrow> world) \<Rightarrow> u64 \<Rightarrow> cstate \<Rightarrow> (bool, cstate) outcome" where
  "cursor_open_attempt env dsid st =
     (case st of (cu, w) \<Rightarrow>
      checked (wal_nv_control_block (w_wal w)) (\<lambda>cbp.
        let synced = (\<lambda>w. sp_last_synced_dsid (cb_fsyncer_progress (os_cblock (w_os w) cbp)));
            synced_dsid = synced w
        in if synced_dsid \<noteq> kNvwalInvalidDsid \<and> dsid \<le> synced_dsid
           then checked (nvwal_construct_disk_segment_path (w_wal w) dsid) (\<lambda>path.
             case sys_open path False False False (w_os w) of
               (Inl e, s) \<Rightarrow> Fail e (cu\<lparr>cu_cur_segment_disk_fd := - 1\<rparr>, set_os s w)
             | (Inr fd, s) \<Rightarrow>
                 c_assert (fd \<noteq> 0)
                   (let cu = cu\<lparr>cu_cur_segment_disk_fd := fd\<rparr>
                    in case sys_mmap fd s of
                         (Inl e, s) \<Rightarrow> Fail e (cu\<lparr>cu_cur_segment_data := None\<rparr>, set_os s w)
                       | (Inr p, s) \<Rightarrow> Ok True (cu\<lparr>cu_cur_segment_data := Some p\<rparr>, set_os s w)))
           else let i = unat (ucast ((dsid - 1) mod ucast (wal_segment_count (w_wal w))) :: u32);
                    w = env w
           in elem_at (wal_segments (w_wal w)) i (\<lambda>seg.
             and_then (lift_outcome (\<lambda>p st. (fst st, set_segment i (\<lambda>g. g\<lparr>sg_nv_reader_pins := p\<rparr>) (snd st)))
                         (nvwal_pin_read_unconditional_lock (sg_nv_reader_pins seg)) (cu, w)) (\<lambda>_ (cu, w).
               if synced_dsid \<noteq> synced w \<and> sg_dsid seg \<noteq> dsid
               then elem_at (wal_segments (w_wal w)) i (\<lambda>seg.
                      and_then (lift_outcome (\<lambda>p st. (fst st, set_segment i (\<lambda>g. g\<lparr>sg_nv_reader_pins := p\<rparr>) (snd st)))
                                  (nvwal_pin_read_unlock (sg_nv_reader_pins seg)) (cu, w)) (\<lambda>_ st.
                        Ok False st))
               else c_assert (sg_dsid seg = dsid)
                      (Ok True (cu\<lparr>cu_cur_segment_data := sg_nv_baseaddr seg,
                                   cu_cur_segment_from_nv_segment := True\<rparr>, w))))))"

text \<open>
  The retry loop, one attempt for each interference; after the given ones nobody interferes any more.
\<close>

fun cursor_open_loop :: "(world \<Rightarrow> world) list \<Rightarrow> u64 \<Rightarrow> cstate \<Rightarrow> (unit, cstate) outcome" where
  "cursor_open_loop [] dsid st =
     and_then (cursor_open_attempt id dsid st) (\<lambda>opened st. if opened then Ok () st else Spin st)"
| "cursor_open_loop (env # envs) dsid st =
     and_then (cursor_open_attempt env dsid st) (\<lambda>opened st.
       if opened then Ok () st else cursor_open_loop envs dsid st)"

definition cursor_open_segment :: "(world \<Rightarrow> world) list \<Rightarrow> u64 \<Rightarrow> cstate \<Rightarrow> (unit, cstate) outcome" where
  "cursor_open_segment envs dsid st =
     c_assert (dsid \<noteq> kNvwalInvalidDsid)
       (and_then (cursor_close_cur_segment st) (\<lambda>_ st.
          and_then (cursor_open_loop envs dsid st) (\<lambda>_ (cu, w).
            Ok () (cu\<lparr>cu_cur_segment_id := dsid\<rparr>, w))))"

section \<open>Fetching epoch metadata\<close>

definition cursor_epoch_of :: "u64 \<Rightarrow> MdsEpochMetadata \<Rightarrow> NvwalCursorEpochMetadata" where
  "cursor_epoch_of cur_epoch em =
     \<lparr>ce_epoch = cur_epoch, ce_start_dsid = em_from_seg_id em, ce_last_dsid = em_to_seg_id em,
      ce_start_offset = em_from_offset em, ce_end_offset = em_to_off em\<rparr>"

text \<open>The loop over the entries; \<open>n\<close> rounds are left, and the epoch after the last fetched one is returned.\<close>

fun cursor_fetch_loop ::
  "nat \<Rightarrow> u64 \<Rightarrow> u64 \<Rightarrow> MdsEpochIterator \<Rightarrow> cstate \<Rightarrow> (u64, cstate) outcome" where
  "cursor_fetch_loop 0 cur_epoch to_epoch it st = Ok cur_epoch st"
| "cursor_fetch_loop (Suc n) cur_epoch to_epoch it st =
     (case st of (cu, w) \<Rightarrow>
        c_assert (\<not> mds_epoch_iterator_done it)
        (c_assert (em_epoch_id (it_entry it) = cur_epoch)
          (let i = kNvwalCursorEpochPrefetches - Suc n;
               cu = cu\<lparr>cu_fetched_epochs := (cu_fetched_epochs cu)[i := cursor_epoch_of cur_epoch (it_entry it)],
                       cu_fetched_epochs_count := cu_fetched_epochs_count cu + 1\<rparr>;
               cur_epoch = nvwal_increment_epoch cur_epoch
           in case mds_epoch_iterator_next it w of
                Ok it w \<Rightarrow>
                  if nvwal_is_epoch_equal_or_after cur_epoch to_epoch then Ok cur_epoch (cu, w)
                  else cursor_fetch_loop n cur_epoch to_epoch it (cu, w)
              | Fail e w \<Rightarrow> Fail e (cu, w)
              | Abort \<Rightarrow> Abort
              | Spin w \<Rightarrow> Spin (cu, w))))"

definition cursor_to_epoch :: "u64 \<Rightarrow> u64 \<Rightarrow> u64 \<Rightarrow> u64" where
  "cursor_to_epoch from_epoch end_epoch durable_epoch =
     (let to_epoch = nvwal_add_epoch from_epoch (of_nat kNvwalCursorEpochPrefetches);
          to_epoch = (if nvwal_is_epoch_after to_epoch end_epoch then end_epoch else to_epoch)
      in if nvwal_is_epoch_after to_epoch durable_epoch then nvwal_increment_epoch durable_epoch
         else to_epoch)"

definition cursor_fetch_epoch_metadata :: "u64 \<Rightarrow> cstate \<Rightarrow> (unit, cstate) outcome" where
  "cursor_fetch_epoch_metadata from_epoch st =
     (case st of (cu, w) \<Rightarrow>
      c_assert (from_epoch \<noteq> kNvwalInvalidEpoch)
       (let to_epoch = cursor_to_epoch from_epoch (cu_end_epoch cu) (wal_durable_epoch (w_wal w));
            cu = cu\<lparr>cu_fetched_epochs_current := 0, cu_fetched_epochs_count := 0\<rparr>
        in if to_epoch = from_epoch then Ok () (cu, w)
           else c_assert (nvwal_is_epoch_after to_epoch from_epoch)
             (case mds_epoch_iterator_init from_epoch to_epoch w of
                Ok it w \<Rightarrow>
                  and_then (cursor_fetch_loop kNvwalCursorEpochPrefetches from_epoch to_epoch it (cu, w))
                    (\<lambda>cur_epoch (cu, w).
                      c_assert (cur_epoch = to_epoch)
                      (c_assert (cu_fetched_epochs_count cu \<le> of_nat kNvwalCursorEpochPrefetches)
                        (Ok () (cu, w))))
              | Fail e w \<Rightarrow> Fail e (cu, w)
              | Abort \<Rightarrow> Abort
              | Spin w \<Rightarrow> Spin (cu, w))))"

section \<open>Opening, advancing and closing the cursor\<close>

definition cursor_next_initial :: "(world \<Rightarrow> world) list \<Rightarrow> cstate \<Rightarrow> (unit, cstate) outcome" where
  "cursor_next_initial envs st =
     (case st of (cu, w) \<Rightarrow>
      c_assert (cu_current_epoch cu = kNvwalInvalidEpoch)
      (c_assert (cu_cur_segment_disk_fd cu = 0)
      (c_assert (cu_cur_segment_data cu = None)
        (and_then (cursor_fetch_epoch_metadata (cu_start_epoch cu)
                     (cu\<lparr>cu_current_epoch := cu_start_epoch cu\<rparr>, w)) (\<lambda>_ (cu, w).
           if cu_fetched_epochs_count cu = 0 then Ok () (cu, w)
           else elem_at (cu_fetched_epochs cu) 0 (\<lambda>meta.
             and_then (cursor_open_segment envs (ce_start_dsid meta) (cu, w)) (\<lambda>_ (cu, w).
               let cu = cu\<lparr>cu_cur_offset := ucast (ce_start_offset meta)\<rparr>
               in if ce_last_dsid meta \<noteq> ce_start_dsid meta
                  then Ok () (cu\<lparr>cu_cur_len := cf_segment_size (wal_config (w_wal w)) - cu_cur_offset cu\<rparr>, w)
                  else c_assert (ucast (ce_end_offset meta) \<ge> cu_cur_offset cu)
                    (Ok () (cu\<lparr>cu_cur_len := ucast (ce_end_offset meta) - cu_cur_offset cu\<rparr>, w)))))))))"

definition nvwal_close_log_cursor :: "cstate \<Rightarrow> (unit, cstate) outcome" where
  "nvwal_close_log_cursor st =
     (case cursor_close_cur_segment st of
        Ok _ (cu, w) \<Rightarrow> Ok () (zero_cursor, w)
      | Fail e (cu, w) \<Rightarrow> Fail e (zero_cursor, w)
      | r \<Rightarrow> r)"

definition nvwal_open_log_cursor ::
  "(world \<Rightarrow> world) list \<Rightarrow> u64 \<Rightarrow> u64 \<Rightarrow> world \<Rightarrow> (unit, cstate) outcome" where
  "nvwal_open_log_cursor envs begin_epoch end_epoch w =
     (let cu = zero_cursor\<lparr>cu_start_epoch := begin_epoch, cu_end_epoch := end_epoch\<rparr>
      in if nvwal_is_epoch_equal_or_after begin_epoch end_epoch then Ok () (cu, w)
         else case cursor_next_initial envs (cu, w) of
                Fail e st \<Rightarrow> and_then (ignore_error (nvwal_close_log_cursor st)) (\<lambda>_ st. Fail e st)
              | r \<Rightarrow> r)"

text \<open>
  Advancing. The region after a segment is opened or an epoch is begun: to the end of the segment, or
  of the epoch if the segment is the epoch's last one.
\<close>

definition cursor_set_len :: "NvwalCursorEpochMetadata \<Rightarrow> cstate \<Rightarrow> cstate" where
  "cursor_set_len meta st =
     (case st of (cu, w) \<Rightarrow>
        if ce_last_dsid meta \<noteq> cu_cur_segment_id cu
        then (cu\<lparr>cu_cur_len := cf_segment_size (wal_config (w_wal w)) - cu_cur_offset cu\<rparr>, w)
        else (cu\<lparr>cu_cur_len := ucast (ce_end_offset meta) - cu_cur_offset cu\<rparr>, w))"

definition cursor_next_epoch :: "cstate \<Rightarrow> (unit, cstate) outcome" where
  "cursor_next_epoch st =
     (case st of (cu, w) \<Rightarrow>
      let cu = cu\<lparr>cu_current_epoch := nvwal_increment_epoch (cu_current_epoch cu),
                  cu_fetched_epochs_current := cu_fetched_epochs_current cu + 1\<rparr>
      in and_then
           (if cu_fetched_epochs_current cu < cu_fetched_epochs_count cu then Ok True (cu, w)
            else and_then (cursor_fetch_epoch_metadata (cu_current_epoch cu) (cu, w)) (\<lambda>_ (cu, w).
                   c_assert (cu_fetched_epochs_current cu = 0)
                     (if cu_fetched_epochs_count cu = 0
                      then and_then (cursor_close_cur_segment (cu, w)) (\<lambda>_ st. Ok False st)
                      else Ok True (cu, w))))
           (\<lambda>more (cu, w).
              if \<not> more then Ok () (cu, w)
              else elem_at (cu_fetched_epochs cu) (unat (cu_fetched_epochs_current cu)) (\<lambda>meta.
                c_assert (ce_epoch meta = cu_current_epoch cu)
                  (Ok () (cursor_set_len meta (cu\<lparr>cu_cur_offset := ucast (ce_start_offset meta)\<rparr>, w))))))"

text \<open>
  The source calls itself again when the epoch ends exactly at the end of a segment; each such call
  comes after a move to the next segment, and fuel bounds their number.
\<close>

fun cursor_next_loop :: "nat \<Rightarrow> (world \<Rightarrow> world) list \<Rightarrow> cstate \<Rightarrow> (unit, cstate) outcome" where
  "cursor_next_loop 0 envs st = Spin st"
| "cursor_next_loop (Suc fuel) envs st =
     (case st of (cu, w) \<Rightarrow>
      c_assert (nvwal_cursor_is_valid cu)
      (c_assert (cu_fetched_epochs_current cu < cu_fetched_epochs_count cu)
        (elem_at (cu_fetched_epochs cu) (unat (cu_fetched_epochs_current cu)) (\<lambda>meta.
          c_assert (ce_epoch meta = cu_current_epoch cu)
           (if ce_last_dsid meta = cu_cur_segment_id cu
            then c_assert (ucast (ce_end_offset meta) = cu_cur_offset cu + cu_cur_len cu)
                   (cursor_next_epoch (cu, w))
            else and_then (cursor_open_segment envs (cu_cur_segment_id cu + 1) (cu, w)) (\<lambda>_ (cu, w).
                   let cu = cu\<lparr>cu_cur_offset := 0\<rparr>
                   in if ce_end_offset meta = 0
                      then cursor_next_loop fuel envs (cu\<lparr>cu_cur_len := 0\<rparr>, w)
                      else Ok () (cursor_set_len meta (cu, w))))))))"

definition nvwal_cursor_next :: "(world \<Rightarrow> world) list \<Rightarrow> cstate \<Rightarrow> (unit, cstate) outcome" where
  "nvwal_cursor_next envs st =
     (case st of (cu, w) \<Rightarrow>
        let meta = cu_fetched_epochs cu ! unat (cu_fetched_epochs_current cu)
        in cursor_next_loop (unat (ce_last_dsid meta - cu_cur_segment_id cu) + 1) envs st)"

end
