(* ===== verification/Ring.thy ===== *)
theory Ring
  imports Util
begin

text \<open>
  Ring buffers as windows of an unbounded sequence of bytes: the byte at position \<open>p\<close> of the sequence is
  at offset \<open>p mod B\<close> of a buffer of \<open>B\<close> bytes. Reading and storing with the circular copies of
  \<open>Util\<close> are reading and extending the sequence.
\<close>

section \<open>Positions and offsets\<close>

lemma mod_window:
  fixes h t B :: nat
  assumes "h \<le> t" "t < h + B"
  shows "h mod B = t mod B \<longleftrightarrow> h = t"
    and "h mod B < t mod B \<Longrightarrow> t mod B - h mod B = t - h"
    and "t mod B < h mod B \<Longrightarrow> t mod B + B - h mod B = t - h"
proof -
  define d hm tm where defs: "d = t - h" "hm = h mod B" "tm = t mod B"
  have d: "t = h + d" "d < B" using assms by (auto simp: defs)
  then have hm: "hm < B" by (simp add: defs)
  have "tm = (hm + d) mod B" unfolding defs(2,3) d(1) by (simp add: mod_add_left_eq)
  then have "tm = hm + d \<and> hm + d < B \<or> tm + B = hm + d" using hm d(2) by (auto simp: mod_if)
  then show "h mod B = t mod B \<longleftrightarrow> h = t" "h mod B < t mod B \<Longrightarrow> t mod B - h mod B = t - h"
    "t mod B < h mod B \<Longrightarrow> t mod B + B - h mod B = t - h"
    unfolding defs(2,3) [symmetric] using hm d by auto
qed

lemma unat_of_nat_mod: "0 < B \<Longrightarrow> B < 2 ^ 62 \<Longrightarrow> unat (of_nat (p mod B) :: u64) = p mod B"
proof -
  assume B: "0 < B" "B < 2 ^ 62"
  have "p mod B < B" "B < 2 ^ 64" using B by simp_all
  then have "p mod B < 2 ^ 64" by (rule less_trans)
  then show ?thesis by (rule unat_of_nat_small)
qed

section \<open>The ring\<close>

text \<open>The buffer holds the bytes of the sequence from position \<open>lo\<close> on.\<close>

definition ring_holds :: "byte list \<Rightarrow> nat \<Rightarrow> byte list \<Rightarrow> bool" where
  "ring_holds buf lo sent \<longleftrightarrow>
     lo \<le> length sent \<and> length sent \<le> lo + length buf \<and>
     (\<forall>p. lo \<le> p \<and> p < length sent \<longrightarrow> buf ! (p mod length buf) = sent ! p)"

lemma mod_add_small: "a < B \<Longrightarrow> b < B \<Longrightarrow> (a + b) mod B = (if a + b < B then a + b else a + b - B)" for a b B :: nat
  by (simp add: mod_if)

lemma nth_circular_read:
  assumes "off < length buf" "n \<le> length buf" "i < n"
  shows "circular_read buf off n ! i = buf ! ((off + i) mod length buf)"
proof (cases "off + i < length buf")
  case True
  then have "i < length buf - off" by simp
  with True assms show ?thesis by (simp add: circular_read_def nth_append)
next
  case False
  then have "(off + i) mod length buf = off + i - length buf"
    using assms by (simp add: mod_if)
  moreover have "\<not> i < length buf - off" "i - (length buf - off) = off + i - length buf" using False assms by auto
  ultimately show ?thesis using assms by (simp add: circular_read_def nth_append)
qed

lemma ring_read:
  assumes "ring_holds buf lo sent" "lo \<le> h" "h + n \<le> length sent" "buf \<noteq> []"
  shows "circular_read buf (h mod length buf) n = take n (drop h sent)"
proof (rule nth_equalityI)
  have B: "h mod length buf < length buf" "n \<le> length buf"
    using assms by (auto simp: ring_holds_def)
  then show "length (circular_read buf (h mod length buf) n) = length (take n (drop h sent))"
    using assms(3) by simp
  fix i assume "i < length (circular_read buf (h mod length buf) n)"
  then have i: "i < n" using B by simp
  then have "circular_read buf (h mod length buf) n ! i = buf ! ((h + i) mod length buf)"
    using B by (simp add: nth_circular_read mod_add_left_eq)
  also have "\<dots> = sent ! (h + i)" using assms i by (simp add: ring_holds_def)
  finally show "circular_read buf (h mod length buf) n ! i = take n (drop h sent) ! i"
    using assms(3) i by simp
qed

text \<open>
  \<open>nvwal_circular_dest_memcpy\<close> byte by byte: the bytes at the offset and after it, in circular order,
  are replaced, the others are kept.
\<close>

lemma circular_dest_nth:
  assumes "length buf = unat sz" "off < sz" "n \<le> sz" "unat sz < 2 ^ 63" "length bs = unat n"
  shows "\<exists>buf'. nvwal_circular_dest_memcpy buf sz off bs n = Some buf' \<and> length buf' = length buf \<and>
           (\<forall>i < length buf. buf' ! ((unat off + i) mod length buf)
              = (if i < length bs then bs ! i else buf ! ((unat off + i) mod length buf)))"
proof -
  have le: "unat off < unat sz" "unat n \<le> unat sz" "off \<le> sz"
    using assms(2,3) by (simp_all add: word_le_nat_alt word_less_nat_alt)
  have sum: "unat (off + n) = unat off + unat n"
    using le assms(4) by (intro unat_plus_no_wrap) simp
  have wrap: "sz \<le> off + n \<longleftrightarrow> unat sz \<le> unat off + unat n"
    by (simp add: word_le_nat_alt sum)
  have bytes: "unat (sz - off) = unat sz - unat off" using le(3) by (rule unat_minus_le)
  have md: "(unat off + i) mod length buf = (if unat off + i < length buf then unat off + i else unat off + i - length buf)"
    if "i < length buf" for i using that le assms(1) mod_add_small [of "unat off" "length buf" i] by simp
  show ?thesis
  proof (cases "sz \<le> off + n")
    case False
    then have lt: "unat off + length bs \<le> length buf" using wrap assms(1,5) by simp
    have "nvwal_circular_dest_memcpy buf sz off bs n = Some (mem_write buf (unat off) bs)"
      using False le assms(3,5) by (simp add: nvwal_circular_dest_memcpy_def mem_read_def)
    moreover have "length (mem_write buf (unat off) bs) = length buf" using lt by (simp add: mem_simps)
    moreover have "mem_write buf (unat off) bs ! ((unat off + i) mod length buf)
        = (if i < length bs then bs ! i else buf ! ((unat off + i) mod length buf))" if "i < length buf" for i
      using nth_mem_write [OF lt, of "(unat off + i) mod length buf"] lt that md [OF that] by auto
    ultimately show ?thesis by blast
  next
    case True
    then have w: "unat sz \<le> unat off + unat n" using wrap by simp
    then have "sz - off \<le> n" using bytes by (simp add: word_le_nat_alt)
    then have rest: "unat (n - (sz - off)) = unat n - (unat sz - unat off)"
      by (simp add: unat_minus_le bytes)
    let ?k = "length buf - unat off"
    let ?m = "mem_write buf (unat off) (take ?k bs)"
    have nz: "sz - off \<noteq> 0" using bytes le(1) by auto
    have dst: "nvwal_circular_dest_memcpy buf sz off bs n = Some (mem_write ?m 0 (drop ?k bs))"
      using True le assms(1,3,5) nz
      by (simp add: nvwal_circular_dest_memcpy_def Let_def mem_read_def bytes rest)
    have len: "length ?m = length buf" "length (mem_write ?m 0 (drop ?k bs)) = length buf"
      using le w assms(1,5) by (simp_all add: mem_simps)
    have "mem_write ?m 0 (drop ?k bs) ! ((unat off + i) mod length buf)
        = (if i < length bs then bs ! i else buf ! ((unat off + i) mod length buf))" if i: "i < length buf" for i
    proof (cases "unat off + i < length buf")
      case True
      have "length (drop ?k bs) \<le> unat off" "length (drop ?k bs) \<le> length ?m"
        using le w assms(1,5) len by simp_all
      then have "mem_write ?m 0 (drop ?k bs) ! (unat off + i) = ?m ! (unat off + i)"
        using True nth_mem_write [of 0 "drop ?k bs" ?m "unat off + i"] len(1) by (simp del: length_drop)
      also have "\<dots> = bs ! i"
        using True nth_mem_write [of "unat off" "take ?k bs" buf "unat off + i"] le w assms(1,5) by simp
      finally show ?thesis using True w le assms(1,5) md [OF i] by simp
    next
      case False
      let ?j = "unat off + i - length buf"
      have j: "?j = i - ?k" "?k \<le> i" "?j < unat off" using False i le assms(1) by simp_all
      have "mem_write ?m 0 (drop ?k bs) ! ?j = (if ?j < length bs - ?k then drop ?k bs ! ?j else ?m ! ?j)"
        using nth_mem_write [of 0 "drop ?k bs" ?m ?j] le w assms(1,5) len j(3) by simp
      moreover have "?m ! ?j = buf ! ?j"
        using nth_mem_write [of "unat off" "take ?k bs" buf ?j] le w assms(1,5) j(3) by simp
      moreover have "?j < length bs - ?k \<longleftrightarrow> i < length bs" "?k \<le> length bs" using j w le assms(1,5) by auto
      ultimately show ?thesis using False j md [OF i] by simp
    qed
    with dst len show ?thesis by blast
  qed
qed

text \<open>Storing at the end of the sequence, in the free part of the buffer.\<close>

lemma ring_store:
  assumes ring: "ring_holds buf lo sent" and room: "length sent + length bs \<le> lo + length buf"
    and sz: "length buf = unat sz" "0 < unat sz" "unat sz < 2 ^ 62" and n: "length bs = unat n"
  shows "\<exists>buf'. nvwal_circular_dest_memcpy buf sz (of_nat (length sent mod length buf)) bs n = Some buf' \<and>
           length buf' = length buf \<and> ring_holds buf' lo (sent @ bs)"
proof -
  let ?off = "length sent mod length buf"
  have off: "?off < length buf" "unat (of_nat ?off :: u64) = ?off"
  proof -
    show lt: "?off < length buf" using sz by simp
    have "length buf < 2 ^ 64" using sz by simp
    with lt have "?off < 2 ^ 64" by (rule less_trans)
    then show "unat (of_nat ?off :: u64) = ?off" by (rule unat_of_nat_small)
  qed
  have "length bs \<le> length buf" using ring room by (simp add: ring_holds_def)
  then have "of_nat ?off < sz" "n \<le> sz"
    using off sz n by (simp_all add: word_less_nat_alt word_le_nat_alt)
  then obtain buf' where b: "nvwal_circular_dest_memcpy buf sz (of_nat ?off) bs n = Some buf'" "length buf' = length buf"
      "\<And>i. i < length buf \<Longrightarrow> buf' ! ((?off + i) mod length buf)
              = (if i < length bs then bs ! i else buf ! ((?off + i) mod length buf))"
    using circular_dest_nth [of buf sz "of_nat ?off" n bs] sz n off(2) by auto
  have "buf' ! (p mod length buf) = (sent @ bs) ! p" if p: "lo \<le> p" "p < length (sent @ bs)" for p
  proof (cases "p < length sent")
    case True
    let ?i = "p + length buf - length sent"
    have i: "?i < length buf" "length bs \<le> ?i" using True p room ring by (auto simp: ring_holds_def)
    have "(?off + ?i) mod length buf = (length sent + ?i) mod length buf" by (simp add: mod_add_left_eq)
    also have "\<dots> = (p + length buf) mod length buf" using True ring p by (simp add: ring_holds_def)
    finally have "(?off + ?i) mod length buf = p mod length buf" by simp
    with b(3) [OF i(1)] i(2) True p(1) ring show ?thesis by (simp add: ring_holds_def nth_append)
  next
    case False
    let ?i = "p - length sent"
    have i: "?i < length bs" "?i < length buf" using False p \<open>length bs \<le> length buf\<close> by auto
    have "(?off + ?i) mod length buf = (length sent + ?i) mod length buf" by (simp add: mod_add_left_eq)
    then have "(?off + ?i) mod length buf = p mod length buf" using False by simp
    with b(3) [OF i(2)] i(1) False show ?thesis by (simp add: nth_append)
  qed
  with b(1,2) ring room show ?thesis by (auto simp: ring_holds_def)
qed

end
