(* ===== verification/Writer_Correct.thy ===== *)
theory Writer_Correct
  imports Writer Ring
begin

text \<open>
  What a writer promises. Seen from outside, a writer is the sequence of all bytes its client logged,
  cut into consecutive pieces, one per epoch; the circular buffer holds the end of the sequence that
  is not flushed yet, and the epoch frames mark the pieces. Positions in the sequence do not wrap
  around, offsets in the buffer are positions modulo the size of the buffer.
\<close>

section \<open>Frames by age\<close>

text \<open>The frames from the oldest to the active one.\<close>

definition frames_by_age :: "NvwalWriterContext \<Rightarrow> NvwalWriterEpochFrame list" where
  "frames_by_age wr = rotate (Suc (unat (wr_active_frame wr))) (wr_epoch_frames wr)"

definition frames_shape :: "NvwalWriterContext \<Rightarrow> bool" where
  "frames_shape wr \<longleftrightarrow> length (wr_epoch_frames wr) = kNvwalEpochFrameCount \<and> unat (wr_active_frame wr) < kNvwalEpochFrameCount"

lemma length_frames_by_age [simp]: "length (frames_by_age wr) = length (wr_epoch_frames wr)"
  by (simp add: frames_by_age_def)

lemma less_5_cases: "n < (5 :: nat) \<longleftrightarrow> n = 0 \<or> n = 1 \<or> n = 2 \<or> n = 3 \<or> n = 4"
  by auto

lemma rotate_Suc_split: "a < length xs \<Longrightarrow> rotate (Suc a) xs = drop (Suc a) xs @ take a xs @ [xs ! a]"
  using take_Suc_conv_app_nth [of a xs]
  by (cases "Suc a = length xs") (auto simp: rotate_drop_take simp del: rotate_Suc)

lemma frames_by_age_split:
  assumes "frames_shape wr" "a = unat (wr_active_frame wr)" "fs = wr_epoch_frames wr"
  shows "frames_by_age wr = drop (Suc a) fs @ take a fs @ [fs ! a]"
  using assms by (simp add: frames_shape_def frames_by_age_def rotate_Suc_split del: rotate_Suc)

lemma frames_by_age_last:
  assumes "frames_shape wr"
  shows "last (frames_by_age wr) = wr_epoch_frames wr ! unat (wr_active_frame wr)"
  using frames_by_age_split [OF assms refl refl] by simp

lemma frames_shape_set_frame [simp]: "frames_shape (set_frame i g wr) = frames_shape wr"
  by (simp add: frames_shape_def set_frame_def)

lemma set_frame_simps [simp]:
  "wr_buffer (set_frame i g wr) = wr_buffer wr"
  "wr_last_tail_offset (set_frame i g wr) = wr_last_tail_offset wr"
  "wr_active_frame (set_frame i g wr) = wr_active_frame wr"
  "wr_writer_seq_id (set_frame i g wr) = wr_writer_seq_id wr"
  "length (wr_epoch_frames (set_frame i g wr)) = length (wr_epoch_frames wr)"
  by (simp_all add: set_frame_def)

lemma frames_by_age_update:
  assumes "frames_shape wr"
  shows "frames_by_age (set_frame (unat (wr_active_frame wr)) g wr)
           = butlast (frames_by_age wr) @ [g (last (frames_by_age wr))]"
  using frames_by_age_split [OF assms refl refl] assms
    frames_by_age_split [of "set_frame (unat (wr_active_frame wr)) g wr", OF _ refl refl]
  by (simp add: set_frame_def frames_shape_def butlast_append)

lemma wrap_next_frame:
  assumes "unat a < 5"
  shows "wrap_writer_epoch_frame (a + 1) = Some (of_nat (Suc (unat a) mod 5))"
    "unat (of_nat (Suc (unat a) mod 5) :: u32) = Suc (unat a) mod 5"
proof -
  have "unat a \<in> {unat (0 :: u32), unat (1 :: u32), unat (2 :: u32), unat (3 :: u32), unat (4 :: u32)}"
    using assms by (auto simp: less_5_cases)
  then have "a \<in> {0, 1, 2, 3, 4}" by (simp only: insert_iff empty_iff unat_eq_u32)
  then show "wrap_writer_epoch_frame (a + 1) = Some (of_nat (Suc (unat a) mod 5))"
    by (auto simp: wrap_writer_epoch_frame_def)
  have "Suc (unat a) mod 5 < 5" by simp
  then show "unat (of_nat (Suc (unat a) mod 5) :: u32) = Suc (unat a) mod 5"
    by (simp add: unat_of_nat take_bit_eq_mod)
qed

lemma frames_by_age_next:
  assumes sh: "frames_shape wr" and b: "unat b = Suc (unat (wr_active_frame wr)) mod 5"
  shows "frames_by_age (set_frame (unat b) g (wr\<lparr>wr_active_frame := b\<rparr>))
           = tl (frames_by_age wr) @ [g (hd (frames_by_age wr))]"
proof -
  let ?fs = "wr_epoch_frames wr" and ?a = "unat (wr_active_frame wr)" and ?b = "unat b"
  let ?w = "set_frame ?b g (wr\<lparr>wr_active_frame := b\<rparr>)"
  have len: "length ?fs = 5" "?a < 5" using sh by (auto simp: frames_shape_def)
  have "?b < 5" using b by simp
  then have "frames_shape ?w" using len by (simp add: frames_shape_def set_frame_def)
  then have new: "frames_by_age ?w = drop (Suc ?b) ?fs @ take ?b ?fs @ [g (?fs ! ?b)]"
    using frames_by_age_split [OF _ refl refl, of ?w] len \<open>?b < 5\<close> by (simp add: set_frame_def)
  have old: "frames_by_age wr = drop (Suc ?a) ?fs @ take ?a ?fs @ [?fs ! ?a]"
    using frames_by_age_split [OF sh refl refl] .
  show ?thesis
  proof (cases "Suc ?a < 5")
    case True
    then have "?b = Suc ?a" using b by simp
    moreover have "drop (Suc ?a) ?fs = ?fs ! Suc ?a # drop (Suc (Suc ?a)) ?fs"
      using True len by (simp add: Cons_nth_drop_Suc)
    moreover have "take (Suc ?a) ?fs = take ?a ?fs @ [?fs ! ?a]" using len by (simp add: take_Suc_conv_app_nth)
    ultimately show ?thesis using new old by simp
  next
    case False
    then have "?a = 4" using len by simp
    then have a: "?a = 4" "?b = 0" using b by simp_all
    moreover have "take 4 ?fs @ [?fs ! 4] = ?fs"
      using len take_Suc_conv_app_nth [of 4 ?fs] by simp
    moreover have "drop 5 ?fs = []" "?fs \<noteq> []" using len by auto
    ultimately show ?thesis using new old by (cases ?fs) (simp_all del: drop_Cons_numeral)
  qed
qed

section \<open>The sequence of logged bytes\<close>

text \<open>
  The piece of the sequence a frame stands for: the rank of its epoch and the positions of its first
  byte that is not flushed and of its end.
\<close>

record piece =
  pc_rank :: nat
  pc_head :: nat
  pc_tail :: nat

definition buffer_size :: "NvwalContext \<Rightarrow> nat" where
  "buffer_size wal = unat (cf_writer_buffer_size (wal_config wal))"

definition frame_marks :: "nat \<Rightarrow> piece \<Rightarrow> NvwalWriterEpochFrame \<Rightarrow> bool" where
  "frame_marks B v f \<longleftrightarrow>
     fr_log_epoch f = epoch_at (pc_rank v) \<and> fr_head_offset f = of_nat (pc_head v mod B) \<and>
     fr_tail_offset f = of_nat (pc_tail v mod B)"

text \<open>The youngest frames mark the pieces, the others are unused.\<close>

definition frames_mark :: "nat \<Rightarrow> piece list \<Rightarrow> NvwalWriterEpochFrame list \<Rightarrow> bool" where
  "frames_mark B vs fs \<longleftrightarrow>
     length vs \<le> length fs \<and> list_all2 (frame_marks B) vs (drop (length fs - length vs) fs) \<and>
     (\<forall>f \<in> set (take (length fs - length vs) fs). fr_log_epoch f = kNvwalInvalidEpoch)"

text \<open>
  Pieces of increasing epochs, oldest first, the last one ending where the sequence ends. A piece is
  shorter than the buffer, so that its length can be told from its offsets.
\<close>

definition pieces_ok :: "nat \<Rightarrow> byte list \<Rightarrow> piece list \<Rightarrow> bool" where
  "pieces_ok B sent vs \<longleftrightarrow>
     length vs \<le> kNvwalEpochFrameCount \<and>
     sorted_wrt (\<lambda>u v. pc_rank u < pc_rank v \<and> pc_tail u \<le> pc_head v) vs \<and>
     (\<forall>v \<in> set vs. 0 < pc_rank v \<and> pc_head v \<le> pc_tail v \<and> pc_tail v < pc_head v + B \<and> pc_tail v \<le> length sent) \<and>
     (vs \<noteq> [] \<longrightarrow> pc_tail (last vs) = length sent)"

definition writer_repr :: "NvwalContext \<Rightarrow> NvwalWriterContext \<Rightarrow> byte list \<Rightarrow> piece list \<Rightarrow> nat \<Rightarrow> bool" where
  "writer_repr wal wr sent vs lo \<longleftrightarrow>
     frames_shape wr \<and> 0 < buffer_size wal \<and> buffer_size wal < 2 ^ 62 \<and>
     length (wr_buffer wr) = buffer_size wal \<and> pieces_ok (buffer_size wal) sent vs \<and>
     frames_mark (buffer_size wal) vs (frames_by_age wr) \<and>
     wr_last_tail_offset wr = of_nat (length sent mod buffer_size wal) \<and>
     ring_holds (wr_buffer wr) lo sent \<and>
     (\<forall>v \<in> set vs. pc_head v < pc_tail v \<longrightarrow> lo \<le> pc_head v)"

text \<open>The bytes of a piece.\<close>

definition piece_bytes :: "byte list \<Rightarrow> piece \<Rightarrow> byte list" where
  "piece_bytes sent v = take (pc_tail v - pc_head v) (drop (pc_head v) sent)"

subsection \<open>Frames and pieces\<close>

lemma frames_mark_last:
  assumes "frames_mark B vs fs" "vs \<noteq> []"
  shows "frame_marks B (last vs) (last fs)"
proof -
  let ?gs = "drop (length fs - length vs) fs"
  have l: "list_all2 (frame_marks B) vs ?gs" "length ?gs = length vs"
    using assms(1) by (auto simp: frames_mark_def)
  then have "?gs \<noteq> []" using assms(2) by (metis length_0_conv)
  then have "last fs = ?gs ! (length vs - 1)" using l(2) by (metis last_conv_nth last_drop drop_eq_Nil2 linorder_not_less)
  moreover have "last vs = vs ! (length vs - 1)" using assms(2) by (rule last_conv_nth)
  ultimately show ?thesis using l(1) assms(2) by (simp add: list_all2_conv_all_nth)
qed

lemma frames_mark_update:
  assumes "frames_mark B vs fs" "vs \<noteq> []" "frame_marks B v f"
  shows "frames_mark B (butlast vs @ [v]) (butlast fs @ [f])"
proof -
  let ?k = "length fs - length vs"
  have len: "length vs \<le> length fs" "0 < length vs" "0 < length fs" using assms by (auto simp: frames_mark_def)
  have "list_all2 (frame_marks B) (butlast vs) (butlast (drop ?k fs))"
    using assms(1) by (auto simp: frames_mark_def list_all2_conv_all_nth nth_butlast)
  moreover have "butlast (drop ?k fs) = drop ?k (butlast fs)"
  proof -
    have "length fs - Suc (length fs - length vs) + (length fs - length vs) = length fs - Suc 0" using len by linarith
    then show ?thesis by (simp add: butlast_conv_take take_drop)
  qed
  moreover have k: "?k \<le> length fs - 1" using len by linarith
  then have "drop ?k (butlast fs @ [f]) = drop ?k (butlast fs) @ [f]" "take ?k (butlast fs @ [f]) = take ?k fs"
    by (simp_all add: butlast_conv_take min_absorb1)
  moreover have "length (butlast vs @ [v]) = length vs" "length (butlast fs @ [f]) = length fs" using len by simp_all
  ultimately show ?thesis using assms unfolding frames_mark_def by (simp add: list_all2_appendI)
qed

lemma frames_mark_first:
  assumes "frames_mark B [] fs" "fs \<noteq> []" "frame_marks B v f"
  shows "frames_mark B [v] (butlast fs @ [f])"
  using assms by (cases fs) (auto simp: frames_mark_def dest: in_set_butlastD split: if_splits)

lemma frames_mark_push:
  assumes "frames_mark B vs fs" "length vs < length fs" "frame_marks B v f"
  shows "frames_mark B (vs @ [v]) (tl fs @ [f])"
proof -
  obtain g gs where fs: "fs = g # gs" using assms(2) by (cases fs) auto
  let ?k = "length gs - length vs"
  have "drop (length fs - length vs) fs = drop ?k gs" "take (length fs - length vs) fs = g # take ?k gs"
    using fs assms(2) by (simp_all add: Suc_diff_le)
  then show ?thesis using assms fs by (simp add: frames_mark_def list_all2_appendI)
qed

lemma frames_mark_shift:
  assumes "frames_mark B vs fs" "length vs = length fs" "frame_marks B v f" "vs \<noteq> []"
  shows "frames_mark B (tl vs @ [v]) (tl fs @ [f])"
  using assms by (cases vs; cases fs) (auto simp: frames_mark_def intro: list_all2_appendI)

subsection \<open>Offsets\<close>

lemma offset_distance:
  assumes B: "B = buffer_size wal" "0 < B" "B < 2 ^ 62" and ht: "h \<le> t" "t < h + B"
  shows "calculate_writer_offset_distance wal (of_nat (h mod B)) (of_nat (t mod B)) = of_nat (t - h)"
proof -
  note u = unat_of_nat_mod [OF B(2,3)]
  have lt: "h mod B < B" "t mod B < B" "t - h < 2 ^ 64" using B ht by auto
  have le: "(of_nat (h mod B) :: u64) = of_nat (t mod B) \<longleftrightarrow> h mod B = t mod B"
    "(of_nat (h mod B) :: u64) < of_nat (t mod B) \<longleftrightarrow> h mod B < t mod B"
    using u [of h] u [of t] by (auto simp: word_less_nat_alt simp flip: unat_eq_u64)
  have sz: "unat (cf_writer_buffer_size (wal_config wal)) = B" using B(1) by (simp add: buffer_size_def)
  have "unat (calculate_writer_offset_distance wal (of_nat (h mod B)) (of_nat (t mod B))) = t - h"
  proof (cases "h mod B = t mod B")
    case True
    then show ?thesis using mod_window(1) [OF ht] le by (simp add: calculate_writer_offset_distance_def)
  next
    case ne: False
    show ?thesis
    proof (cases "h mod B < t mod B")
      case True
      then show ?thesis
        using mod_window(2) [OF ht True] le ne u [of h] u [of t] unat_minus_le [of "of_nat (h mod B)" "of_nat (t mod B)"]
        by (simp add: calculate_writer_offset_distance_def word_le_nat_alt)
    next
      case False
      have "2 * B < 2 ^ 64" using B by simp
      with lt have "t mod B + B < 2 ^ 64" by linarith
      then have s: "unat (of_nat (t mod B) + cf_writer_buffer_size (wal_config wal)) = t mod B + B"
        using unat_plus_no_wrap [of "of_nat (t mod B)" "cf_writer_buffer_size (wal_config wal)"] sz u [of t] by simp
      moreover have "h mod B \<le> t mod B + B" using lt by linarith
      ultimately show ?thesis
        using mod_window(3) [OF ht] le ne False u [of h]
          unat_minus_le [of "of_nat (h mod B)" "of_nat (t mod B) + cf_writer_buffer_size (wal_config wal)"]
        by (simp add: calculate_writer_offset_distance_def word_le_nat_alt)
    qed
  qed
  then show ?thesis using unat_of_nat_small [OF lt(3)] by (simp only: unat_eq_u64 [symmetric])
qed

lemma offset_wrap:
  assumes B: "B = buffer_size wal" "0 < B" "B < 2 ^ 62" and n: "unat n < B"
  shows "wrap_writer_offset wal (of_nat (t mod B) + n) = Some (of_nat ((t + unat n) mod B))"
proof -
  have lt: "t mod B < B" using B by simp
  have sz: "unat (cf_writer_buffer_size (wal_config wal)) = B" using B(1) by (simp add: buffer_size_def)
  have "2 * B < 2 ^ 64" using B by simp
  with lt n have "t mod B + unat n < 2 ^ 64" by linarith
  then have s: "unat (of_nat (t mod B) + n) = t mod B + unat n"
    using unat_plus_no_wrap [of "of_nat (t mod B)" n] unat_of_nat_mod [OF B(2,3), of t] by simp
  have d: "unat (cf_writer_buffer_size (wal_config wal) * 2) = B * 2"
    using sz B by (simp add: unat_word_ariths)
  have m: "(t + unat n) mod B = (if t mod B + unat n < B then t mod B + unat n else t mod B + unat n - B)"
    using mod_add_small [OF lt n] by (simp add: mod_add_left_eq)
  have "t mod B + unat n < B * 2" using lt n by linarith
  then have 1: "of_nat (t mod B) + n < cf_writer_buffer_size (wal_config wal) * 2"
    using s d by (simp add: word_less_nat_alt)
  have 2: "of_nat (t mod B) + n < cf_writer_buffer_size (wal_config wal) \<longleftrightarrow> t mod B + unat n < B"
    using s sz by (simp add: word_less_nat_alt)
  show ?thesis
  proof (cases "t mod B + unat n < B")
    case True
    then show ?thesis using 1 2 m by (simp add: wrap_writer_offset_def Let_def)
  next
    case False
    then have "cf_writer_buffer_size (wal_config wal) \<le> of_nat (t mod B) + n"
      using s sz by (simp add: word_le_nat_alt)
    then have "unat (of_nat (t mod B) + n - cf_writer_buffer_size (wal_config wal)) = (t + unat n) mod B"
      using False m s sz by (simp add: unat_minus_le)
    then have "of_nat (t mod B) + n - cf_writer_buffer_size (wal_config wal) = (of_nat ((t + unat n) mod B) :: u64)"
      using unat_of_nat_mod [OF B(2,3), of "t + unat n"] by (simp only: unat_eq_u64 [symmetric])
    then show ?thesis using 1 2 False by (simp add: wrap_writer_offset_def Let_def)
  qed
qed

section \<open>Logging\<close>

text \<open>The pieces after \<open>n\<close> bytes of the epoch of rank \<open>e\<close> were logged at position \<open>p\<close>.\<close>

definition log_piece :: "nat \<Rightarrow> nat \<Rightarrow> nat \<Rightarrow> piece list \<Rightarrow> piece list" where
  "log_piece e p n vs =
     (if vs \<noteq> [] \<and> pc_rank (last vs) = e then butlast vs @ [(last vs)\<lparr>pc_tail := p + n\<rparr>]
      else (if length vs = kNvwalEpochFrameCount then tl vs else vs)
           @ [\<lparr>pc_rank = e, pc_head = p, pc_tail = p + n\<rparr>])"

lemma sorted_wrt_snoc:
  "sorted_wrt R (xs @ [x]) \<longleftrightarrow> sorted_wrt R xs \<and> (\<forall>y \<in> set xs. R y x)"
  by (auto simp: sorted_wrt_append)

lemma pieces_last:
  assumes "pieces_ok B sent vs" "vs \<noteq> []"
  shows "pc_tail (last vs) = length sent" "pc_head (last vs) \<le> length sent"
proof -
  show t: "pc_tail (last vs) = length sent" using assms by (simp add: pieces_ok_def)
  have "last vs \<in> set vs" using assms(2) by simp
  then have "pc_head (last vs) \<le> pc_tail (last vs)" using assms(1) by (simp only: pieces_ok_def)
  then show "pc_head (last vs) \<le> length sent" by (simp only: t)
qed

lemma pieces_log:
  assumes ok: "pieces_ok B sent vs" and e: "0 < e" "vs \<noteq> [] \<Longrightarrow> pc_rank (last vs) \<le> e"
    and n: "vs \<noteq> [] \<Longrightarrow> pc_rank (last vs) = e \<Longrightarrow> length sent + length bs < pc_head (last vs) + B"
      "length bs < B"
  shows "pieces_ok B (sent @ bs) (log_piece e (length sent) (length bs) vs)"
proof (cases "vs = []")
  case True
  with e n show ?thesis by (simp add: log_piece_def pieces_ok_def)
next
  case ne: False
  obtain us v where vs: "vs = us @ [v]" using ne by (metis append_butlast_last_id)
  have b: "length us \<le> 4" "sorted_wrt (\<lambda>u v. pc_rank u < pc_rank v \<and> pc_tail u \<le> pc_head v) us"
    "\<And>u. u \<in> set us \<Longrightarrow> pc_rank u < pc_rank v \<and> pc_tail u \<le> pc_head v"
    "\<And>u. u \<in> set us \<Longrightarrow> 0 < pc_rank u \<and> pc_head u \<le> pc_tail u \<and> pc_tail u < pc_head u + B \<and> pc_tail u \<le> length sent"
    "0 < pc_rank v" "pc_head v \<le> pc_tail v" "pc_tail v < pc_head v + B" "pc_tail v = length sent"
    using ok by (auto simp: vs pieces_ok_def sorted_wrt_snoc)
  show ?thesis
  proof (cases "pc_rank v = e")
    case True
    then have "log_piece e (length sent) (length bs) vs = us @ [v\<lparr>pc_tail := length sent + length bs\<rparr>]"
      by (simp add: vs log_piece_def)
    moreover have "\<dots> = \<dots>" ..
    ultimately show ?thesis using b n(1) True vs
      by (auto simp: pieces_ok_def sorted_wrt_snoc intro: trans_le_add1)
  next
    case False
    let ?new = "\<lparr>pc_rank = e, pc_head = length sent, pc_tail = length sent + length bs\<rparr>"
    have old: "\<forall>u \<in> set vs. pc_rank u < e \<and> pc_tail u \<le> length sent"
    proof
      fix u assume "u \<in> set vs"
      then consider "u = v" | "u \<in> set us" using vs by auto
      then show "pc_rank u < e \<and> pc_tail u \<le> length sent"
        using b(3) [of u] b(4) [of u] b(8) e(2) False ne by cases (auto simp: vs)
    qed
    have "pieces_ok B (sent @ bs) (ws @ [?new])" if "sorted_wrt (\<lambda>u v. pc_rank u < pc_rank v \<and> pc_tail u \<le> pc_head v) ws"
      "set ws \<subseteq> set vs" "length ws \<le> 4" for ws
    proof -
      have "\<forall>u \<in> set ws. pc_rank u < e \<and> pc_tail u \<le> length sent" using old that(2) by blast
      moreover have "\<forall>u \<in> set ws. 0 < pc_rank u \<and> pc_head u \<le> pc_tail u \<and> pc_tail u < pc_head u + B"
        using ok that(2) by (auto simp: pieces_ok_def)
      ultimately show ?thesis using that(1,3) e(1) n(2) by (auto simp: pieces_ok_def sorted_wrt_snoc)
    qed
    moreover have "sorted_wrt (\<lambda>u v. pc_rank u < pc_rank v \<and> pc_tail u \<le> pc_head v) vs" "length vs \<le> 5"
      using ok by (auto simp: pieces_ok_def)
    moreover have "sorted_wrt (\<lambda>u v. pc_rank u < pc_rank v \<and> pc_tail u \<le> pc_head v) (tl vs)" "set (tl vs) \<subseteq> set vs"
      using ok ne by (auto simp: vs pieces_ok_def sorted_wrt_snoc tl_append split: list.splits)
    moreover have "log_piece e (length sent) (length bs) vs = (if length vs = 5 then tl vs else vs) @ [?new]"
      using False by (simp add: log_piece_def vs)
    ultimately show ?thesis by (cases "length vs = 5") auto
  qed
qed

lemma log_piece_grow:
  "log_piece e p n vs = butlast (log_piece e p 0 vs) @ [(last (log_piece e p 0 vs))\<lparr>pc_tail := p + n\<rparr>]"
  by (simp add: log_piece_def)

lemma log_piece_last: "pc_rank (last (log_piece e p n vs)) = e" "log_piece e p n vs \<noteq> []"
  "pc_tail (last (log_piece e p n vs)) = p + n"
  by (simp_all add: log_piece_def)

text \<open>The frame of the epoch is the active one, or the next one is made so; this logs no byte.\<close>

lemma assure_frame:
  assumes sh: "frames_shape wr" and mk: "frames_mark B vs (frames_by_age wr)" and ok: "pieces_ok B sent vs"
    and lt: "wr_last_tail_offset wr = of_nat (length sent mod B)"
    and e: "0 < e" "vs \<noteq> [] \<Longrightarrow> pc_rank (last vs) \<le> e \<and> e < pc_rank (last vs) + 2 ^ 62"
  shows "\<exists>wr'. assure_writer_active_frame (epoch_at e) wr = Ok () wr' \<and> frames_shape wr' \<and>
           wr_buffer wr' = wr_buffer wr \<and> wr_last_tail_offset wr' = wr_last_tail_offset wr \<and>
           frames_mark B (log_piece e (length sent) 0 vs) (frames_by_age wr')"
proof -
  let ?a = "unat (wr_active_frame wr)" and ?p = "length sent"
  let ?g = "\<lambda>f. f\<lparr>fr_head_offset := wr_last_tail_offset wr, fr_tail_offset := wr_last_tail_offset wr,
                fr_log_epoch := epoch_at e\<rparr>"
  let ?v = "\<lparr>pc_rank = e, pc_head = ?p, pc_tail = ?p\<rparr>"
  have a: "?a < length (wr_epoch_frames wr)" "length (frames_by_age wr) = 5"
    using sh by (auto simp: frames_shape_def)
  then have a': "frames_by_age wr \<noteq> []" by (metis list.size(3) zero_neq_numeral)
  have act: "wr_epoch_frames wr ! ?a = last (frames_by_age wr)" using frames_by_age_last [OF sh] by simp
  have g: "frame_marks B ?v (?g f)" for f by (simp add: frame_marks_def lt)
  show ?thesis
  proof (cases "vs = []")
    case True
    then have "fr_log_epoch (last (frames_by_age wr)) = 0" using mk a' by (auto simp: frames_mark_def)
    then have "assure_writer_active_frame (epoch_at e) wr = Ok () (set_frame ?a ?g wr)"
      using a act epoch_at_neq_0 [OF e(1)] by (simp add: assure_writer_active_frame_def set_frame_def)
    moreover have "frames_mark B [?v] (frames_by_age (set_frame ?a ?g wr))"
      using frames_mark_first [OF _ a' g] mk True by (simp add: frames_by_age_update [OF sh])
    ultimately show ?thesis using sh True by (simp add: log_piece_def)
  next
    case ne: False
    have last: "fr_log_epoch (last (frames_by_age wr)) = epoch_at (pc_rank (last vs))"
      using frames_mark_last [OF mk ne] by (simp add: frame_marks_def)
    have rk: "0 < pc_rank (last vs)" "pc_tail (last vs) = ?p" using ok ne by (simp_all add: pieces_ok_def)
    have eq: "epoch_at (pc_rank (last vs)) = epoch_at e \<longleftrightarrow> pc_rank (last vs) = e"
      using e(2) [OF ne] by (intro epoch_at_eq) auto
    show ?thesis
    proof (cases "pc_rank (last vs) = e")
      case True
      then have "assure_writer_active_frame (epoch_at e) wr = Ok () wr"
        using a act last by (simp add: assure_writer_active_frame_def)
      moreover have "(last vs)\<lparr>pc_tail := ?p\<rparr> = last vs" using rk(2) by simp
      then have "log_piece e ?p 0 vs = vs" using True ne by (simp add: log_piece_def)
      ultimately show ?thesis using sh mk by auto
    next
      case False
      have a5: "?a < 5" using sh by (simp add: frames_shape_def)
      define b :: u32 where "b = of_nat (Suc ?a mod 5)"
      let ?w = "set_frame (unat b) ?g (wr\<lparr>wr_active_frame := b\<rparr>)"
      have b: "unat b = Suc ?a mod 5" "wrap_writer_epoch_frame (wr_active_frame wr + 1) = Some b"
        using wrap_next_frame [OF a5] by (simp_all only: b_def)
      have "unat b < 5" unfolding b by simp
      then have b5: "unat b < length (wr_epoch_frames wr)" using sh by (simp add: frames_shape_def)
      have run: "assure_writer_active_frame (epoch_at e) wr = Ok () ?w"
        using a(1) act last eq False epoch_at_neq_0 [OF rk(1)] b(2) b5
        by (simp add: assure_writer_active_frame_def)
      have "frames_shape ?w" using sh b5 by (simp add: frames_shape_def set_frame_def)
      moreover have "frames_by_age ?w = tl (frames_by_age wr) @ [?g (hd (frames_by_age wr))]"
        by (rule frames_by_age_next [OF sh b(1)])
      moreover have "frames_mark B (log_piece e ?p 0 vs) (tl (frames_by_age wr) @ [?g (hd (frames_by_age wr))])"
      proof (cases "length vs = 5")
        case True
        then show ?thesis using frames_mark_shift [OF mk _ g ne] a(2) False by (simp add: log_piece_def)
      next
        case less: False
        moreover have "length vs \<le> 5" using ok by (simp add: pieces_ok_def)
        ultimately show ?thesis using frames_mark_push [OF mk _ g] a(2) False by (simp add: log_piece_def)
      qed
      ultimately show ?thesis using run by (intro exI [of _ ?w]) simp
    qed
  qed
qed

lemma log_piece_low:
  assumes "writer_repr wal wr sent vs lo"
  shows "\<forall>v \<in> set (log_piece e (length sent) n vs). pc_head v < pc_tail v \<longrightarrow> lo \<le> pc_head v"
proof -
  have low: "v \<in> set vs \<Longrightarrow> pc_head v < pc_tail v \<Longrightarrow> lo \<le> pc_head v" "lo \<le> length sent"
    for v using assms by (auto simp: writer_repr_def ring_holds_def)
  have "vs \<noteq> [] \<Longrightarrow> pc_tail (last vs) = length sent \<and> pc_head (last vs) \<le> length sent"
    using assms pieces_last by (auto simp: writer_repr_def)
  then have "vs \<noteq> [] \<Longrightarrow> lo \<le> pc_head (last vs)"
    using low(1) [of "last vs"] low(2) by (cases "pc_head (last vs) < length sent") auto
  then show ?thesis
    using low(1,2) by (auto simp: log_piece_def dest: in_set_butlastD list.set_sel(2) [rotated])
qed

text \<open>Announcing bytes the client has stored in the buffer.\<close>

lemma on_wal_write_grows:
  assumes r: "writer_repr wal wr sent vs lo"
    and stable: "wal_stable_epoch wal = epoch_at se" "se < e" "e < se + kNvwalEpochFrameCount"
    and e: "vs \<noteq> [] \<Longrightarrow> pc_rank (last vs) \<le> e \<and> e < pc_rank (last vs) + 2 ^ 62"
    and n: "vs \<noteq> [] \<Longrightarrow> pc_rank (last vs) = e \<Longrightarrow> length sent + length bs < pc_head (last vs) + buffer_size wal"
      "length bs < buffer_size wal" "length bs = unat k"
    and ring: "length buf = buffer_size wal" "ring_holds buf lo (sent @ bs)"
  shows "\<exists>wr'. nvwal_on_wal_write wal k (epoch_at e) (wr\<lparr>wr_buffer := buf\<rparr>) = Ok () wr' \<and>
           writer_repr wal wr' (sent @ bs) (log_piece e (length sent) (length bs) vs) lo"
proof -
  let ?B = "buffer_size wal" and ?vs = "log_piece e (length sent) (length bs) vs" and ?p = "length sent"
  let ?us = "log_piece e (length sent) 0 vs" and ?wr = "wr\<lparr>wr_buffer := buf\<rparr>"
  have B: "0 < ?B" "?B < 2 ^ 62" and ok: "pieces_ok ?B sent vs"
    and lt: "wr_last_tail_offset wr = of_nat (?p mod ?B)" using r by (simp_all add: writer_repr_def)
  have e0: "0 < e" using stable by simp
  have sh: "nvwal_is_epoch_after (epoch_at e) (wal_stable_epoch wal)"
    "nvwal_is_epoch_after (nvwal_add_epoch (wal_stable_epoch wal) (of_nat kNvwalEpochFrameCount)) (epoch_at e)"
    using stable add_epoch_at [of 5 se] by (simp_all add: epoch_at_after)
  have "frames_shape ?wr" "frames_mark ?B vs (frames_by_age ?wr)" "wr_last_tail_offset ?wr = of_nat (?p mod ?B)"
    using r by (simp_all add: writer_repr_def frames_shape_def frames_by_age_def)
  then obtain w1 where w1: "assure_writer_active_frame (epoch_at e) ?wr = Ok () w1" "frames_shape w1"
    "wr_buffer w1 = buf" "wr_last_tail_offset w1 = of_nat (?p mod ?B)" "frames_mark ?B ?us (frames_by_age w1)"
    using assure_frame [OF _ _ ok _ e0 e, of ?wr] by auto
  let ?a = "unat (wr_active_frame w1)" and ?h = "pc_head (last ?us)" and ?t = "of_nat ((?p + length bs) mod ?B) :: u64"
  let ?f = "wr_epoch_frames w1 ! ?a" and ?w2 = "w1\<lparr>wr_last_tail_offset := ?t\<rparr>"
  have pv: "pieces_ok ?B (sent @ bs) ?vs" using pieces_log [OF ok e0 _ n(1,2)] e by blast
  have last: "last ?vs = (last ?us)\<lparr>pc_tail := ?p + length bs\<rparr>" "pc_rank (last ?us) = e" "pc_tail (last ?us) = ?p"
    by (simp_all add: log_piece_def)
  have "last ?vs \<in> set ?vs" by (simp add: log_piece_last(2))
  then have ht: "?h \<le> ?p + length bs" "?p + length bs < ?h + ?B"
    using pv last(1) by (auto simp: pieces_ok_def)
  moreover have hp: "?h \<le> ?p" using pieces_last [OF ok] by (simp add: log_piece_def)
  ultimately have d: "calculate_writer_offset_distance wal (of_nat (?h mod ?B)) (of_nat (?p mod ?B)) = of_nat (?p - ?h)"
    using offset_distance [OF refl B, of ?h ?p] by simp
  have fr: "frame_marks ?B (last ?us) ?f" "?a < length (wr_epoch_frames w1)"
    using frames_mark_last [OF w1(5) log_piece_last(2)] frames_by_age_last [OF w1(2)] w1(2)
    by (simp_all add: frames_shape_def)
  then have f: "fr_log_epoch ?f = epoch_at e" "fr_tail_offset ?f = of_nat (?p mod ?B)"
    "fr_head_offset ?f = of_nat (?h mod ?B)" using last by (simp_all add: frame_marks_def)
  have sum: "of_nat (?p - ?h) + k = of_nat (?p - ?h + length bs)" using n(3) by simp
  moreover have "unat (of_nat (?p - ?h + length bs) :: u64) = ?p - ?h + length bs"
    using ht hp B by (intro unat_of_nat_small) simp
  ultimately have "of_nat (?p - ?h) + k < cf_writer_buffer_size (wal_config wal)"
    using ht hp unfolding sum word_less_nat_alt by (simp only: buffer_size_def)
  then have "nvwal_on_wal_write wal k (epoch_at e) ?wr = Ok () (set_frame ?a (\<lambda>f. f\<lparr>fr_tail_offset := ?t\<rparr>) ?w2)"
    using sh w1(1,4) fr(2) f d offset_wrap [OF refl B, of k ?p] n(2,3)
    by (simp add: nvwal_on_wal_write_def Let_def)
  moreover have "writer_repr wal (set_frame ?a (\<lambda>f. f\<lparr>fr_tail_offset := ?t\<rparr>) ?w2) (sent @ bs) ?vs lo"
  proof -
    have sh2: "frames_shape ?w2" "frames_by_age ?w2 = frames_by_age w1" "wr_active_frame ?w2 = wr_active_frame w1"
      using w1(2) by (simp_all add: frames_shape_def frames_by_age_def)
    have g: "frame_marks ?B (last ?vs) ((last (frames_by_age w1))\<lparr>fr_tail_offset := ?t\<rparr>)"
      using frames_mark_last [OF w1(5) log_piece_last(2)] last by (simp add: frame_marks_def)
    have "frames_mark ?B ?vs (frames_by_age (set_frame ?a (\<lambda>f. f\<lparr>fr_tail_offset := ?t\<rparr>) ?w2))"
      using frames_mark_update [OF w1(5) log_piece_last(2) g] frames_by_age_update [OF sh2(1)] sh2(2)
        log_piece_grow [of e ?p "length bs" vs] last(1) by simp
    moreover have "\<forall>v \<in> set ?vs. pc_head v < pc_tail v \<longrightarrow> lo \<le> pc_head v"
      using r by (rule log_piece_low)
    ultimately show ?thesis
      using sh2(1) B pv w1(3) ring by (simp add: writer_repr_def)
  qed
  ultimately show ?thesis by blast
qed

lemma fresh_writer_repr:
  assumes "frames_shape wr" "0 < buffer_size wal" "buffer_size wal < 2 ^ 62" "length (wr_buffer wr) = buffer_size wal"
    "\<forall>f \<in> set (wr_epoch_frames wr). fr_log_epoch f = kNvwalInvalidEpoch" "wr_last_tail_offset wr = 0"
  shows "writer_repr wal wr [] [] 0"
  using assms
  by (simp add: writer_repr_def pieces_ok_def frames_mark_def ring_holds_def frames_by_age_def del: rotate_Suc)

section \<open>Space\<close>

text \<open>
  The bytes of the pieces that are not flushed. Up to the durable epoch every piece is; together the
  others fit the buffer.
\<close>

definition unflushed :: "piece list \<Rightarrow> nat" where
  "unflushed vs = (\<Sum>v \<leftarrow> vs. pc_tail v - pc_head v)"

definition flushed_upto :: "nat \<Rightarrow> piece list \<Rightarrow> bool" where
  "flushed_upto de vs \<longleftrightarrow> (\<forall>v \<in> set vs. pc_rank v \<le> de \<longrightarrow> pc_head v = pc_tail v)"

lemma unflushed_bound:
  assumes "sorted_wrt (\<lambda>u v. pc_rank u < pc_rank v \<and> pc_tail u \<le> pc_head v) vs"
    and "\<forall>v \<in> set vs. pc_head v \<le> pc_tail v \<and> pc_tail v \<le> n \<and> (pc_head v < pc_tail v \<longrightarrow> lo \<le> pc_head v)" "lo \<le> n"
  shows "unflushed vs \<le> n - lo"
  using assms
proof (induction vs arbitrary: lo)
  case (Cons v vs)
  show ?case
  proof (cases "pc_head v < pc_tail v")
    case True
    have "unflushed vs \<le> n - pc_tail v"
      using Cons.prems by (intro Cons.IH) auto
    moreover have "unflushed (v # vs) = (pc_tail v - pc_head v) + unflushed vs" by (simp add: unflushed_def)
    moreover have "lo \<le> pc_head v" "pc_tail v \<le> n" using True Cons.prems(2) by auto
    ultimately show ?thesis using True by linarith
  next
    case False
    then show ?thesis using Cons.IH [of lo] Cons.prems by (simp add: unflushed_def)
  qed
qed (simp add: unflushed_def)

lemma repr_unflushed_le: "writer_repr wal wr sent vs lo \<Longrightarrow> unflushed vs \<le> length sent - lo"
  by (rule unflushed_bound) (auto simp: writer_repr_def pieces_ok_def ring_holds_def)

text \<open>The loop over the frames counts, in any order, the frames that mark unflushed bytes.\<close>

definition frame_counted :: "NvwalContext \<Rightarrow> NvwalWriterEpochFrame \<Rightarrow> bool" where
  "frame_counted wal f \<longleftrightarrow>
     \<not> (fr_log_epoch f = kNvwalInvalidEpoch \<or> nvwal_is_epoch_equal_or_after (wal_durable_epoch wal) (fr_log_epoch f)
        \<or> nvwal_is_epoch_equal_or_after (fr_log_epoch f)
             (nvwal_add_epoch (wal_durable_epoch wal) (of_nat kNvwalEpochFrameCount)))"

lemma consumed_writer_bytes_sum:
  "consumed_writer_bytes wal c fs
     = c + (\<Sum>f \<leftarrow> fs. if frame_counted wal f
            then calculate_writer_offset_distance wal (fr_head_offset f) (fr_tail_offset f) else 0)"
  by (induction fs arbitrary: c) (auto simp: frame_counted_def Let_def ac_simps)

lemma sum_list_rotate: "sum_list (map f (rotate n xs)) = (sum_list (map f xs) :: u64)"
proof -
  let ?m = "n mod length xs"
  have "sum_list (map f (rotate n xs)) = sum_list (map f (take ?m xs)) + sum_list (map f (drop ?m xs))"
    by (simp add: rotate_drop_take add.commute)
  also have "\<dots> = sum_list (map f (take ?m xs @ drop ?m xs))" by (simp only: map_append sum_list_append)
  finally show ?thesis by simp
qed

lemma consumed_by_age:
  "consumed_writer_bytes wal 0 (wr_epoch_frames wr) = consumed_writer_bytes wal 0 (frames_by_age wr)"
  by (simp add: consumed_writer_bytes_sum frames_by_age_def sum_list_rotate del: rotate_Suc)

lemma consumed_unused:
  "\<forall>f \<in> set fs. fr_log_epoch f = kNvwalInvalidEpoch \<Longrightarrow> consumed_writer_bytes wal c (fs @ gs) = consumed_writer_bytes wal c gs"
  by (induction fs arbitrary: c) auto

lemma consumed_pieces:
  assumes "list_all2 (frame_marks B) vs fs" and B: "B = buffer_size wal" "0 < B" "B < 2 ^ 62"
    and de: "wal_durable_epoch wal = epoch_at de"
    and v: "\<forall>v \<in> set vs. 0 < pc_rank v \<and> pc_rank v < de + kNvwalEpochFrameCount \<and> de < pc_rank v + 2 ^ 61 \<and>
                pc_head v \<le> pc_tail v \<and> pc_tail v < pc_head v + B \<and> (pc_rank v \<le> de \<longrightarrow> pc_head v = pc_tail v)"
  shows "consumed_writer_bytes wal (of_nat c) fs = of_nat (c + unflushed vs)"
  using assms(1) v
proof (induction vs fs arbitrary: c rule: list_all2_induct)
  case (Cons v vs f fs)
  have f: "fr_log_epoch f = epoch_at (pc_rank v)" "fr_head_offset f = of_nat (pc_head v mod B)"
    "fr_tail_offset f = of_nat (pc_tail v mod B)" using Cons.hyps(1) by (simp_all add: frame_marks_def)
  have r: "0 < pc_rank v" "pc_rank v < de + 5" "de < pc_rank v + 2 ^ 61" "pc_head v \<le> pc_tail v" "pc_tail v < pc_head v + B"
    using Cons.prems by auto
  have d: "calculate_writer_offset_distance wal (fr_head_offset f) (fr_tail_offset f) = of_nat (pc_tail v - pc_head v)"
    using offset_distance [OF B r(4,5)] by (simp only: f)
  have ne: "epoch_at (pc_rank v) \<noteq> 0" using r(1) by (rule epoch_at_neq_0)
  have durable: "nvwal_is_epoch_equal_or_after (wal_durable_epoch wal) (epoch_at (pc_rank v)) \<longleftrightarrow> pc_rank v \<le> de"
    unfolding de using r by (intro epoch_at_equal_or_after) auto
  have "nvwal_add_epoch (wal_durable_epoch wal) (of_nat kNvwalEpochFrameCount) = epoch_at (de + 5)"
    using add_epoch_at [of 5 de] de by simp
  then have hor: "nvwal_is_epoch_equal_or_after (epoch_at (pc_rank v))
      (nvwal_add_epoch (wal_durable_epoch wal) (of_nat kNvwalEpochFrameCount)) \<longleftrightarrow> de + 5 \<le> pc_rank v"
    using epoch_at_equal_or_after [of "pc_rank v" "de + 5"] r by simp
  show ?case
  proof (cases "pc_rank v \<le> de")
    case True
    then have "pc_tail v - pc_head v = 0" using Cons.prems by simp
    then have "unflushed (v # vs) = unflushed vs" by (simp add: unflushed_def)
    then show ?thesis using True Cons.IH [of c] Cons.prems f(1) durable by simp
  next
    case False
    have "of_nat c + of_nat (pc_tail v - pc_head v) = (of_nat (c + (pc_tail v - pc_head v)) :: u64)" by simp
    moreover have "c + (pc_tail v - pc_head v) + unflushed vs = c + unflushed (v # vs)" by (simp add: unflushed_def)
    ultimately show ?thesis
      using False Cons.IH [of "c + (pc_tail v - pc_head v)"] Cons.prems ne durable hor r(2) d f(1)
      by (simp del: of_nat_add of_nat_diff)
  qed
qed (simp add: unflushed_def)

text \<open>Five pieces span at least five epochs.\<close>

lemma five_ranks:
  assumes "pieces_ok B sent vs" "length vs = 5"
  shows "pc_rank (hd vs) + 4 \<le> pc_rank (last vs)"
proof -
  have srt: "sorted_wrt (\<lambda>u v. pc_rank u < pc_rank v \<and> pc_tail u \<le> pc_head v) vs" using assms(1) by (simp add: pieces_ok_def)
  have "pc_rank (vs ! i) < pc_rank (vs ! Suc i)" if "i < 4" for i
    using sorted_wrt_nth_less [OF srt, of i "Suc i"] that assms(2) by simp
  from this [of 0] this [of 1] this [of 2] this [of 3] have "pc_rank (vs ! 0) + 4 \<le> pc_rank (vs ! 4)"
    by (simp add: numeral_eq_Suc)
  moreover have "vs \<noteq> []" using assms(2) by auto
  ultimately show ?thesis using assms(2) by (simp add: hd_conv_nth last_conv_nth)
qed

lemma space_exact:
  assumes "writer_repr wal wr sent vs lo" "flushed_upto de vs" "wal_durable_epoch wal = epoch_at de"
    and "\<forall>v \<in> set vs. pc_rank v < de + kNvwalEpochFrameCount \<and> de < pc_rank v + 2 ^ 61"
  shows "nvwal_has_enough_writer_space wal wr \<longleftrightarrow> 2 * unflushed vs \<le> buffer_size wal"
proof -
  let ?fs = "frames_by_age wr" and ?B = "buffer_size wal"
  let ?k = "length ?fs - length vs"
  have B: "0 < ?B" "?B < 2 ^ 62" and mk: "frames_mark ?B vs ?fs" and ok: "pieces_ok ?B sent vs"
    and lo: "length sent \<le> lo + ?B" using assms(1) by (simp_all add: writer_repr_def ring_holds_def)
  have "consumed_writer_bytes wal 0 (wr_epoch_frames wr) = consumed_writer_bytes wal 0 (take ?k ?fs @ drop ?k ?fs)"
    by (simp add: consumed_by_age)
  also have "\<dots> = consumed_writer_bytes wal (of_nat 0) (drop ?k ?fs)"
    using mk consumed_unused [of "take ?k ?fs" wal 0 "drop ?k ?fs"] by (simp add: frames_mark_def)
  also have "\<dots> = of_nat (0 + unflushed vs)"
    using mk ok assms(2,4) by (intro consumed_pieces [OF _ refl B assms(3)]) (auto simp: frames_mark_def pieces_ok_def flushed_upto_def)
  finally have c: "consumed_writer_bytes wal 0 (wr_epoch_frames wr) * 2 = of_nat (2 * unflushed vs)" by simp
  have "unflushed vs \<le> ?B" using repr_unflushed_le [OF assms(1)] lo by linarith
  then have "unat (of_nat (2 * unflushed vs) :: u64) = 2 * unflushed vs"
    using B by (intro unat_of_nat_small) simp
  then show ?thesis
    unfolding nvwal_has_enough_writer_space_def c word_le_nat_alt by (simp only: buffer_size_def)
qed

lemma writer_appends:
  assumes "writer_repr wal wr sent vs lo"
    and "wal_stable_epoch wal = epoch_at se" "se < e" "e < se + kNvwalEpochFrameCount"
    and "vs \<noteq> [] \<Longrightarrow> pc_rank (last vs) \<le> e \<and> e < pc_rank (last vs) + 2 ^ 62"
    and "vs \<noteq> [] \<Longrightarrow> pc_rank (last vs) = e \<Longrightarrow> length sent + length bs < pc_head (last vs) + buffer_size wal"
    and "length bs < buffer_size wal" "length bs = unat k" "length sent + length bs \<le> lo + buffer_size wal"
  shows "\<exists>buf wr'. nvwal_circular_dest_memcpy (wr_buffer wr) (cf_writer_buffer_size (wal_config wal))
             (wr_last_tail_offset wr) bs k = Some buf \<and>
           nvwal_on_wal_write wal k (epoch_at e) (wr\<lparr>wr_buffer := buf\<rparr>) = Ok () wr' \<and>
           writer_repr wal wr' (sent @ bs) (log_piece e (length sent) (length bs) vs) lo"
proof -
  have b: "ring_holds (wr_buffer wr) lo sent" "length (wr_buffer wr) = buffer_size wal"
    "wr_last_tail_offset wr = of_nat (length sent mod buffer_size wal)" "0 < buffer_size wal" "buffer_size wal < 2 ^ 62"
    using assms(1) by (simp_all add: writer_repr_def)
  then obtain buf where buf: "nvwal_circular_dest_memcpy (wr_buffer wr) (cf_writer_buffer_size (wal_config wal))
      (wr_last_tail_offset wr) bs k = Some buf" "length buf = buffer_size wal" "ring_holds buf lo (sent @ bs)"
    using ring_store [OF b(1), of bs "cf_writer_buffer_size (wal_config wal)" k] assms(8,9)
    by (auto simp: buffer_size_def)
  with on_wal_write_grows [OF assms(1-8) buf(2,3)] show ?thesis by blast
qed

section \<open>Properties\<close>

text \<open>A writer with a buffer of eight bytes, before anything was logged.\<close>

definition wal_sample_writer :: NvwalContext where
  "wal_sample_writer = zero_context\<lparr>wal_config := zero_config\<lparr>cf_writer_buffer_size := 8\<rparr>\<rparr>"

definition writer_sample :: NvwalWriterContext where
  "writer_sample = \<lparr>wr_epoch_frames = replicate 5 zero_frame, wr_active_frame = 0, wr_writer_seq_id = 0,
     wr_last_tail_offset = 0, wr_buffer = replicate 8 0\<rparr>"

lemma writer_sample_repr: "writer_repr wal_sample_writer writer_sample [] [] 0"
  by (rule fresh_writer_repr)
    (simp_all add: frames_shape_def buffer_size_def wal_sample_writer_def writer_sample_def zero_frame_def)

lemma wal_sample_size: "buffer_size wal_sample_writer = 8"
  by (simp add: buffer_size_def wal_sample_writer_def)

lemma writer_sample_stable: "wal_stable_epoch wal_sample_writer = epoch_at 0"
  by (simp add: wal_sample_writer_def zero_context_def)

text \<open>
  C32. A client that stores bytes at the writer's offset with \<open>nvwal_circular_dest_memcpy\<close> and announces
  them with \<open>nvwal_on_wal_write\<close> appends them to the sequence the writer stands for, as part of the
  piece of their epoch: no assertion fails, the buffer holds the extended sequence across its
  wrap-around, and the frames mark the extended pieces. The epoch must be one of the four after the
  stable one and not before the writer's last one, and the bytes must fit the free part of the buffer.
\<close>

theorem writer_log_appends:
  assumes "writer_repr wal wr sent vs lo"
    and "wal_stable_epoch wal = epoch_at se" "se < e" "e < se + kNvwalEpochFrameCount"
    and "vs \<noteq> [] \<Longrightarrow> pc_rank (last vs) \<le> e \<and> e < pc_rank (last vs) + 2 ^ 62"
    and "vs \<noteq> [] \<Longrightarrow> pc_rank (last vs) = e \<Longrightarrow> length sent + length bs < pc_head (last vs) + buffer_size wal"
    and "length bs < buffer_size wal" "length bs = unat k" "length sent + length bs \<le> lo + buffer_size wal"
  shows "\<exists>buf wr'. nvwal_circular_dest_memcpy (wr_buffer wr) (cf_writer_buffer_size (wal_config wal))
             (wr_last_tail_offset wr) bs k = Some buf \<and>
           nvwal_on_wal_write wal k (epoch_at e) (wr\<lparr>wr_buffer := buf\<rparr>) = Ok () wr' \<and>
           writer_repr wal wr' (sent @ bs) (log_piece e (length sent) (length bs) vs) lo"
  by (rule writer_appends [OF assms])

theorem writer_log_appends_witness:
  "\<exists>buf wr'. nvwal_circular_dest_memcpy (wr_buffer writer_sample) (cf_writer_buffer_size (wal_config wal_sample_writer))
       (wr_last_tail_offset writer_sample) [7] 1 = Some buf \<and>
     nvwal_on_wal_write wal_sample_writer 1 (epoch_at 2) (writer_sample\<lparr>wr_buffer := buf\<rparr>) = Ok () wr' \<and>
     writer_repr wal_sample_writer wr' [7] [\<lparr>pc_rank = 2, pc_head = 0, pc_tail = 1\<rparr>] 0"
  using writer_log_appends [OF writer_sample_repr writer_sample_stable, of 2 "[7]" 1] wal_sample_size
  by (simp add: log_piece_def)








end
