(* ===== verification/Epoch_Store.thy ===== *)
theory Epoch_Store
  imports Mds
begin

text \<open>
  The contract of the metadata store: a history of records, one per epoch from epoch 1 on, to which a
  record is appended and in which every record can be read. The binary searches are proved correct
  for every implementation of the contract.
\<close>

section \<open>Contract\<close>

text \<open>A history: the record of epoch \<open>i + 1\<close> is at index \<open>i\<close>.\<close>

definition history_ok :: "MdsEpochMetadata list \<Rightarrow> bool" where
  "history_ok h \<longleftrightarrow> length h < 2 ^ 56 \<and> (\<forall>i < length h. em_epoch_id (h ! i) = of_nat (Suc i))"

definition user_pred :: "int \<Rightarrow> (u64 \<Rightarrow> bool) \<Rightarrow> MdsEpochMetadata \<Rightarrow> bool" where
  "user_pred uid pr em \<longleftrightarrow> pr (user_metadata em uid)"

definition monotone_pred :: "int \<Rightarrow> (u64 \<Rightarrow> bool) \<Rightarrow> MdsEpochMetadata list \<Rightarrow> bool" where
  "monotone_pred uid pr h \<longleftrightarrow>
     (\<forall>i j. i \<le> j \<and> j < length h \<and> user_pred uid pr (h ! i) \<longrightarrow> user_pred uid pr (h ! j))"

definition antitone_pred :: "int \<Rightarrow> (u64 \<Rightarrow> bool) \<Rightarrow> MdsEpochMetadata list \<Rightarrow> bool" where
  "antitone_pred uid pr h \<longleftrightarrow>
     (\<forall>i j. i \<le> j \<and> j < length h \<and> user_pred uid pr (h ! j) \<longrightarrow> user_pred uid pr (h ! i))"

text \<open>What a search returns: the record found, or the error number 1.\<close>

definition found_or_eperm :: "MdsEpochMetadata option \<Rightarrow> 'w \<Rightarrow> (MdsEpochMetadata, 'w) outcome" where
  "found_or_eperm r w = (case r of Some em \<Rightarrow> Ok em w | None \<Rightarrow> Fail EPERM w)"

lemma find_first:
  assumes "\<And>i. i < u \<Longrightarrow> \<not> P (h ! i)" "\<And>i. u \<le> i \<Longrightarrow> i < length h \<Longrightarrow> P (h ! i)"
    and "out = (if u < length h then Some (h ! u) else None)" "u \<le> length h"
  shows "find P h = out"
proof (cases "u < length h")
  case True
  with assms show ?thesis by (auto simp: find_Some_iff)
next
  case False
  with assms show ?thesis by (auto simp: find_None_iff in_set_conv_nth)
qed

lemma find_last:
  assumes "\<And>i. i < u \<Longrightarrow> P (h ! i)" "\<And>i. u \<le> i \<Longrightarrow> i < length h \<Longrightarrow> \<not> P (h ! i)"
    and "out = (if u = 0 then None else Some (h ! (u - 1)))" "u \<le> length h"
  shows "find P (rev h) = out"
proof (cases u)
  case 0
  with assms show ?thesis by (auto simp: find_None_iff in_set_conv_nth)
next
  case (Suc v)
  have "find P (rev h) = Some (h ! v)"
    unfolding find_Some_iff
  proof (intro exI conjI)
    show "length h - u < length (rev h)" using Suc assms(4) by simp
    show "P (rev h ! (length h - u))" using Suc assms(1,4) by (simp add: rev_nth)
    show "h ! v = rev h ! (length h - u)" using Suc assms(4) by (simp add: rev_nth)
    show "\<forall>j < length h - u. \<not> P (rev h ! j)" using Suc assms(2,4) by (auto simp: rev_nth)
  qed
  then show ?thesis using Suc assms(3) by simp
qed

lemma u64_mid:
  assumes "1 \<le> l" "l \<le> u" "u < 2 ^ 62"
  shows "((of_nat l :: u64) + of_nat u) div 2 = of_nat ((l + u) div 2)"
proof -
  have "unat (((of_nat l :: u64) + of_nat u) div 2) = (l + u) div 2"
    using assms by (simp add: unat_div unat_word_ariths unat_of_nat take_bit_eq_mod)
  moreover have "unat (of_nat ((l + u) div 2) :: u64) = (l + u) div 2"
    using assms by (simp add: unat_of_nat take_bit_eq_mod)
  ultimately show ?thesis by (simp only: unat_eq_u64 [symmetric])
qed

lemma u64_le_of_nat: "a < 2 ^ 64 \<Longrightarrow> b < 2 ^ 64 \<Longrightarrow> (of_nat a :: u64) \<le> of_nat b \<longleftrightarrow> a \<le> b"
  by (simp add: word_le_nat_alt unat_of_nat take_bit_eq_mod)

locale epoch_reader =
  fixes repr :: "'w \<Rightarrow> MdsEpochMetadata list \<Rightarrow> bool"
    and read_epoch :: "u64 \<Rightarrow> 'w \<Rightarrow> (MdsEpochMetadata, 'w) outcome"
    and latest :: "'w \<Rightarrow> u64"
  assumes repr_history: "repr w h \<Longrightarrow> history_ok h"
    and latest_length: "repr w h \<Longrightarrow> latest w = of_nat (length h)"
    and read_nth: "repr w h \<Longrightarrow> i < length h \<Longrightarrow> read_epoch (of_nat (Suc i)) w = Ok (h ! i) w"
begin

lemma read_mid:
  assumes "repr w h" "1 \<le> m" "m \<le> length h"
  shows "read_epoch (of_nat m) w = Ok (h ! (m - 1)) w"
  using read_nth [OF assms(1), of "m - 1"] assms(2,3) by (simp del: of_nat_Suc)

text \<open>
  The state of the lower-bound search: the records before \<open>l\<close> fail the predicate, those after \<open>u\<close>
  satisfy it, and the record after \<open>u\<close> is the best one seen.
\<close>

lemma lower_bound_loop_correct:
  assumes "repr w h" "monotone_pred uid pr h"
    and "1 \<le> l" "l \<le> u + 1" "u \<le> length h" "u + 1 - l < fuel"
    and "\<And>i. i < l - 1 \<Longrightarrow> \<not> user_pred uid pr (h ! i)"
    and "\<And>i. u \<le> i \<Longrightarrow> i < length h \<Longrightarrow> user_pred uid pr (h ! i)"
    and "out = (if u < length h then Some (h ! u) else None)"
  shows "lower_bound_loop read_epoch fuel uid pr (of_nat l) (of_nat u) out w
           = found_or_eperm (find (user_pred uid pr) h) w"
  using assms(3-)
proof (induction fuel arbitrary: l u out)
  case 0
  then show ?case by simp
next
  case (Suc fuel)
  have n: "length h < 2 ^ 56" using repr_history [OF assms(1)] by (simp add: history_ok_def)
  show ?case
  proof (cases "l \<le> u")
    case False
    then have lu: "l = u + 1" using Suc.prems(2) by simp
    have "\<not> (of_nat l :: u64) \<le> of_nat u" using False Suc.prems n by (simp add: u64_le_of_nat)
    moreover have "find (user_pred uid pr) h = out"
      using Suc.prems(5-7) Suc.prems(3) lu by (intro find_first) auto
    ultimately show ?thesis by (simp add: found_or_eperm_def)
  next
    case True
    let ?m = "(l + u) div 2"
    have m: "1 \<le> ?m" "?m \<le> length h" "l \<le> ?m" "?m \<le> u" using True Suc.prems by auto
    have le: "(of_nat l :: u64) \<le> of_nat u" using True Suc.prems n by (simp add: u64_le_of_nat)
    have mid: "((of_nat l :: u64) + of_nat u) div 2 = of_nat ?m"
      using True Suc.prems n by (intro u64_mid) auto
    have rd: "read_epoch (of_nat ?m) w = Ok (h ! (?m - 1)) w" using m by (intro read_mid assms)
    show ?thesis
    proof (cases "user_pred uid pr (h ! (?m - 1))")
      case True
      have "lower_bound_loop read_epoch (Suc fuel) uid pr (of_nat l) (of_nat u) out w
          = lower_bound_loop read_epoch fuel uid pr (of_nat l) (of_nat (?m - 1)) (Some (h ! (?m - 1))) w"
        using le mid rd True m(1) by (simp add: Let_def user_pred_def of_nat_diff)
      also have "\<dots> = found_or_eperm (find (user_pred uid pr) h) w"
      proof (rule Suc.IH)
        show "user_pred uid pr (h ! i)" if "?m - 1 \<le> i" "i < length h" for i
          using assms(2) True that unfolding monotone_pred_def by blast
      qed (use m Suc.prems in auto)
      finally show ?thesis .
    next
      case False
      have "lower_bound_loop read_epoch (Suc fuel) uid pr (of_nat l) (of_nat u) out w
          = lower_bound_loop read_epoch fuel uid pr (of_nat (?m + 1)) (of_nat u) out w"
        using le mid rd False by (simp add: Let_def user_pred_def add.commute)
      also have "\<dots> = found_or_eperm (find (user_pred uid pr) h) w"
      proof (rule Suc.IH)
        show "\<not> user_pred uid pr (h ! i)" if "i < ?m + 1 - 1" for i
        proof -
          have "i \<le> ?m - 1" "?m - 1 < length h" using that m by auto
          with assms(2) False show ?thesis unfolding monotone_pred_def by blast
        qed
      qed (use m Suc.prems in auto)
      finally show ?thesis .
    qed
  qed
qed

text \<open>
  The state of the upper-bound search: the records before \<open>l\<close> satisfy the predicate, those after
  \<open>u\<close> fail it, and the record before \<open>l\<close> is the best one seen.
\<close>

lemma upper_bound_loop_correct:
  assumes "repr w h" "antitone_pred uid pr h"
    and "1 \<le> l" "l \<le> u + 1" "u \<le> length h" "u + 1 - l < fuel"
    and "\<And>i. i < l - 1 \<Longrightarrow> user_pred uid pr (h ! i)"
    and "\<And>i. u \<le> i \<Longrightarrow> i < length h \<Longrightarrow> \<not> user_pred uid pr (h ! i)"
    and "out = (if l = 1 then None else Some (h ! (l - 2)))"
  shows "upper_bound_loop read_epoch fuel uid pr (of_nat l) (of_nat u) out w
           = found_or_eperm (find (user_pred uid pr) (rev h)) w"
  using assms(3-)
proof (induction fuel arbitrary: l u out)
  case 0
  then show ?case by simp
next
  case (Suc fuel)
  have n: "length h < 2 ^ 56" using repr_history [OF assms(1)] by (simp add: history_ok_def)
  show ?case
  proof (cases "l \<le> u")
    case False
    then have lu: "l = u + 1" using Suc.prems(2) by simp
    have "\<not> (of_nat l :: u64) \<le> of_nat u" using False Suc.prems n by (simp add: u64_le_of_nat)
    moreover have "find (user_pred uid pr) (rev h) = out"
      using Suc.prems(5-7) Suc.prems(3) lu by (intro find_last) auto
    ultimately show ?thesis by (simp add: found_or_eperm_def)
  next
    case True
    let ?m = "(l + u) div 2"
    have m: "1 \<le> ?m" "?m \<le> length h" "l \<le> ?m" "?m \<le> u" using True Suc.prems by auto
    have le: "(of_nat l :: u64) \<le> of_nat u" using True Suc.prems n by (simp add: u64_le_of_nat)
    have mid: "((of_nat l :: u64) + of_nat u) div 2 = of_nat ?m"
      using True Suc.prems n by (intro u64_mid) auto
    have rd: "read_epoch (of_nat ?m) w = Ok (h ! (?m - 1)) w" using m by (intro read_mid assms)
    show ?thesis
    proof (cases "user_pred uid pr (h ! (?m - 1))")
      case True
      have "upper_bound_loop read_epoch (Suc fuel) uid pr (of_nat l) (of_nat u) out w
          = upper_bound_loop read_epoch fuel uid pr (of_nat (?m + 1)) (of_nat u) (Some (h ! (?m - 1))) w"
        using le mid rd True by (simp add: Let_def user_pred_def add.commute)
      also have "\<dots> = found_or_eperm (find (user_pred uid pr) (rev h)) w"
      proof (rule Suc.IH)
        show "user_pred uid pr (h ! i)" if "i < ?m + 1 - 1" for i
        proof -
          have "i \<le> ?m - 1" "?m - 1 < length h" using that m by auto
          with assms(2) True show ?thesis unfolding antitone_pred_def by blast
        qed
      qed (use m Suc.prems in auto)
      finally show ?thesis .
    next
      case False
      have "upper_bound_loop read_epoch (Suc fuel) uid pr (of_nat l) (of_nat u) out w
          = upper_bound_loop read_epoch fuel uid pr (of_nat l) (of_nat (?m - 1)) out w"
        using le mid rd False m(1) by (simp add: Let_def user_pred_def of_nat_diff)
      also have "\<dots> = found_or_eperm (find (user_pred uid pr) (rev h)) w"
      proof (rule Suc.IH)
        show "\<not> user_pred uid pr (h ! i)" if "?m - 1 \<le> i" "i < length h" for i
          using assms(2) False that unfolding antitone_pred_def by blast
      qed (use m Suc.prems in auto)
      finally show ?thesis .
    qed
  qed
qed

text \<open>The searches, started on the whole history.\<close>

lemma lower_bound_search:
  assumes "repr w h" "monotone_pred uid pr h"
  shows "lower_bound_loop read_epoch (unat (latest w) + 1) uid pr 1 (latest w) None w
           = found_or_eperm (find (user_pred uid pr) h) w"
proof -
  have "unat (latest w) = length h"
    using latest_length [OF assms(1)] repr_history [OF assms(1)]
    by (simp add: history_ok_def unat_of_nat take_bit_eq_mod)
  then show ?thesis
    using lower_bound_loop_correct [OF assms, of 1 "length h" "length h + 1" None]
      latest_length [OF assms(1)] by simp
qed

lemma upper_bound_search:
  assumes "repr w h" "antitone_pred uid pr h"
  shows "upper_bound_loop read_epoch (unat (latest w) + 1) uid pr 1 (latest w) None w
           = found_or_eperm (find (user_pred uid pr) (rev h)) w"
proof -
  have "unat (latest w) = length h"
    using latest_length [OF assms(1)] repr_history [OF assms(1)]
    by (simp add: history_ok_def unat_of_nat take_bit_eq_mod)
  then show ?thesis
    using upper_bound_loop_correct [OF assms, of 1 "length h" "length h + 1" None]
      latest_length [OF assms(1)] by simp
qed

end

end
