(* ===== verification/Log.thy ===== *)
theory Log
  imports Flusher Writer_Correct Mds_Correct
begin

text \<open>
  The log as one sequence of bytes. Segment number \<open>d\<close> of the log holds the \<open>d\<close>-th run of segment-size
  bytes of the sequence; the array of NV segments is a window of the last segments, the one the
  flusher fills included. Copying from the writers appends to the sequence, and moving on to the
  next segment leaves it as it is.
\<close>

section \<open>The window of NV segments\<close>

definition seg_size :: "world \<Rightarrow> nat" where
  "seg_size w = unat (cf_segment_size (wal_config (w_wal w)))"

definition seg_count :: "world \<Rightarrow> nat" where
  "seg_count w = unat (wal_segment_count (w_wal w))"

definition cur_dsid :: "world \<Rightarrow> nat" where
  "cur_dsid w = unat (wal_flusher_current_nv_segment_dsid (w_wal w))"

text \<open>The segment with number \<open>d\<close> of a sequence.\<close>

definition log_slice :: "nat \<Rightarrow> nat \<Rightarrow> byte list \<Rightarrow> byte list" where
  "log_slice S d s = take S (drop ((d - 1) * S) s)"

text \<open>
  An NV segment at index \<open>i\<close> while the flusher fills segment number \<open>cur\<close>: its number fits its index and
  the window, it holds the bytes of its number as far as it is written, and its flags say whether it
  is full and handed to the fsyncer, current, or not used yet.
\<close>

definition seg_ok :: "nat \<Rightarrow> nat \<Rightarrow> nat \<Rightarrow> os \<Rightarrow> byte list \<Rightarrow> nat \<Rightarrow> NvwalLogSegment \<Rightarrow> bool" where
  "seg_ok S N cur os s i g \<longleftrightarrow>
     (let d = unat (sg_dsid g); n = unat (sg_written_bytes g)
      in 0 < d \<and> (d - 1) mod N = i \<and> sg_nv_segment_index g = of_nat i \<and> cur < d + N \<and> d < cur + N \<and> n \<le> S \<and>
         (case sg_nv_baseaddr g of None \<Rightarrow> False
          | Some p \<Rightarrow> length (mapped p os) = S \<and> take n (mapped p os) = take n (drop ((d - 1) * S) s)) \<and>
         (d < cur \<longrightarrow> n = S \<and> sg_fsync_requested g) \<and>
         (d = cur \<longrightarrow> length s = (cur - 1) * S + n) \<and>
         (cur < d \<longrightarrow> n = 0) \<and>
         (cur \<le> d \<longrightarrow> \<not> sg_fsync_requested g \<and> \<not> sg_fsync_completed g \<and> sg_fsync_error g = None))"

definition log_repr :: "world \<Rightarrow> byte list \<Rightarrow> bool" where
  "log_repr w s \<longleftrightarrow>
     0 < seg_size w \<and> seg_size w < 2 ^ 32 \<and> 2 \<le> seg_count w \<and> seg_count w \<le> length (wal_segments (w_wal w)) \<and>
     0 < cur_dsid w \<and> cur_dsid w < 2 ^ 32 \<and>
     (\<forall>i < seg_count w. seg_ok (seg_size w) (seg_count w) (cur_dsid w) (w_os w) s i (wal_segments (w_wal w) ! i)) \<and>
     (\<forall>i < seg_count w. \<forall>j < seg_count w.
        sg_nv_baseaddr (wal_segments (w_wal w) ! i) = sg_nv_baseaddr (wal_segments (w_wal w) ! j) \<longrightarrow> i = j)"

text \<open>The index of the current segment, and how much of it is written.\<close>

definition cur_index :: "world \<Rightarrow> nat" where
  "cur_index w = (cur_dsid w - 1) mod seg_count w"

definition cur_written :: "world \<Rightarrow> nat" where
  "cur_written w = unat (sg_written_bytes (wal_segments (w_wal w) ! cur_index w))"

section \<open>Numbers and indexes\<close>

lemma mod_close_eq:
  fixes a b N :: nat
  assumes "a mod N = b mod N" "a < b + N" "b < a + N"
  shows "a = b"
proof (rule ccontr)
  assume "a \<noteq> b"
  then consider "a < b" | "b < a" by linarith
  then show False
  proof cases
    case 1
    then have "N dvd b - a" using assms(1) by (metis mod_eq_dvd_iff_nat less_imp_le)
    with 1 assms(3) show False by (auto dest: dvd_imp_le)
  next
    case 2
    then have "N dvd a - b" using assms(1) by (metis mod_eq_dvd_iff_nat less_imp_le)
    with 2 assms(2) show False by (auto dest: dvd_imp_le)
  qed
qed

lemma dsid_index_eq:
  assumes "(a - 1) mod N = (b - 1) mod N" "0 < a" "0 < b" "a < b + N" "b < a + (N :: nat)"
  shows "a = b"
proof -
  have "a - 1 < b - 1 + N" "b - 1 < a - 1 + N" using assms(2-5) by linarith+
  then have "a - 1 = b - 1" by (rule mod_close_eq [OF assms(1)])
  with assms(2,3) show ?thesis by linarith
qed

lemma segment_from_dsid:
  assumes "0 < unat d" "0 < unat (wal_segment_count wal)"
  shows "flusher_get_segment_from_dsid wal d = Some ((unat d - 1) mod unat (wal_segment_count wal))"
    "unat ((d - 1) mod ucast (wal_segment_count wal)) = (unat d - 1) mod unat (wal_segment_count wal)"
proof -
  let ?N = "unat (wal_segment_count wal)"
  have d0: "d \<noteq> 0" using assms by auto
  show m: "unat ((d - 1) mod ucast (wal_segment_count wal)) = (unat d - 1) mod ?N"
    using d0 by (simp add: unat_mod unat_pred_u64)
  have "(unat d - 1) mod ?N < ?N" using assms(2) by simp
  then have "unat ((d - 1) mod ucast (wal_segment_count wal)) < 4294967296"
    using unat_u32_less [of "wal_segment_count wal"] unfolding m by linarith
  then show "flusher_get_segment_from_dsid wal d = Some ((unat d - 1) mod ?N)"
    using d0 m by (simp add: flusher_get_segment_from_dsid_def unat_ucast_down)
qed

lemma cur_segment_index:
  assumes "log_repr w s"
  shows "flusher_get_cur_segment (w_wal w) = Some (cur_index w)" "cur_index w < seg_count w"
    "cur_index w < length (wal_segments (w_wal w))"
    "unat (sg_dsid (wal_segments (w_wal w) ! cur_index w)) = cur_dsid w"
proof -
  have N: "0 < seg_count w" "0 < cur_dsid w" "seg_count w \<le> length (wal_segments (w_wal w))"
    using assms by (auto simp: log_repr_def)
  then show lt: "cur_index w < seg_count w" by (simp add: cur_index_def)
  with N show "cur_index w < length (wal_segments (w_wal w))" by simp
  show "flusher_get_cur_segment (w_wal w) = Some (cur_index w)"
    using N segment_from_dsid(1) [of "wal_flusher_current_nv_segment_dsid (w_wal w)" "w_wal w"]
    by (simp add: flusher_get_cur_segment_def cur_index_def cur_dsid_def seg_count_def)
  let ?d = "unat (sg_dsid (wal_segments (w_wal w) ! cur_index w))"
  have "(?d - 1) mod seg_count w = (cur_dsid w - 1) mod seg_count w" "0 < ?d" "cur_dsid w < ?d + seg_count w"
    "?d < cur_dsid w + seg_count w"
    using assms lt by (auto simp: log_repr_def seg_ok_def Let_def cur_index_def)
  then show "?d = cur_dsid w" using dsid_index_eq [OF _ _ N(2)] by blast
qed

lemma seg_okD:
  assumes "log_repr w s" "i < seg_count w"
  shows "seg_ok (seg_size w) (seg_count w) (cur_dsid w) (w_os w) s i (wal_segments (w_wal w) ! i)"
  using assms by (simp add: log_repr_def)

lemma log_length:
  assumes "log_repr w s"
  shows "length s = (cur_dsid w - 1) * seg_size w + cur_written w"
  using seg_okD [OF assms cur_segment_index(2) [OF assms]] cur_segment_index(4) [OF assms]
  by (simp add: seg_ok_def Let_def cur_written_def)

text \<open>What a segment holds of a longer sequence: other segments than the current one are not affected.\<close>

lemma seg_ok_append:
  assumes "seg_ok S N cur os s i g" "unat (sg_dsid g) \<noteq> cur" "(cur - 1) * S \<le> length s"
  shows "seg_ok S N cur os (s @ bs) i g"
proof -
  let ?d = "unat (sg_dsid g)" and ?n = "unat (sg_written_bytes g)"
  have "take ?n (drop ((?d - 1) * S) (s @ bs)) = take ?n (drop ((?d - 1) * S) s)"
  proof (cases "?d < cur")
    case True
    have "(?d - 1) * S + S = ?d * S" using assms(1) by (cases ?d) (simp_all add: seg_ok_def Let_def)
    also have "\<dots> \<le> (cur - 1) * S" using True by (intro mult_le_mono1) simp
    finally have "(?d - 1) * S + ?n \<le> length s" using assms(1,3) by (simp add: seg_ok_def Let_def)
    then show ?thesis by simp
  next
    case False
    then have "?n = 0" using assms(1,2) by (simp add: seg_ok_def Let_def)
    then show ?thesis by simp
  qed
  then show ?thesis using assms(1,2) by (simp add: seg_ok_def Let_def split: option.splits)
qed

lemma seg_ok_os:
  assumes "seg_ok S N cur os s i g" "\<And>p. sg_nv_baseaddr g = Some p \<Longrightarrow> mapped p os' = mapped p os"
  shows "seg_ok S N cur os' s i g"
  using assms by (simp add: seg_ok_def Let_def split: option.splits)

section \<open>Frames of the updates\<close>

lemma set_segment_frame [world_simps]:
  "w_os (set_segment i f w) = w_os w"
  "wal_config (w_wal (set_segment i f w)) = wal_config (w_wal w)"
  "wal_segment_count (w_wal (set_segment i f w)) = wal_segment_count (w_wal w)"
  "wal_flusher_current_nv_segment_dsid (w_wal (set_segment i f w)) = wal_flusher_current_nv_segment_dsid (w_wal w)"
  "wal_writers (w_wal (set_segment i f w)) = wal_writers (w_wal w)"
  "wal_nv_control_block (w_wal (set_segment i f w)) = wal_nv_control_block (w_wal w)"
  "wal_mds (w_wal (set_segment i f w)) = wal_mds (w_wal w)"
  "wal_segments (w_wal (set_segment i f w)) = (wal_segments (w_wal w))[i := f (wal_segments (w_wal w) ! i)]"
  by (simp_all add: set_segment_def Let_def)

lemma set_writer_frame [world_simps]:
  "w_os (set_writer i f w) = w_os w"
  "wal_config (w_wal (set_writer i f w)) = wal_config (w_wal w)"
  "wal_segment_count (w_wal (set_writer i f w)) = wal_segment_count (w_wal w)"
  "wal_flusher_current_nv_segment_dsid (w_wal (set_writer i f w)) = wal_flusher_current_nv_segment_dsid (w_wal w)"
  "wal_segments (w_wal (set_writer i f w)) = wal_segments (w_wal w)"
  "wal_nv_control_block (w_wal (set_writer i f w)) = wal_nv_control_block (w_wal w)"
  "wal_mds (w_wal (set_writer i f w)) = wal_mds (w_wal w)"
  "wal_writers (w_wal (set_writer i f w)) = (wal_writers (w_wal w))[i := f (wal_writers (w_wal w) ! i)]"
  by (simp_all add: set_writer_def Let_def)

section \<open>Moving on to the next segment\<close>

text \<open>The index of the next segment, and whether the flusher can take it over at once.\<close>

definition next_index :: "world \<Rightarrow> nat" where
  "next_index w = cur_dsid w mod seg_count w"

definition next_segment :: "world \<Rightarrow> NvwalLogSegment" where
  "next_segment w = wal_segments (w_wal w) ! next_index w"

definition next_synced :: "world \<Rightarrow> bool" where
  "next_synced w \<longleftrightarrow> sg_fsync_requested (next_segment w) \<longrightarrow> sg_fsync_completed (next_segment w)"

text \<open>The world after the flusher has moved on.\<close>

definition moved_on :: "world \<Rightarrow> world" where
  "moved_on w =
     (let wal = w_wal w; d = wal_flusher_current_nv_segment_dsid wal + 1; gs = wal_segments wal;
          ci = cur_index w; ni = next_index w
      in w\<lparr>w_wal := wal\<lparr>wal_segments := gs[ci := (gs ! ci)\<lparr>sg_fsync_requested := True\<rparr>,
                ni := (gs ! ni)\<lparr>sg_dsid := d, sg_written_bytes := 0, sg_fsync_completed := False,
                        sg_fsync_error := None, sg_fsync_requested := False, sg_nv_reader_pins := 0\<rparr>],
              wal_flusher_current_nv_segment_dsid := d\<rparr>\<rparr>)"

text \<open>The request to the fsyncer, which comes first.\<close>

definition requested_sync :: "world \<Rightarrow> world" where
  "requested_sync w = set_segment (cur_index w) (\<lambda>g. g\<lparr>sg_fsync_requested := True\<rparr>) w"

lemma next_index_facts:
  assumes "log_repr w s"
  shows "next_index w < seg_count w" "next_index w < length (wal_segments (w_wal w))" "next_index w \<noteq> cur_index w"
    "unat (wal_flusher_current_nv_segment_dsid (w_wal w) + 1) = Suc (cur_dsid w)"
    "flusher_get_segment_from_dsid (w_wal w) (wal_flusher_current_nv_segment_dsid (w_wal w) + 1) = Some (next_index w)"
proof -
  have N: "2 \<le> seg_count w" "0 < cur_dsid w" "cur_dsid w < 2 ^ 32" "seg_count w \<le> length (wal_segments (w_wal w))"
    using assms by (auto simp: log_repr_def)
  then show lt: "next_index w < seg_count w" by (simp add: next_index_def)
  with N show "next_index w < length (wal_segments (w_wal w))" by simp
  show "next_index w \<noteq> cur_index w"
  proof
    assume "next_index w = cur_index w"
    moreover have "cur_dsid w < cur_dsid w - 1 + seg_count w" "cur_dsid w - 1 < cur_dsid w + seg_count w" using N by linarith+
    ultimately have "cur_dsid w = cur_dsid w - 1" by (metis mod_close_eq next_index_def cur_index_def)
    with N(2) show False by linarith
  qed
  show d: "unat (wal_flusher_current_nv_segment_dsid (w_wal w) + 1) = Suc (cur_dsid w)"
    using N by (simp add: cur_dsid_def unat_plus_no_wrap)
  then show "flusher_get_segment_from_dsid (w_wal w) (wal_flusher_current_nv_segment_dsid (w_wal w) + 1) = Some (next_index w)"
    using segment_from_dsid(1) [of "wal_flusher_current_nv_segment_dsid (w_wal w) + 1" "w_wal w"] N
    by (simp add: next_index_def seg_count_def)
qed

lemma flusher_pin:
  "nvwal_pin_flusher_unconditional_lock 0 = Ok () (- 1)" "nvwal_pin_flusher_unlock (- 1) = Ok () 0"
  "p \<noteq> 0 \<Longrightarrow> nvwal_pin_flusher_unconditional_lock p = Spin p"
  using counter.excl_lock_busy [of p]
  by (auto simp: nvwal_pin_flusher_unconditional_lock_def nvwal_pin_flusher_try_lock_def nvwal_pin_flusher_unlock_def
      atomic_compare_exchange_def pin_pins_def unsigned_eq_0_iff)

lemma flusher_move_result:
  assumes r: "log_repr w s" and full: "cur_written w = seg_size w"
  shows "flusher_move_onto_next_nv_segment w =
           (if \<not> next_synced w
            then (case sg_fsync_error (next_segment w) of Some e \<Rightarrow> Fail e (requested_sync w) | None \<Rightarrow> Spin (requested_sync w))
            else if sg_nv_reader_pins (next_segment w) \<noteq> 0
            then Spin (requested_sync w)
            else Ok () (moved_on w))"
proof -
  note ci = cur_segment_index [OF r] and ni = next_index_facts [OF r]
  let ?cur = "wal_segments (w_wal w) ! cur_index w" and ?new = "wal_segments (w_wal w) ! next_index w"
  have N: "0 < seg_count w" using r by (simp add: log_repr_def)
  note c = seg_okD [OF r ci(2)] and n = seg_okD [OF r ni(1)]
  have cf: "\<not> sg_fsync_requested ?cur" "\<not> sg_fsync_completed ?cur" "sg_fsync_error ?cur = None"
      "0 < unat (sg_dsid ?cur)" "sg_nv_segment_index ?cur = of_nat (cur_index w)" "(unat (sg_dsid ?cur) - 1) mod seg_count w = cur_index w"
      "sg_written_bytes ?cur = cf_segment_size (wal_config (w_wal w))"
    using c ci(4) full by (simp_all add: seg_ok_def Let_def cur_written_def seg_size_def unat_eq_u64)
  have nf: "0 < unat (sg_dsid ?new)" "(unat (sg_dsid ?new) - 1) mod seg_count w = next_index w"
    using n by (simp_all add: seg_ok_def Let_def)
  have pos: "sg_dsid ?cur > 0" "sg_dsid ?new > 0" using cf(4) nf(1) by (auto simp: word_gt_0)
  have "cur_index w < 4294967296" using ci(2) unat_u32_less [of "wal_segment_count (w_wal w)"] by (simp add: seg_count_def)
  then have "unat (of_nat (cur_index w) :: u32) = cur_index w" by (simp add: unat_of_nat take_bit_nat_eq_self)
  then have idx: "(sg_dsid ?cur - 1) mod ucast (wal_segment_count (w_wal w)) = ucast (sg_nv_segment_index ?cur)"
    using segment_from_dsid(2) [OF cf(4), of "w_wal w"] cf(5,6) N
    by (simp add: seg_count_def flip: unat_eq_u64)
  have same: "(sg_dsid ?new - 1) mod ucast (wal_segment_count (w_wal w))
      = (wal_flusher_current_nv_segment_dsid (w_wal w) + 1 - 1) mod ucast (wal_segment_count (w_wal w))"
  proof -
    have "unat ((wal_flusher_current_nv_segment_dsid (w_wal w) + 1 - 1) mod ucast (wal_segment_count (w_wal w))) = next_index w"
      using segment_from_dsid(2) [of "wal_flusher_current_nv_segment_dsid (w_wal w) + 1" "w_wal w"] ni(4) N
      by (simp add: seg_count_def next_index_def)
    moreover have "unat ((sg_dsid ?new - 1) mod ucast (wal_segment_count (w_wal w))) = next_index w"
      using segment_from_dsid(2) [OF nf(1), of "w_wal w"] nf(2) N by (simp add: seg_count_def)
    ultimately show ?thesis by (simp only: unat_eq_u64 [symmetric])
  qed
  let ?w1 = "requested_sync w"
  have w1: "wal_segments (w_wal ?w1) ! next_index w = ?new" "next_index w < length (wal_segments (w_wal ?w1))"
    "wal_flusher_current_nv_segment_dsid (w_wal ?w1) = wal_flusher_current_nv_segment_dsid (w_wal w)"
    "wal_segment_count (w_wal ?w1) = wal_segment_count (w_wal w)"
    using ni by (simp_all add: requested_sync_def world_simps)
  have get: "flusher_get_segment_from_dsid (w_wal ?w1) (wal_flusher_current_nv_segment_dsid (w_wal w) + 1) = Some (next_index w)"
    using ni(5) unfolding flusher_get_segment_from_dsid_def w1(4) .
  have req: "set_segment (cur_index w) (sg_fsync_requested_update (\<lambda>_. True)) w = ?w1"
    by (simp add: requested_sync_def)
  have start: "flusher_move_onto_next_nv_segment w =
      (if sg_fsync_requested ?new \<and> \<not> sg_fsync_completed ?new
       then (case sg_fsync_error ?new of Some e \<Rightarrow> Fail e ?w1 | None \<Rightarrow> Spin ?w1)
       else and_then (lift_outcome (\<lambda>p. set_segment (next_index w) (\<lambda>g. g\<lparr>sg_nv_reader_pins := p\<rparr>))
                        (nvwal_pin_flusher_unconditional_lock (sg_nv_reader_pins ?new)) ?w1) (\<lambda>_ w2.
         let d = wal_flusher_current_nv_segment_dsid (w_wal w) + 1;
             w3 = set_segment (next_index w) (\<lambda>g. g\<lparr>sg_dsid := d, sg_written_bytes := 0, sg_fsync_completed := False,
                     sg_fsync_error := None, sg_fsync_requested := False\<rparr>) w2
         in c_assert ((sg_dsid ?new - 1) mod ucast (wal_segment_count (w_wal w2)) = (d - 1) mod ucast (wal_segment_count (w_wal w2)))
            (elem_at (wal_segments (w_wal w3)) (next_index w) (\<lambda>new.
              and_then (lift_outcome (\<lambda>p. set_segment (next_index w) (\<lambda>g. g\<lparr>sg_nv_reader_pins := p\<rparr>))
                          (nvwal_pin_flusher_unlock (sg_nv_reader_pins new)) w3) (\<lambda>_ w.
                Ok () (w\<lparr>w_wal := (w_wal w)\<lparr>wal_flusher_current_nv_segment_dsid := d\<rparr>\<rparr>))))))"
    using ci(1,3) cf pos idx w1 get req
    by (simp add: flusher_move_onto_next_nv_segment_def Let_def cong: option.case_cong)
  show ?thesis
  proof (cases "next_synced w")
    case False
    then show ?thesis unfolding start by (simp add: next_synced_def next_segment_def)
  next
    case sy: True
    then have go: "\<not> (sg_fsync_requested ?new \<and> \<not> sg_fsync_completed ?new)"
      by (simp add: next_synced_def next_segment_def)
    show ?thesis
    proof (cases "sg_nv_reader_pins ?new = 0")
      case False
      moreover have "set_segment (next_index w) (\<lambda>g. g\<lparr>sg_nv_reader_pins := sg_nv_reader_pins ?new\<rparr>) ?w1 = ?w1"
        using w1(1) by (simp add: set_segment_def Let_def list_update_same_conv w1(2))
      ultimately show ?thesis unfolding start if_not_P [OF go] using sy flusher_pin(3) [of "sg_nv_reader_pins ?new"]
        by (simp add: next_segment_def)
    next
      case True
      then show ?thesis unfolding start if_not_P [OF go] using sy same flusher_pin(1,2) w1(2) ni(2,3)
        by (simp add: next_segment_def world_simps Let_def moved_on_def requested_sync_def set_segment_def)
    qed
  qed
qed

lemma moved_on_facts [world_simps]:
  "w_os (moved_on w) = w_os w" "wal_config (w_wal (moved_on w)) = wal_config (w_wal w)"
  "wal_writers (w_wal (moved_on w)) = wal_writers (w_wal w)"
  "wal_nv_control_block (w_wal (moved_on w)) = wal_nv_control_block (w_wal w)"
  "wal_mds (w_wal (moved_on w)) = wal_mds (w_wal w)"
  "wal_segment_count (w_wal (moved_on w)) = wal_segment_count (w_wal w)"
  "length (wal_segments (w_wal (moved_on w))) = length (wal_segments (w_wal w))"
  by (simp_all add: moved_on_def Let_def)

text \<open>Moving on keeps the log: the full segment stays in the window, the reused one leaves it.\<close>

lemma moved_on_repr:
  assumes r: "log_repr w s" and full: "cur_written w = seg_size w" and d: "Suc (cur_dsid w) < 2 ^ 32"
  shows "log_repr (moved_on w) s" "cur_written (moved_on w) = 0" "cur_dsid (moved_on w) = Suc (cur_dsid w)"
proof -
  note ci = cur_segment_index [OF r] and ni = next_index_facts [OF r]
  let ?w = "moved_on w" and ?gs = "wal_segments (w_wal w)" and ?c = "cur_dsid w"
  let ?S = "seg_size w" and ?N = "seg_count w"
  have N: "2 \<le> ?N" "0 < ?S" "0 < ?c" using r by (auto simp: log_repr_def)
  show c: "cur_dsid ?w = Suc ?c" using ni(4) by (simp add: cur_dsid_def moved_on_def Let_def)
  have SN: "seg_size ?w = ?S" "seg_count ?w = ?N"
    by (simp_all add: seg_size_def seg_count_def world_simps)
  have gs: "wal_segments (w_wal ?w) ! i = (if i = next_index w
      then (?gs ! i)\<lparr>sg_dsid := wal_flusher_current_nv_segment_dsid (w_wal w) + 1, sg_written_bytes := 0,
        sg_fsync_completed := False, sg_fsync_error := None, sg_fsync_requested := False, sg_nv_reader_pins := 0\<rparr>
      else if i = cur_index w then (?gs ! i)\<lparr>sg_fsync_requested := True\<rparr> else ?gs ! i)" if "i < ?N" for i
    using that r ni ci by (auto simp: moved_on_def Let_def nth_list_update log_repr_def)
  have cni: "cur_index ?w = next_index w" by (simp add: cur_index_def next_index_def c SN)
  show "cur_written ?w = 0" using gs [OF ni(1)] by (simp add: cur_written_def cni)
  have len: "length s = ?c * ?S" using log_length [OF r] full N(3) by (cases ?c) simp_all
  have "seg_ok ?S ?N (Suc ?c) (w_os w) s i (wal_segments (w_wal ?w) ! i)" if i: "i < ?N" for i
  proof -
    note o = seg_okD [OF r i]
    consider "i = next_index w" | "i = cur_index w" "i \<noteq> next_index w" | "i \<noteq> cur_index w" "i \<noteq> next_index w" by blast
    then show ?thesis
    proof cases
      case 1
      then show ?thesis using o gs [OF i] ni(4) N len
        by (auto simp: seg_ok_def Let_def next_index_def split: option.splits)
    next
      case 2
      then show ?thesis using o gs [OF i] ci(4) full N
        by (auto simp: seg_ok_def Let_def cur_written_def split: option.splits)
    next
      case 3
      let ?d = "unat (sg_dsid (?gs ! i))"
      have d: "0 < ?d" "(?d - 1) mod ?N = i" "?c < ?d + ?N" "?d < ?c + ?N"
        using o by (simp_all add: seg_ok_def Let_def)
      have "?d \<noteq> ?c" using d(2) 3(1) by (auto simp: cur_index_def)
      moreover have "?d \<noteq> Suc ?c" using d(1,2) 3(2) by (auto simp: next_index_def)
      moreover have "?d + ?N \<noteq> Suc ?c"
      proof
        assume "?d + ?N = Suc ?c"
        then have "?c = ?d - 1 + ?N" using d(1) by simp
        then have "?c mod ?N = (?d - 1) mod ?N" by (simp only: mod_add_self2)
        then show False using d(2) 3(2) by (simp add: next_index_def)
      qed
      ultimately show ?thesis using o gs [OF i] 3 d by (auto simp: seg_ok_def Let_def)
    qed
  qed
  moreover have "sg_nv_baseaddr (wal_segments (w_wal ?w) ! i) = sg_nv_baseaddr (?gs ! i)" if "i < ?N" for i
    using gs [OF that] by simp
  ultimately show "log_repr ?w s"
    using r d N unfolding log_repr_def c SN by (simp add: world_simps)
qed

section \<open>Copying\<close>

text \<open>The world after bytes were copied to the current segment and the head of a frame was moved.\<close>

definition cur_base :: "world \<Rightarrow> addr" where
  "cur_base w = the (sg_nv_baseaddr (wal_segments (w_wal w) ! cur_index w))"

definition copied :: "nat \<Rightarrow> nat \<Rightarrow> u64 \<Rightarrow> byte list \<Rightarrow> world \<Rightarrow> world" where
  "copied wid fi new_head bs w =
     set_segment (cur_index w) (\<lambda>g. g\<lparr>sg_written_bytes := of_nat (cur_written w + length bs)\<rparr>)
       (set_writer wid (set_frame fi (\<lambda>f. f\<lparr>fr_head_offset := new_head\<rparr>))
         (w\<lparr>w_os := (w_os w)\<lparr>os_files := (os_files (w_os w))
            (cur_base w \<mapsto> mem_write (mapped (cur_base w) (w_os w)) (cur_written w) bs)\<rparr>\<rparr>))"

lemma copied_facts [world_simps]:
  "wal_config (w_wal (copied wid fi nh bs w)) = wal_config (w_wal w)"
  "wal_nv_control_block (w_wal (copied wid fi nh bs w)) = wal_nv_control_block (w_wal w)"
  "wal_mds (w_wal (copied wid fi nh bs w)) = wal_mds (w_wal w)"
  "wal_segment_count (w_wal (copied wid fi nh bs w)) = wal_segment_count (w_wal w)"
  "wal_writers (w_wal (copied wid fi nh bs w))
     = (wal_writers (w_wal w))[wid := set_frame fi (\<lambda>f. f\<lparr>fr_head_offset := nh\<rparr>) (wal_writers (w_wal w) ! wid)]"
  "cur_dsid (copied wid fi nh bs w) = cur_dsid w" "seg_size (copied wid fi nh bs w) = seg_size w"
  "seg_count (copied wid fi nh bs w) = seg_count w" "cur_index (copied wid fi nh bs w) = cur_index w"
  by (simp_all add: copied_def world_simps cur_dsid_def seg_size_def seg_count_def cur_index_def)

lemma cur_base_facts:
  assumes "log_repr w s"
  shows "sg_nv_baseaddr (wal_segments (w_wal w) ! cur_index w) = Some (cur_base w)"
    "length (mapped (cur_base w) (w_os w)) = seg_size w" "cur_written w \<le> seg_size w"
    "take (cur_written w) (mapped (cur_base w) (w_os w)) = drop ((cur_dsid w - 1) * seg_size w) s"
  using seg_okD [OF assms cur_segment_index(2) [OF assms]] cur_segment_index(4) [OF assms] log_length [OF assms]
  by (auto simp: seg_ok_def Let_def cur_base_def cur_written_def split: option.splits)

lemma copied_repr:
  assumes r: "log_repr w s" and fit: "cur_written w + length bs \<le> seg_size w"
  shows "log_repr (copied wid fi nh bs w) (s @ bs)" "cur_written (copied wid fi nh bs w) = cur_written w + length bs"
proof -
  note ci = cur_segment_index [OF r] and cb = cur_base_facts [OF r]
  let ?w = "copied wid fi nh bs w" and ?gs = "wal_segments (w_wal w)" and ?c = "cur_dsid w"
  let ?S = "seg_size w" and ?N = "seg_count w" and ?p = "cur_base w"
  have S: "?S < 2 ^ 32" using r by (simp add: log_repr_def)
  have n: "unat (of_nat (cur_written w + length bs) :: u64) = cur_written w + length bs"
    using fit S by (intro unat_of_nat_small) simp
  have gs: "wal_segments (w_wal ?w) ! i = (if i = cur_index w
      then (?gs ! i)\<lparr>sg_written_bytes := of_nat (cur_written w + length bs)\<rparr> else ?gs ! i)" if "i < ?N" for i
    using ci(3) by (simp add: copied_def world_simps nth_list_update)
  show "cur_written ?w = cur_written w + length bs"
    using gs [OF ci(2)] n by (simp add: cur_written_def world_simps)
  have mp: "mapped q (w_os ?w) = (if q = ?p then mem_write (mapped ?p (w_os w)) (cur_written w) bs else mapped q (w_os w))" for q
    by (simp add: copied_def world_simps mapped_def)
  have len: "length s = (?c - 1) * ?S + cur_written w" by (rule log_length [OF r])
  have "seg_ok ?S ?N ?c (w_os ?w) (s @ bs) i (wal_segments (w_wal ?w) ! i)" if i: "i < ?N" for i
  proof (cases "i = cur_index w")
    case True
    have "take (cur_written w + length bs) (mem_write (mapped ?p (w_os w)) (cur_written w) bs)
        = drop ((?c - 1) * ?S) (s @ bs)"
      using take_mem_write_grow [of "cur_written w" bs "mapped ?p (w_os w)"] fit cb(2,4) len by simp
    moreover have "length (mem_write (mapped ?p (w_os w)) (cur_written w) bs) = ?S"
      using fit cb(2) by (simp add: mem_simps)
    ultimately show ?thesis
      using seg_okD [OF r i] True gs [OF i] n fit len ci(4) cb(1) mp
      by (simp add: seg_ok_def Let_def)
  next
    case False
    note o = seg_okD [OF r i]
    have "unat (sg_dsid (?gs ! i)) \<noteq> ?c" using o False by (auto simp: seg_ok_def Let_def cur_index_def)
    then have "seg_ok ?S ?N ?c (w_os w) (s @ bs) i (?gs ! i)" using seg_ok_append [OF o] len by simp
    moreover have "sg_nv_baseaddr (?gs ! i) \<noteq> Some ?p"
      using r i ci(2) False cb(1) by (auto simp: log_repr_def)
    ultimately show ?thesis using gs [OF i] False mp by (auto intro: seg_ok_os)
  qed
  moreover have "sg_nv_baseaddr (wal_segments (w_wal ?w) ! i) = sg_nv_baseaddr (?gs ! i)" if "i < ?N" for i
    using gs [OF that] by simp
  moreover have "length (wal_segments (w_wal ?w)) = length ?gs" by (simp add: copied_def world_simps)
  ultimately show "log_repr ?w (s @ bs)"
    using r unfolding log_repr_def by (simp add: world_simps)
qed

section \<open>Nothing is lost\<close>

text \<open>
  The segments up to the last synced one are on disk, and all later ones are in NVDIMM and not marked
  as synced. The first parameter says which content of the file counts: the visible or the durable
  one.
\<close>

definition seg_bases :: "world \<Rightarrow> addr set" where
  "seg_bases w = {p. \<exists>i < seg_count w. sg_nv_baseaddr (wal_segments (w_wal w) ! i) = Some p}"

definition on_disk :: "(os \<Rightarrow> addr \<rightharpoonup> byte list) \<Rightarrow> world \<Rightarrow> byte list \<Rightarrow> nat \<Rightarrow> bool" where
  "on_disk view w s d =
     (case nvwal_construct_disk_segment_path (w_wal w) (of_nat d) of None \<Rightarrow> False
      | Some p \<Rightarrow> (case view (w_os w) p of None \<Rightarrow> False | Some c \<Rightarrow> take (seg_size w) c = log_slice (seg_size w) d s))"

definition disk_names_ok :: "world \<Rightarrow> bool" where
  "disk_names_ok w \<longleftrightarrow>
     unat (cf_disk_root_len (wal_config (w_wal w))) + 32 < kNvwalMaxPathLength \<and>
     strnlen (cf_disk_root (wal_config (w_wal w))) kNvwalMaxFolderPathLength < kNvwalMaxFolderPathLength \<and>
     (\<forall>d. nvwal_construct_disk_segment_path (w_wal w) d \<notin> Some ` seg_bases w)"

definition last_synced :: "world \<Rightarrow> nat" where
  "last_synced w =
     (case wal_nv_control_block (w_wal w) of None \<Rightarrow> 0
      | Some p \<Rightarrow> unat (sp_last_synced_dsid (cb_fsyncer_progress (os_cblock (w_os w) p))))"

definition log_safe :: "(os \<Rightarrow> addr \<rightharpoonup> byte list) \<Rightarrow> world \<Rightarrow> byte list \<Rightarrow> bool" where
  "log_safe view w s \<longleftrightarrow> log_repr w s \<and> disk_names_ok w \<and>
     last_synced w < cur_dsid w \<and>
     (\<forall>i < seg_count w. unat (sg_dsid (wal_segments (w_wal w) ! i)) \<le> last_synced w + seg_count w) \<and>
     (\<forall>i < seg_count w. sg_fsync_completed (wal_segments (w_wal w) ! i) \<longleftrightarrow>
        unat (sg_dsid (wal_segments (w_wal w) ! i)) \<le> last_synced w) \<and>
     (\<forall>d. 0 < d \<and> d \<le> last_synced w \<longrightarrow> on_disk view w s d)"

lemma disk_path_cong:
  "wal_config wal' = wal_config wal \<Longrightarrow> nvwal_construct_disk_segment_path wal' d = nvwal_construct_disk_segment_path wal d"
  by (simp add: nvwal_construct_disk_segment_path_def)

lemma disk_names_cong:
  assumes "wal_config (w_wal w') = wal_config (w_wal w)" "seg_bases w' = seg_bases w"
  shows "disk_names_ok w' = disk_names_ok w"
  unfolding disk_names_ok_def disk_path_cong [OF assms(1)] assms ..

lemma log_safeD: "log_safe view w s \<Longrightarrow> log_repr w s" "log_safe view w s \<Longrightarrow> disk_names_ok w"
  by (simp_all add: log_safe_def)

lemma log_slice_append:
  assumes "log_repr w s" "0 < d" "d < cur_dsid w"
  shows "log_slice (seg_size w) d (s @ bs) = log_slice (seg_size w) d s"
proof -
  obtain m n where "d = Suc m" "cur_dsid w = Suc (Suc n)" "m \<le> n" using assms(2,3) by (metis Suc_le_eq gr0_implies_Suc less_Suc_eq_le not0_implies_Suc not_less_zero order_less_le_trans zero_less_Suc)
  then have "d * seg_size w \<le> (cur_dsid w - 1) * seg_size w" by simp
  also have "\<dots> \<le> length s" using log_length [OF assms(1)] by simp
  finally have "(d - 1) * seg_size w + seg_size w \<le> length s" using assms(2) by (simp add: diff_mult_distrib)
  then show ?thesis by (simp add: log_slice_def)
qed

lemma copied_seg:
  assumes "log_repr w s"
  shows "sg_nv_baseaddr (wal_segments (w_wal (copied wid fi nh bs w)) ! i) = sg_nv_baseaddr (wal_segments (w_wal w) ! i)"
    "sg_dsid (wal_segments (w_wal (copied wid fi nh bs w)) ! i) = sg_dsid (wal_segments (w_wal w) ! i)"
    "sg_fsync_completed (wal_segments (w_wal (copied wid fi nh bs w)) ! i) = sg_fsync_completed (wal_segments (w_wal w) ! i)"
    "seg_bases (copied wid fi nh bs w) = seg_bases w" "cur_base w \<in> seg_bases w"
proof -
  let ?w = "copied wid fi nh bs w"
  show b: "sg_nv_baseaddr (wal_segments (w_wal ?w) ! i) = sg_nv_baseaddr (wal_segments (w_wal w) ! i)"
    "sg_dsid (wal_segments (w_wal ?w) ! i) = sg_dsid (wal_segments (w_wal w) ! i)"
    "sg_fsync_completed (wal_segments (w_wal ?w) ! i) = sg_fsync_completed (wal_segments (w_wal w) ! i)" for i
    using cur_segment_index(3) [OF assms] by (cases "i = cur_index w", simp_all add: copied_def world_simps)+
  show "seg_bases ?w = seg_bases w" by (simp add: seg_bases_def world_simps b)
  show "cur_base w \<in> seg_bases w"
    using cur_base_facts(1) [OF assms] cur_segment_index(2) [OF assms] by (auto simp: seg_bases_def)
qed

lemma copied_safe:
  assumes r: "log_safe view w s" and view: "view = os_files \<or> view = os_durable"
    and fit: "cur_written w + length bs \<le> seg_size w"
  shows "log_safe view (copied wid fi nh bs w) (s @ bs)"
proof -
  let ?w = "copied wid fi nh bs w"
  note l = log_safeD(1) [OF r]
  note cs = copied_seg [OF l]
  have n: "disk_names_ok ?w" using log_safeD(2) [OF r] cs(4) by (simp add: disk_names_cong [of ?w w] world_simps)
  have v: "view (w_os ?w) p = view (w_os w) p" if "p \<noteq> cur_base w" for p
    using view that by (auto simp: copied_def world_simps)
  have p: "nvwal_construct_disk_segment_path (w_wal ?w) d = nvwal_construct_disk_segment_path (w_wal w) d" for d
    by (simp add: disk_path_cong [of "w_wal ?w" "w_wal w"] world_simps)
  have "on_disk view ?w (s @ bs) d" if d: "0 < d" "d < cur_dsid w" and o: "on_disk view w s d" for d
  proof -
    have "nvwal_construct_disk_segment_path (w_wal w) (of_nat d) \<noteq> Some (cur_base w)"
      using log_safeD(2) [OF r] cs(5) by (metis disk_names_ok_def image_eqI)
    with o show ?thesis
      by (auto simp: on_disk_def p v world_simps log_slice_append [OF l d] split: option.splits)
  qed
  moreover have "last_synced ?w = last_synced w" by (simp add: last_synced_def copied_def world_simps cong: option.case_cong)
  ultimately show ?thesis
    using r copied_repr(1) [OF l fit] n unfolding log_safe_def world_simps cs by auto
qed

text \<open>The flusher reuses a segment only after the fsyncer reported it: moving on loses nothing.\<close>

lemma moved_on_seg:
  assumes "log_repr w s"
  shows "sg_nv_baseaddr (wal_segments (w_wal (moved_on w)) ! i) = sg_nv_baseaddr (wal_segments (w_wal w) ! i)"
    "i \<noteq> next_index w \<Longrightarrow> sg_dsid (wal_segments (w_wal (moved_on w)) ! i) = sg_dsid (wal_segments (w_wal w) ! i)"
    "i \<noteq> next_index w \<Longrightarrow>
       sg_fsync_completed (wal_segments (w_wal (moved_on w)) ! i) = sg_fsync_completed (wal_segments (w_wal w) ! i)"
    "seg_bases (moved_on w) = seg_bases w" "seg_size (moved_on w) = seg_size w" "seg_count (moved_on w) = seg_count w"
proof -
  let ?w = "moved_on w"
  show b: "sg_nv_baseaddr (wal_segments (w_wal ?w) ! i) = sg_nv_baseaddr (wal_segments (w_wal w) ! i)" for i
    using cur_segment_index(3) [OF assms] next_index_facts(2) [OF assms]
    by (simp add: moved_on_def Let_def nth_list_update)
  show "i \<noteq> next_index w \<Longrightarrow> sg_dsid (wal_segments (w_wal ?w) ! i) = sg_dsid (wal_segments (w_wal w) ! i)"
    "i \<noteq> next_index w \<Longrightarrow> sg_fsync_completed (wal_segments (w_wal ?w) ! i) = sg_fsync_completed (wal_segments (w_wal w) ! i)"
    using cur_segment_index(3) [OF assms] next_index_facts(2) [OF assms]
    by (simp_all add: moved_on_def Let_def nth_list_update)
  show c: "seg_count ?w = seg_count w" "seg_size ?w = seg_size w"
    by (simp_all add: seg_count_def seg_size_def world_simps)
  show "seg_bases ?w = seg_bases w" by (simp add: seg_bases_def b c)
qed

text \<open>The segment to be reused is the oldest one of the window, or was never used.\<close>

lemma next_segment_dsid:
  assumes l: "log_repr w s"
  shows "unat (sg_dsid (next_segment w)) = Suc (cur_dsid w) \<or> unat (sg_dsid (next_segment w)) + seg_count w = Suc (cur_dsid w)"
proof -
  let ?d = "unat (sg_dsid (next_segment w))" and ?N = "seg_count w" and ?c = "cur_dsid w"
  have d: "0 < ?d" "(?d - 1) mod ?N = ?c mod ?N" "?c < ?d + ?N" "?d < ?c + ?N"
    using seg_okD [OF l next_index_facts(1) [OF l]] by (simp_all add: seg_ok_def Let_def next_segment_def next_index_def)
  have N: "0 < ?N" using l by (simp add: log_repr_def)
  show ?thesis
  proof (cases "?c \<le> ?d - 1")
    case True
    have "?d - 1 < ?c + ?N" "?c < ?d - 1 + ?N" using d(4) True N by linarith+
    then have "?d - 1 = ?c" by (rule mod_close_eq [OF d(2)])
    with d(1) show ?thesis by linarith
  next
    case False
    have "?d - 1 + ?N < ?c + ?N" "?c < ?d - 1 + ?N + ?N" using d(1,3) False N by linarith+
    moreover have "(?d - 1 + ?N) mod ?N = ?c mod ?N" by (simp only: mod_add_self2 d(2))
    ultimately have "?d - 1 + ?N = ?c" by (metis mod_close_eq)
    with d(1) show ?thesis by linarith
  qed
qed

lemma next_synced_progress:
  assumes r: "log_safe view w s" and synced: "next_synced w"
  shows "cur_dsid w < last_synced w + seg_count w"
proof -
  note l = log_safeD(1) [OF r]
  note ni = next_index_facts [OF l]
  have lt: "last_synced w < cur_dsid w" using r by (simp add: log_safe_def)
  from next_segment_dsid [OF l] show ?thesis
  proof
    assume d: "unat (sg_dsid (next_segment w)) = Suc (cur_dsid w)"
    moreover have "unat (sg_dsid (next_segment w)) \<le> last_synced w + seg_count w"
      using r ni(1) by (simp add: log_safe_def next_segment_def)
    ultimately show ?thesis by linarith
  next
    assume d: "unat (sg_dsid (next_segment w)) + seg_count w = Suc (cur_dsid w)"
    then have "sg_fsync_requested (next_segment w)"
      using seg_okD [OF l ni(1)] l by (simp add: seg_ok_def Let_def next_segment_def log_repr_def)
    then have "sg_fsync_completed (next_segment w)" using synced by (simp add: next_synced_def)
    then have "unat (sg_dsid (next_segment w)) \<le> last_synced w" using r ni(1) by (simp add: log_safe_def next_segment_def)
    with d show ?thesis by linarith
  qed
qed

lemma moved_on_safe:
  assumes r: "log_safe view w s" and full: "cur_written w = seg_size w" and d: "Suc (cur_dsid w) < 2 ^ 32"
    and synced: "next_synced w"
  shows "log_safe view (moved_on w) s"
proof -
  let ?w = "moved_on w" and ?gs = "wal_segments (w_wal w)"
  note l = log_safeD(1) [OF r]
  note ms = moved_on_seg [OF l] and mr = moved_on_repr [OF l full d]
  note ci = cur_segment_index [OF l] and ni = next_index_facts [OF l]
  have n: "disk_names_ok ?w" using log_safeD(2) [OF r] ms(4) by (simp add: disk_names_cong [of ?w w] world_simps)
  have o: "on_disk view ?w s e = on_disk view w s e" for e
    by (simp add: on_disk_def world_simps ms(5) disk_path_cong [of "w_wal ?w" "w_wal w"] cong: option.case_cong)
  have ls: "last_synced ?w = last_synced w" by (simp add: last_synced_def world_simps cong: option.case_cong)
  have new: "unat (sg_dsid (wal_segments (w_wal ?w) ! next_index w)) = Suc (cur_dsid w)"
    "\<not> sg_fsync_completed (wal_segments (w_wal ?w) ! next_index w)"
    using ni ci(3) by (simp_all add: moved_on_def Let_def)
  have lt: "last_synced w < cur_dsid w" using r by (simp add: log_safe_def)
  have flags: "sg_fsync_completed (wal_segments (w_wal ?w) ! i) = (unat (sg_dsid (wal_segments (w_wal ?w) ! i)) \<le> last_synced w)"
    if "i < seg_count w" for i
    using r that new lt ms(2,3) [of i] by (cases "i = next_index w") (simp_all add: log_safe_def)
  have "cur_dsid w < last_synced w + seg_count w"
    by (rule next_synced_progress [OF r synced])
  then have "unat (sg_dsid (wal_segments (w_wal ?w) ! i)) \<le> last_synced w + seg_count w" if "i < seg_count w" for i
    using r that new ms(2) [of i] by (cases "i = next_index w") (simp_all add: log_safe_def)
  then show ?thesis using r mr n o ls flags lt unfolding log_safe_def ms(6) by simp
qed

end
