(* ===== verification/Consume.thy ===== *)
theory Consume
  imports Writer_Correct
begin

text \<open>
  The flusher's side of a writer's buffer: the frame of an epoch is found in the array of frames, and
  moving its head offset to its tail consumes exactly the piece of that epoch.
\<close>

section \<open>One frame of an epoch\<close>

lemma find_epoch_frame_found:
  assumes "\<exists>f \<in> set fs. fr_log_epoch f = e"
  shows "find_epoch_frame fs e < length fs" "fr_log_epoch (fs ! find_epoch_frame fs e) = e"
  using assms by (induction fs) auto

lemma find_epoch_frame_none: "\<forall>f \<in> set fs. fr_log_epoch f \<noteq> e \<Longrightarrow> find_epoch_frame fs e = length fs"
  by (induction fs) auto

lemma update_only:
  assumes "length (filter P xs) \<le> 1" "i < length xs" "P (xs ! i)"
  shows "xs[i := f (xs ! i)] = map (\<lambda>x. if P x then f x else x) xs"
  using assms
proof (induction xs arbitrary: i)
  case (Cons x xs)
  have rest: "\<forall>y \<in> set xs. \<not> P y" if "P x" using Cons.prems(1) that by (simp add: filter_empty_conv)
  then show ?case
  proof (cases i)
    case 0
    with Cons.prems(3) rest show ?thesis by (simp add: map_idI)
  next
    case (Suc j)
    then have "\<not> P x" using Cons.prems(2,3) rest by auto
    with Suc Cons show ?thesis by simp
  qed
qed simp

lemma only_member:
  assumes "length (filter P xs) \<le> 1" "x \<in> set xs" "P x"
  shows "filter P xs = [x]"
proof -
  have x: "x \<in> set (filter P xs)" using assms(2,3) by simp
  then show ?thesis using assms(1) by (cases "filter P xs") auto
qed

lemma filter_rotate_length: "length (filter P (rotate n xs)) = length (filter P xs)"
proof (induction n)
  case (Suc n)
  have "length (filter P (rotate1 ys)) = length (filter P ys)" for ys by (cases ys) auto
  with Suc show ?case by simp
qed simp

lemma list_all2_filter_length:
  assumes "list_all2 R xs ys" "\<And>x y. x \<in> set xs \<Longrightarrow> R x y \<Longrightarrow> P x = Q y"
  shows "length (filter P xs) = length (filter Q ys)"
  using assms by (induction rule: list_all2_induct) auto

lemma list_all2_related: "list_all2 R xs ys \<Longrightarrow> y \<in> set ys \<Longrightarrow> \<exists>x \<in> set xs. R x y"
  by (induction rule: list_all2_induct) auto

lemma rank_unique:
  assumes "sorted_wrt (\<lambda>u v. pc_rank u < pc_rank v \<and> pc_tail u \<le> pc_head v) vs"
  shows "length (filter (\<lambda>v. pc_rank v = e) vs) \<le> 1"
  using assms by (induction vs) (auto simp: filter_empty_conv)

text \<open>All epochs of a writer's pieces are near \<open>e\<close>, so that their numbers tell them apart.\<close>

definition near_rank :: "nat \<Rightarrow> piece list \<Rightarrow> bool" where
  "near_rank e vs \<longleftrightarrow> 0 < e \<and> (\<forall>v \<in> set vs. pc_rank v < e + 2 ^ 62 \<and> e < pc_rank v + 2 ^ 62)"

lemma near_rank_eq: "near_rank e vs \<Longrightarrow> v \<in> set vs \<Longrightarrow> epoch_at (pc_rank v) = epoch_at e \<longleftrightarrow> pc_rank v = e"
  by (auto simp: near_rank_def epoch_at_eq)

lemma frames_of_epoch:
  assumes r: "writer_repr wal wr sent vs lo" and near: "near_rank e vs"
  shows "length (filter (\<lambda>f. fr_log_epoch f = epoch_at e) (wr_epoch_frames wr)) = length (filter (\<lambda>v. pc_rank v = e) vs)"
proof -
  let ?P = "\<lambda>f. fr_log_epoch f = epoch_at e" and ?fs = "frames_by_age wr"
  have mk: "frames_mark (buffer_size wal) vs ?fs" using r by (simp add: writer_repr_def)
  let ?k = "length ?fs - length vs"
  have "\<forall>f \<in> set (take ?k ?fs). \<not> ?P f"
    using mk near epoch_at_neq_0 [of e] by (auto simp: frames_mark_def near_rank_def)
  then have "filter ?P (take ?k ?fs) = []" by (simp add: filter_empty_conv)
  then have "filter ?P ?fs = filter ?P (drop ?k ?fs)"
    by (metis append_Nil append_take_drop_id filter_append)
  moreover have "list_all2 (frame_marks (buffer_size wal)) vs (drop ?k ?fs)" using mk by (simp add: frames_mark_def)
  then have "length (filter (\<lambda>v. pc_rank v = e) vs) = length (filter ?P (drop ?k ?fs))"
    by (rule list_all2_filter_length) (auto simp: frame_marks_def near_rank_eq [OF near])
  moreover have "length (filter ?P ?fs) = length (filter ?P (wr_epoch_frames wr))"
    by (simp add: frames_by_age_def filter_rotate_length del: rotate_Suc)
  ultimately show ?thesis by simp
qed

section \<open>Consuming\<close>

definition consume :: "nat \<Rightarrow> piece list \<Rightarrow> piece list" where
  "consume e vs = map (\<lambda>v. if pc_rank v = e then v\<lparr>pc_head := pc_tail v\<rparr> else v) vs"

text \<open>The bytes a writer has for an epoch that are not in the log yet.\<close>

definition epoch_bytes :: "nat \<Rightarrow> byte list \<Rightarrow> piece list \<Rightarrow> byte list" where
  "epoch_bytes e sent vs = concat (map (piece_bytes sent) (filter (\<lambda>v. pc_rank v = e) vs))"

lemma frames_mark_map:
  assumes "frames_mark B vs fs" "\<And>v f. v \<in> set vs \<Longrightarrow> frame_marks B v f \<Longrightarrow> frame_marks B (g v) (h f)"
    and "\<And>f. fr_log_epoch (h f) = fr_log_epoch f"
  shows "frames_mark B (map g vs) (map h fs)"
proof -
  have "list_all2 (\<lambda>v f. frame_marks B (g v) (h f)) vs (drop (length fs - length vs) fs)"
    using assms(1) assms(2) by (auto simp: frames_mark_def intro: list.rel_mono_strong)
  then show ?thesis
    using assms(1,3) by (auto simp: frames_mark_def list_all2_map1 list_all2_map2 drop_map take_map)
qed

lemma consume_repr:
  assumes r: "writer_repr wal wr sent vs lo" and near: "near_rank e vs"
    and i: "i < length (wr_epoch_frames wr)" "fr_log_epoch (wr_epoch_frames wr ! i) = epoch_at e"
  shows "writer_repr wal (set_frame i (\<lambda>f. f\<lparr>fr_head_offset := fr_tail_offset f\<rparr>) wr) sent (consume e vs) lo"
proof -
  let ?P = "\<lambda>f. fr_log_epoch f = epoch_at e" and ?B = "buffer_size wal"
  let ?h = "\<lambda>f. if ?P f then f\<lparr>fr_head_offset := fr_tail_offset f\<rparr> else f" and ?wr = "set_frame i (\<lambda>f. f\<lparr>fr_head_offset := fr_tail_offset f\<rparr>) wr"
  have "pieces_ok ?B sent vs" using r by (simp add: writer_repr_def)
  then have so: "sorted_wrt (\<lambda>u v. pc_rank u < pc_rank v \<and> pc_tail u \<le> pc_head v) vs" and ok: "pieces_ok ?B sent vs"
    by (simp_all add: pieces_ok_def)
  have "length (filter ?P (wr_epoch_frames wr)) \<le> 1"
    using frames_of_epoch [OF r near] rank_unique [OF so, of e] by simp
  then have "wr_epoch_frames ?wr = map ?h (wr_epoch_frames wr)"
    using update_only [OF _ i(1), of ?P "\<lambda>f. f\<lparr>fr_head_offset := fr_tail_offset f\<rparr>"] i(2) by (simp add: set_frame_def)
  then have "frames_by_age ?wr = map ?h (frames_by_age wr)"
    by (simp add: frames_by_age_def rotate_map del: rotate_Suc)
  moreover have "frames_mark ?B (consume e vs) (map ?h (frames_by_age wr))"
    unfolding consume_def
    by (rule frames_mark_map) (use r in \<open>auto simp: writer_repr_def frame_marks_def near_rank_eq [OF near]\<close>)
  moreover have "pieces_ok ?B sent (consume e vs)"
  proof -
    have "sorted_wrt (\<lambda>u v. pc_rank u < pc_rank v \<and> pc_tail u \<le> pc_head v) (consume e vs)"
      unfolding consume_def sorted_wrt_map
      by (rule sorted_wrt_mono_rel [OF _ so]) (use ok in \<open>auto simp: pieces_ok_def\<close>)
    moreover have "vs \<noteq> [] \<Longrightarrow> pc_tail (last (consume e vs)) = pc_tail (last vs)"
      by (simp add: consume_def last_map)
    ultimately show ?thesis using ok by (auto simp: pieces_ok_def consume_def)
  qed
  ultimately show ?thesis using r by (auto simp: writer_repr_def consume_def)
qed

lemma consume_none:
  assumes "\<forall>v \<in> set vs. pc_rank v \<noteq> e"
  shows "consume e vs = vs" "epoch_bytes e sent vs = []"
  using assms by (auto simp: consume_def epoch_bytes_def map_idI)

lemma consume_flushed: "flushed_upto de vs \<Longrightarrow> flushed_upto (Suc de) (consume (Suc de) vs)"
  by (auto simp: flushed_upto_def consume_def)

text \<open>What the flusher finds for an epoch: no frame and no bytes, or the frame of its only piece.\<close>

lemma find_piece:
  assumes r: "writer_repr wal wr sent vs lo" and near: "near_rank e vs"
  obtains "find_epoch_frame (wr_epoch_frames wr) (epoch_at e) = kNvwalEpochFrameCount"
      "consume e vs = vs" "epoch_bytes e sent vs = []"
    | fi v where "find_epoch_frame (wr_epoch_frames wr) (epoch_at e) = fi" "fi < kNvwalEpochFrameCount"
      "fi < length (wr_epoch_frames wr)" "fr_log_epoch (wr_epoch_frames wr ! fi) = epoch_at e" "v \<in> set vs" "pc_rank v = e"
      "frame_marks (buffer_size wal) v (wr_epoch_frames wr ! fi)" "epoch_bytes e sent vs = piece_bytes sent v"
proof -
  let ?fs = "wr_epoch_frames wr" and ?ga = "frames_by_age wr"
  have sh: "length ?fs = kNvwalEpochFrameCount" using r by (simp add: writer_repr_def frames_shape_def)
  have so: "sorted_wrt (\<lambda>u v. pc_rank u < pc_rank v \<and> pc_tail u \<le> pc_head v) vs"
    using r by (simp add: writer_repr_def pieces_ok_def)
  show thesis
  proof (cases "\<exists>f \<in> set ?fs. fr_log_epoch f = epoch_at e")
    case False
    then have "find_epoch_frame ?fs (epoch_at e) = kNvwalEpochFrameCount" using find_epoch_frame_none [of ?fs "epoch_at e"] sh by simp
    moreover have "filter (\<lambda>v. pc_rank v = e) vs = []"
      using frames_of_epoch [OF r near] False by simp
    then have "\<forall>v \<in> set vs. pc_rank v \<noteq> e" by (simp add: filter_empty_conv)
    ultimately show ?thesis using that(1) consume_none [of vs e] by blast
  next
    case True
    let ?i = "find_epoch_frame ?fs (epoch_at e)"
    note i = find_epoch_frame_found [OF True]
    have mk: "frames_mark (buffer_size wal) vs ?ga" using r by (simp add: writer_repr_def)
    let ?k = "length ?ga - length vs"
    have "?fs ! ?i \<in> set ?ga" using i(1) by (simp add: frames_by_age_def)
    moreover have "?fs ! ?i \<notin> set (take ?k ?ga)"
      using mk near epoch_at_neq_0 [of e] i(2) by (auto simp: frames_mark_def near_rank_def)
    ultimately have "?fs ! ?i \<in> set (drop ?k ?ga)" by (metis Un_iff append_take_drop_id set_append)
    moreover have "list_all2 (frame_marks (buffer_size wal)) vs (drop ?k ?ga)" using mk by (simp add: frames_mark_def)
    ultimately obtain v where v: "v \<in> set vs" "frame_marks (buffer_size wal) v (?fs ! ?i)"
      using list_all2_related by metis
    then have e: "pc_rank v = e" using i(2) near_rank_eq [OF near v(1)] by (simp add: frame_marks_def)
    have "filter (\<lambda>v. pc_rank v = e) vs = [v]"
      using only_member [OF rank_unique [OF so, of e] v(1) e] .
    then have "epoch_bytes e sent vs = piece_bytes sent v" by (simp add: epoch_bytes_def)
    with that(2) [OF refl _ i(1,2) v(1) e v(2)] i(1) sh show ?thesis by simp
  qed
qed

end
