(* ===== verification/Flusher_Correct.thy ===== *)
theory Flusher_Correct
  imports Log Consume
begin

text \<open>
  The flusher appends to the log: from a writer's frame it copies exactly the bytes of the frame's
  piece, through as many segments as that takes, unless it has to wait for the fsyncer or for a
  cursor that reads the segment to be reused.
\<close>

section \<open>What the flusher may change\<close>

text \<open>
  The segments, the number of the current one, the writers, the tags collected for the epoch, and the
  memory of the segments; nothing else of the context and of the operating system.
\<close>

definition context_rest :: "NvwalContext \<Rightarrow> NvwalContext" where
  "context_rest wal = wal\<lparr>wal_segments := [], wal_flusher_current_nv_segment_dsid := 0, wal_writers := [],
     wal_flusher_current_epoch_user_metadata_0 := 0, wal_flusher_current_epoch_user_metadata_1 := 0\<rparr>"

definition pins_ok :: "world \<Rightarrow> bool" where
  "pins_ok w \<longleftrightarrow> (\<forall>i < seg_count w. unat (sg_nv_reader_pins (wal_segments (w_wal w) ! i)) + 1 < 2 ^ 31)"

definition flush_frame :: "world \<Rightarrow> world \<Rightarrow> bool" where
  "flush_frame w w' \<longleftrightarrow>
     context_rest (w_wal w') = context_rest (w_wal w) \<and>
     (w_os w')\<lparr>os_files := Map.empty\<rparr> = (w_os w)\<lparr>os_files := Map.empty\<rparr> \<and>
     (\<forall>q. q \<notin> seg_bases w \<longrightarrow> os_files (w_os w') q = os_files (w_os w) q) \<and>
     (\<forall>i. sg_nv_baseaddr (wal_segments (w_wal w') ! i) = sg_nv_baseaddr (wal_segments (w_wal w) ! i)) \<and>
     seg_count w' = seg_count w \<and> cur_dsid w \<le> cur_dsid w' \<and> (pins_ok w \<longrightarrow> pins_ok w')"

lemma flush_frame_refl: "flush_frame w w"
  by (simp add: flush_frame_def)

lemma flush_frame_pins: "flush_frame w w' \<Longrightarrow> pins_ok w \<Longrightarrow> pins_ok w'"
  unfolding flush_frame_def by blast

lemma pins_ok_cong: "wal_segments (w_wal w') = wal_segments (w_wal w) \<Longrightarrow> seg_count w' = seg_count w \<Longrightarrow> pins_ok w' = pins_ok w"
  by (simp add: pins_ok_def)

lemma flush_frame_bases: "flush_frame w w' \<Longrightarrow> seg_bases w' = seg_bases w"
  by (simp add: flush_frame_def seg_bases_def)

lemma flush_frame_trans: "flush_frame u v \<Longrightarrow> flush_frame v w \<Longrightarrow> flush_frame u w"
  using flush_frame_bases [of u v] by (simp add: flush_frame_def)

lemma flush_frame_wal:
  assumes "flush_frame w w'"
  shows "wal_config (w_wal w') = wal_config (w_wal w)"
    "wal_segment_count (w_wal w') = wal_segment_count (w_wal w)"
    "wal_nv_control_block (w_wal w') = wal_nv_control_block (w_wal w)"
    "wal_mds (w_wal w') = wal_mds (w_wal w)"
    "wal_durable_epoch (w_wal w') = wal_durable_epoch (w_wal w)"
    "wal_stable_epoch (w_wal w') = wal_stable_epoch (w_wal w)"
    "wal_flusher_current_epoch_head_dsid (w_wal w') = wal_flusher_current_epoch_head_dsid (w_wal w)"
    "wal_flusher_current_epoch_head_offset (w_wal w') = wal_flusher_current_epoch_head_offset (w_wal w)"
proof -
  have e: "context_rest (w_wal w') = context_rest (w_wal w)" using assms by (simp add: flush_frame_def)
  show "wal_config (w_wal w') = wal_config (w_wal w)" using arg_cong [OF e, of wal_config] by (simp add: context_rest_def)
  show "wal_segment_count (w_wal w') = wal_segment_count (w_wal w)" using arg_cong [OF e, of wal_segment_count] by (simp add: context_rest_def)
  show "wal_nv_control_block (w_wal w') = wal_nv_control_block (w_wal w)" using arg_cong [OF e, of wal_nv_control_block] by (simp add: context_rest_def)
  show "wal_mds (w_wal w') = wal_mds (w_wal w)" using arg_cong [OF e, of wal_mds] by (simp add: context_rest_def)
  show "wal_durable_epoch (w_wal w') = wal_durable_epoch (w_wal w)" using arg_cong [OF e, of wal_durable_epoch] by (simp add: context_rest_def)
  show "wal_stable_epoch (w_wal w') = wal_stable_epoch (w_wal w)" using arg_cong [OF e, of wal_stable_epoch] by (simp add: context_rest_def)
  show "wal_flusher_current_epoch_head_dsid (w_wal w') = wal_flusher_current_epoch_head_dsid (w_wal w)" using arg_cong [OF e, of wal_flusher_current_epoch_head_dsid] by (simp add: context_rest_def)
  show "wal_flusher_current_epoch_head_offset (w_wal w') = wal_flusher_current_epoch_head_offset (w_wal w)" using arg_cong [OF e, of wal_flusher_current_epoch_head_offset] by (simp add: context_rest_def)
qed

lemma flush_frame_os:
  assumes "flush_frame w w'"
  shows "os_durable (w_os w') = os_durable (w_os w)"
    "os_dirs (w_os w') = os_dirs (w_os w)"
    "os_cblock (w_os w') = os_cblock (w_os w)"
    "os_cblock_durable (w_os w') = os_cblock_durable (w_os w)"
    "os_fds (w_os w') = os_fds (w_os w)"
    "os_next_fd (w_os w') = os_next_fd (w_os w)"
    "os_resp (w_os w') = os_resp (w_os w)"
proof -
  have e: "(w_os w')\<lparr>os_files := Map.empty\<rparr> = (w_os w)\<lparr>os_files := Map.empty\<rparr>" using assms by (simp add: flush_frame_def)
  show "os_durable (w_os w') = os_durable (w_os w)" using arg_cong [OF e, of os_durable] by simp
  show "os_dirs (w_os w') = os_dirs (w_os w)" using arg_cong [OF e, of os_dirs] by simp
  show "os_cblock (w_os w') = os_cblock (w_os w)" using arg_cong [OF e, of os_cblock] by simp
  show "os_cblock_durable (w_os w') = os_cblock_durable (w_os w)" using arg_cong [OF e, of os_cblock_durable] by simp
  show "os_fds (w_os w') = os_fds (w_os w)" using arg_cong [OF e, of os_fds] by simp
  show "os_next_fd (w_os w') = os_next_fd (w_os w)" using arg_cong [OF e, of os_next_fd] by simp
  show "os_resp (w_os w') = os_resp (w_os w)" using arg_cong [OF e, of os_resp] by simp
qed

lemma flush_frame_size: "flush_frame w w' \<Longrightarrow> seg_size w' = seg_size w" "flush_frame w w' \<Longrightarrow> seg_count w' = seg_count w"
  by (simp_all add: seg_size_def seg_count_def flush_frame_wal)

lemma flush_frame_copied: "log_repr w s \<Longrightarrow> flush_frame w (copied wid fi nh bs w)"
proof -
  assume r: "log_repr w s"
  have "context_rest (w_wal (copied wid fi nh bs w)) = context_rest (w_wal w)"
    "(w_os (copied wid fi nh bs w))\<lparr>os_files := Map.empty\<rparr> = (w_os w)\<lparr>os_files := Map.empty\<rparr>"
    "q \<noteq> cur_base w \<Longrightarrow> os_files (w_os (copied wid fi nh bs w)) q = os_files (w_os w) q" for q
    by (simp_all add: context_rest_def copied_def set_segment_def set_writer_def Let_def)
  moreover have "sg_nv_reader_pins (wal_segments (w_wal (copied wid fi nh bs w)) ! i) = sg_nv_reader_pins (wal_segments (w_wal w) ! i)" for i
    using cur_segment_index(3) [OF r] by (cases "i = cur_index w", simp_all add: copied_def world_simps)
  then have "pins_ok (copied wid fi nh bs w) = pins_ok w" by (simp add: pins_ok_def copied_facts)
  ultimately show ?thesis using copied_seg(1,5) [OF r] unfolding flush_frame_def by (metis copied_facts order_refl)
qed

lemma flush_frame_moved_on:
  assumes r: "log_repr w s"
  shows "flush_frame w (moved_on w)"
proof -
  have "cur_dsid w \<le> cur_dsid (moved_on w)" using next_index_facts(4) [OF r] by (simp add: cur_dsid_def moved_on_def Let_def)
  moreover have "unat (sg_nv_reader_pins (wal_segments (w_wal (moved_on w)) ! i)) \<le> unat (sg_nv_reader_pins (wal_segments (w_wal w) ! i))" for i
    using cur_segment_index(3) [OF r] next_index_facts(2) [OF r] by (simp add: moved_on_def Let_def nth_list_update)
  then have "pins_ok w \<longrightarrow> pins_ok (moved_on w)" using moved_on_seg(6) [OF r] by (auto simp: pins_ok_def intro: le_less_trans)
  ultimately show ?thesis using moved_on_seg(1,6) [OF r] by (simp add: flush_frame_def) (simp add: context_rest_def moved_on_def Let_def)
qed

section \<open>One round\<close>

text \<open>A frame of a writer that marks the positions from \<open>h\<close> to \<open>t\<close> of the writer's sequence.\<close>

definition frame_pending :: "world \<Rightarrow> nat \<Rightarrow> nat \<Rightarrow> byte list \<Rightarrow> nat \<Rightarrow> nat \<Rightarrow> nat \<Rightarrow> bool" where
  "frame_pending w wid fi sent lo h t \<longleftrightarrow>
     (let B = buffer_size (w_wal w); wr = wal_writers (w_wal w) ! wid; f = wr_epoch_frames wr ! fi
      in wid < length (wal_writers (w_wal w)) \<and> fi < length (wr_epoch_frames wr) \<and> 0 < B \<and> B < 2 ^ 62 \<and>
         length (wr_buffer wr) = B \<and> ring_holds (wr_buffer wr) lo sent \<and> h \<le> t \<and> t < h + B \<and> t \<le> length sent \<and>
         (h < t \<longrightarrow> lo \<le> h) \<and> fr_head_offset f = of_nat (h mod B) \<and> fr_tail_offset f = of_nat (t mod B))"

lemma frame_pending_copied:
  assumes "frame_pending w wid fi sent lo h t" "h + c \<le> t"
  shows "frame_pending (copied wid fi (of_nat ((h + c) mod buffer_size (w_wal w))) bs w) wid fi sent lo (h + c) t"
  using assms by (auto simp: frame_pending_def Let_def world_simps buffer_size_def set_frame_def)

lemma frame_pending_moved_on: "frame_pending w wid fi sent lo h t \<Longrightarrow> frame_pending (moved_on w) wid fi sent lo h t"
  by (simp add: frame_pending_def Let_def world_simps buffer_size_def)

lemma copy_round_result:
  assumes r: "log_repr w s" and open': "cur_written w < seg_size w" and f: "frame_pending w wid fi sent lo h t"
    and c: "c = min (seg_size w - cur_written w) (t - h)"
    and w1: "w1 = copied wid fi (of_nat ((h + c) mod buffer_size (w_wal w))) (take c (drop h sent)) w"
  shows "flusher_copy_round wid fi w =
           (if h = t then Ok False w
            else if cur_written w + c = seg_size w
            then and_then (flusher_move_onto_next_nv_segment w1) (\<lambda>_ w. Ok True w)
            else Ok False w1)"
proof -
  note ci = cur_segment_index [OF r] and cb = cur_base_facts [OF r]
  let ?B = "buffer_size (w_wal w)" and ?wr = "wal_writers (w_wal w) ! wid" and ?g = "wal_segments (w_wal w) ! cur_index w"
  let ?S = "cf_segment_size (wal_config (w_wal w))" and ?Z = "cf_writer_buffer_size (wal_config (w_wal w))"
  let ?f = "wr_epoch_frames ?wr ! fi" and ?m = "mapped (cur_base w) (w_os w)"
  have p: "wid < length (wal_writers (w_wal w))" "fi < length (wr_epoch_frames ?wr)" "0 < ?B" "?B < 2 ^ 62"
    "length (wr_buffer ?wr) = ?B" "ring_holds (wr_buffer ?wr) lo sent" "h \<le> t" "t < h + ?B" "t \<le> length sent" "h < t \<Longrightarrow> lo \<le> h"
    "fr_head_offset ?f = of_nat (h mod ?B)" "fr_tail_offset ?f = of_nat (t mod ?B)"
    using f by (auto simp: frame_pending_def Let_def)
  have d: "calculate_writer_offset_distance (w_wal w) (fr_head_offset ?f) (fr_tail_offset ?f) = of_nat (t - h)"
    using offset_distance [OF refl p(3,4,7,8)] p(11,12) by simp
  have th: "unat (of_nat (t - h) :: u64) = t - h" using p(4,8) by (intro unat_of_nat_small) simp
  have W: "unat (sg_written_bytes ?g) = cur_written w" "unat ?S = seg_size w" by (simp_all add: cur_written_def seg_size_def)
  have le: "sg_written_bytes ?g \<le> ?S" using open' W by (simp add: word_le_nat_alt)
  let ?room = "?S - sg_written_bytes ?g"
  define k where "k = (if ?room < of_nat (t - h) then ?room else of_nat (t - h))"
  have k: "unat k = c" unfolding k_def using unat_min_u64 [of ?room "of_nat (t - h)"] unat_minus_le [OF le] W th c by simp
  have S32: "seg_size w < 2 ^ 32" using r by (simp add: log_repr_def)
  show ?thesis
  proof (cases "h = t")
    case True
    then have "calculate_writer_offset_distance (w_wal w) (fr_head_offset ?f) (fr_tail_offset ?f) = 0" using d by simp
    then show ?thesis using ci(1,3) cb(1) p(1,2) True by (simp add: flusher_copy_round_def Let_def)
  next
    case False
    then have lt: "h < t" using p(7) by simp
    have nz: "(of_nat (t - h) :: u64) \<noteq> 0" using th lt by (metis diff_is_0_eq not_le unat_0)
    have cB: "c < ?B" "c \<le> t - h" "cur_written w + c \<le> seg_size w" using c p(8) lt open' by auto
    have bytes: "circular_read (wr_buffer ?wr) (h mod ?B) c = take c (drop h sent)"
      using ring_read [OF p(6) p(10) [OF lt], of c] p(3,5,9) cB(2) lt by fastforce
    have hm: "unat (of_nat (h mod ?B) :: u64) = h mod ?B" by (rule unat_of_nat_mod [OF p(3,4)])
    have "h mod ?B < ?B" using p(3) by simp
    then have mc: "nvwal_circular_memcpy ?m (unat (sg_written_bytes ?g)) (wr_buffer ?wr) ?Z (of_nat (h mod ?B)) k
        = Some (mem_write ?m (cur_written w) (take c (drop h sent)))"
      using circular_memcpy_spec [of "wr_buffer ?wr" ?Z "of_nat (h mod ?B)" k "cur_written w" ?m] p(4,5) k cB hm cb(2) W(1) bytes
      by (simp add: word_le_nat_alt buffer_size_def)
    have ow: "wrap_writer_offset (w_wal w) (of_nat (h mod ?B) + k) = Some (of_nat ((h + c) mod ?B))"
      using offset_wrap [OF refl p(3,4), of k h] k cB(1) by simp
    have len: "length (take c (drop h sent)) = c" using cB(2) p(9) lt by simp
    have wk: "unat (sg_written_bytes ?g + k) = cur_written w + c"
      using unat_plus_no_wrap [of "sg_written_bytes ?g" k] W k cB(3) S32 by simp
    have full: "(sg_written_bytes ?g + k = ?S) = (cur_written w + c = seg_size w)"
      using wk W by (metis unat_eq_u64)
    have wc: "of_nat (cur_written w + c) = sg_written_bytes ?g + k"
      using wk by (metis of_nat_unat ucast_id)
    have w1': "w1 = set_segment (cur_index w) (\<lambda>g. g\<lparr>sg_written_bytes := sg_written_bytes ?g + k\<rparr>)
        (set_writer wid (set_frame fi (\<lambda>f. f\<lparr>fr_head_offset := of_nat ((h + c) mod ?B)\<rparr>))
          (w\<lparr>w_os := (w_os w)\<lparr>os_files := (os_files (w_os w))
             (cur_base w \<mapsto> mem_write ?m (cur_written w) (take c (drop h sent)))\<rparr>\<rparr>))"
      unfolding w1 copied_def len wc ..
    have last: "k = of_nat (t - h)" if "cur_written w + c \<noteq> seg_size w"
    proof -
      have "c = t - h" using that c cB(3) open' by linarith
      then show "k = of_nat (t - h)" using k th by (metis unat_eq_u64)
    qed
    have "flusher_copy_round wid fi w =
        (if sg_written_bytes ?g + k = ?S then and_then (flusher_move_onto_next_nv_segment w1) (\<lambda>_ w. Ok True w)
         else if k = of_nat (t - h) then Ok False w1 else Ok True w1)"
      unfolding flusher_copy_round_def ci(1) checked_Some elem_at_in [OF ci(3)] cb(1) elem_at_in [OF p(1)] elem_at_in [OF p(2)] Let_def d
        if_not_P [OF nz] k_def [symmetric]
      using ci(3) le k W cb(2) cB(3)
      by (simp add: mc [unfolded W] ow p(11) w1')
    then show ?thesis using full last False by auto
  qed
qed

section \<open>The loop\<close>

text \<open>
  The copy of a frame ends with all its bytes in the log, or at a segment boundary where the next
  segment cannot be reused: it is not synced yet, a cursor has it pinned, or its sync failed.
\<close>

definition flush_blocked :: "(os \<Rightarrow> addr \<rightharpoonup> byte list) \<Rightarrow> world \<Rightarrow> world \<Rightarrow> byte list \<Rightarrow> errno option \<Rightarrow> world \<Rightarrow> bool" where
  "flush_blocked view w w0 s' e w' \<longleftrightarrow>
     log_safe view w0 s' \<and> cur_written w0 = seg_size w0 \<and> flush_frame w w0 \<and> w' = requested_sync w0 \<and>
     (case e of None \<Rightarrow> \<not> next_synced w0 \<and> sg_fsync_error (next_segment w0) = None \<or> next_synced w0 \<and> sg_nv_reader_pins (next_segment w0) \<noteq> 0
      | Some e \<Rightarrow> \<not> next_synced w0 \<and> sg_fsync_error (next_segment w0) = Some e)"

definition flush_open :: "(os \<Rightarrow> addr \<rightharpoonup> byte list) \<Rightarrow> world \<Rightarrow> byte list \<Rightarrow> bool" where
  "flush_open view w s \<longleftrightarrow> log_safe view w s \<and> cur_written w < seg_size w"

lemma flush_blocked_step:
  assumes "flush_frame w w1" "flush_blocked view w1 w0 s' e w'"
  shows "flush_blocked view w w0 s' e w'"
  using assms flush_frame_trans by (auto simp: flush_blocked_def)

text \<open>A round that fills the segment.\<close>

lemma move_cases:
  assumes r: "log_safe view w s" and full: "cur_written w = seg_size w" and d: "length s < (2 ^ 32 - 2) * seg_size w"
  obtains "flusher_move_onto_next_nv_segment w = Ok () (moved_on w)" "flush_open view (moved_on w) s" "flush_frame w (moved_on w)"
    | e where "flusher_move_onto_next_nv_segment w = Fail e (requested_sync w)" "flush_blocked view w w s (Some e) (requested_sync w)"
    | "flusher_move_onto_next_nv_segment w = Spin (requested_sync w)" "flush_blocked view w w s None (requested_sync w)"
proof -
  note l = log_safeD(1) [OF r]
  have S: "0 < seg_size w" "0 < cur_dsid w" using l by (simp_all add: log_repr_def)
  have "length s = cur_dsid w * seg_size w" using log_length [OF l] full S(2) by (simp add: diff_mult_distrib)
  with d S(1) have "Suc (cur_dsid w) < 2 ^ 32" by simp
  note m = moved_on_repr(2) [OF l full this] moved_on_safe [OF r full this] flush_frame_moved_on [OF l] moved_on_seg(5) [OF l]
  show thesis
    using flusher_move_result [OF l full] m S(1) r full that
    by (auto simp: flush_open_def flush_blocked_def flush_frame_refl split: if_splits option.splits)
qed

definition blocked_outcome :: "errno option \<Rightarrow> world \<Rightarrow> (unit, world) outcome" where
  "blocked_outcome e w = (case e of None \<Rightarrow> Spin w | Some e \<Rightarrow> Fail e w)"

definition frame_consumed :: "nat \<Rightarrow> nat \<Rightarrow> nat \<Rightarrow> world \<Rightarrow> NvwalWriterContext list" where
  "frame_consumed wid fi t w =
     (wal_writers (w_wal w))[wid := set_frame fi (\<lambda>f. f\<lparr>fr_head_offset := of_nat (t mod buffer_size (w_wal w))\<rparr>)
        (wal_writers (w_wal w) ! wid)]"

lemma set_head_id:
  assumes "fr_head_offset (wr_epoch_frames wr ! fi) = v"
  shows "set_frame fi (\<lambda>f. f\<lparr>fr_head_offset := v\<rparr>) wr = wr"
proof -
  have "(wr_epoch_frames wr ! fi)\<lparr>fr_head_offset := v\<rparr> = wr_epoch_frames wr ! fi" using assms by simp
  then show ?thesis by (simp only: set_frame_def list_update_id) simp
qed

lemma set_head_twice:
  "set_frame fi (\<lambda>f. f\<lparr>fr_head_offset := v\<rparr>) (set_frame fi (\<lambda>f. f\<lparr>fr_head_offset := u\<rparr>) wr)
     = set_frame fi (\<lambda>f. f\<lparr>fr_head_offset := v\<rparr>) wr"
  by (cases "fi < length (wr_epoch_frames wr)") (simp_all add: set_frame_def list_update_beyond)

lemma frame_consumed_copied:
  "frame_consumed wid fi t (copied wid fi nh bs w) = frame_consumed wid fi t w"
  "frame_consumed wid fi t (moved_on w) = frame_consumed wid fi t w"
  by (cases "wid < length (wal_writers (w_wal w))", simp_all add: frame_consumed_def world_simps buffer_size_def set_head_twice list_update_beyond)

lemma frame_consumed_id:
  "frame_pending w wid fi sent lo t t \<Longrightarrow> frame_consumed wid fi t w = wal_writers (w_wal w)"
  by (simp add: frame_consumed_def frame_pending_def Let_def set_head_id)

text \<open>With more rounds than bytes to copy the loop has an end.\<close>

lemma copy_loop:
  assumes "flush_open view w s" and view: "view = os_files \<or> view = os_durable"
    and "frame_pending w wid fi sent lo h t" and "t - h < fuel" and "length s + (t - h) < (2 ^ 32 - 2) * seg_size w"
  obtains w' where "flusher_copy_loop fuel wid fi w = Ok () w'" "flush_open view w' (s @ take (t - h) (drop h sent))"
      "flush_frame w w'" "wal_writers (w_wal w') = frame_consumed wid fi t w"
    | e w' k w0 where "flusher_copy_loop fuel wid fi w = blocked_outcome e w'" "k \<le> t - h"
      "flush_blocked view w w0 (s @ take k (drop h sent)) e w'"
  using assms
proof (induction fuel arbitrary: w s h thesis)
  case 0
  then show ?case by simp
next
  case (Suc fuel)
  note fin = Suc.prems(1) and blocked = Suc.prems(2) and o = Suc.prems(3) and f = Suc.prems(5) and fuel = Suc.prems(6) and b = Suc.prems(7)
  define c where "c = min (seg_size w - cur_written w) (t - h)"
  define w1 where "w1 = copied wid fi (of_nat ((h + c) mod buffer_size (w_wal w))) (take c (drop h sent)) w"
  have r: "log_safe view w s" and op: "cur_written w < seg_size w" using o by (simp_all add: flush_open_def)
  note l = log_safeD(1) [OF r]
  note round = copy_round_result [OF l op f c_def w1_def]
  show ?case
  proof (cases "h = t")
    case True
    then show ?thesis using fin [of w] round o f by (simp add: flush_frame_refl frame_consumed_id)
  next
    case False
    have ht: "h < t" "t \<le> length sent" using f False by (auto simp: frame_pending_def Let_def)
    then have c: "0 < c" "c \<le> t - h" "cur_written w + c \<le> seg_size w" using op by (auto simp: c_def)
    have len: "length (take c (drop h sent)) = c" using c ht by simp
    have r1: "log_safe view w1 (s @ take c (drop h sent))" unfolding w1_def using copied_safe [OF r view] c(3) len by simp
    have w1: "cur_written w1 = cur_written w + c" "seg_size w1 = seg_size w" "flush_frame w w1"
      "frame_pending w1 wid fi sent lo (h + c) t" "frame_consumed wid fi t w1 = frame_consumed wid fi t w"
      using copied_repr(2) [OF l, of "take c (drop h sent)"] c(2,3) len flush_frame_copied [OF l] frame_pending_copied [OF f, of c] ht
      by (auto simp: w1_def world_simps frame_consumed_copied)
    have b1: "length (s @ take c (drop h sent)) + (t - (h + c)) = length s + (t - h)" using len c(2) by simp
    have app: "(s @ take c (drop h sent)) @ take k (drop (h + c) sent) = s @ take (c + k) (drop h sent)" for k
      by (simp add: take_add add.commute)
    show ?thesis
    proof (cases "cur_written w + c = seg_size w")
      case False
      note False' = this
      then have "c = t - h" using c(3) op unfolding c_def by linarith
      then show ?thesis
        using fin [of w1] round \<open>h \<noteq> t\<close> False' r1 w1 c(3) frame_consumed_id [of w1 wid fi sent lo t] ht by (simp add: flush_open_def)
    next
      case True
      have full: "cur_written w1 = seg_size w1" using True w1 by simp
      have lt: "length (s @ take c (drop h sent)) < (2 ^ 32 - 2) * seg_size w1"
        unfolding w1(2) by (rule le_less_trans [OF _ b]) (use b1 in linarith)
      show ?thesis
      proof (cases rule: move_cases [OF r1 full lt])
        case 1
        have m: "frame_pending (moved_on w1) wid fi sent lo (h + c) t" "flush_frame w (moved_on w1)"
          "seg_size (moved_on w1) = seg_size w" "frame_consumed wid fi t (moved_on w1) = frame_consumed wid fi t w"
          using frame_pending_moved_on [OF w1(4)] flush_frame_trans [OF w1(3) 1(3)] w1(2,5)
            moved_on_seg(5) [OF log_safeD(1) [OF r1]] frame_consumed_copied(2) by auto
        have e: "flusher_copy_loop (Suc fuel) wid fi w = flusher_copy_loop fuel wid fi (moved_on w1)"
          using round \<open>h \<noteq> t\<close> True 1(1) by simp
        have ff: "t - (h + c) < fuel" using fuel c by simp
        show ?thesis
        proof (rule Suc.IH [OF _ _ 1(2) view m(1) ff])
          fix w'
          assume a: "flusher_copy_loop fuel wid fi (moved_on w1) = Ok () w'"
            "flush_open view w' ((s @ take c (drop h sent)) @ take (t - (h + c)) (drop (h + c) sent))"
            "flush_frame (moved_on w1) w'" "wal_writers (w_wal w') = frame_consumed wid fi t (moved_on w1)"
          show thesis
            by (rule fin [OF _ _ flush_frame_trans [OF m(2) a(3)]]) (use a(1,2,4) e m(4) app [of "t - (h + c)"] c(2) ht in simp_all)
        next
          fix e' w' k w0
          assume a: "flusher_copy_loop fuel wid fi (moved_on w1) = blocked_outcome e' w'" "k \<le> t - (h + c)"
            "flush_blocked view (moved_on w1) w0 ((s @ take c (drop h sent)) @ take k (drop (h + c) sent)) e' w'"
          show thesis
            by (rule blocked [OF _ _ flush_blocked_step [OF m(2) a(3) [unfolded app]]]) (use a(1,2) e c(2) ht in simp_all)
        next
          show "length (s @ take c (drop h sent)) + (t - (h + c)) < (2 ^ 32 - 2) * seg_size (moved_on w1)"
            using b b1 m(3) by simp
        qed
      next
        case (2 e)
        then show ?thesis
          using blocked [of "Some e" "requested_sync w1" c w1] round \<open>h \<noteq> t\<close> True flush_blocked_step [OF w1(3) 2(2)] c(2) by (simp add: blocked_outcome_def)
      next
        case 3
        then show ?thesis
          using blocked [of None "requested_sync w1" c w1] round \<open>h \<noteq> t\<close> True flush_blocked_step [OF w1(3) 3(2)] c(2) by (simp add: blocked_outcome_def)
      qed
    qed
  qed
qed

section \<open>One writer\<close>

lemma take_user_metadata_frame [simp]:
  "wal_segments (take_user_metadata f wal) = wal_segments wal" "wal_config (take_user_metadata f wal) = wal_config wal"
  "wal_segment_count (take_user_metadata f wal) = wal_segment_count wal" "wal_writers (take_user_metadata f wal) = wal_writers wal"
  "wal_flusher_current_nv_segment_dsid (take_user_metadata f wal) = wal_flusher_current_nv_segment_dsid wal"
  "wal_nv_control_block (take_user_metadata f wal) = wal_nv_control_block wal"
  by (simp_all add: take_user_metadata_def)

lemma take_user_metadata_world [simp]:
  "log_repr (w\<lparr>w_wal := take_user_metadata f (w_wal w)\<rparr>) s = log_repr w s"
  "seg_bases (w\<lparr>w_wal := take_user_metadata f (w_wal w)\<rparr>) = seg_bases w"
  "seg_size (w\<lparr>w_wal := take_user_metadata f (w_wal w)\<rparr>) = seg_size w"
  "cur_written (w\<lparr>w_wal := take_user_metadata f (w_wal w)\<rparr>) = cur_written w"
  "frame_pending (w\<lparr>w_wal := take_user_metadata f (w_wal w)\<rparr>) wid fi sent lo h t = frame_pending w wid fi sent lo h t"
  "frame_consumed wid fi t (w\<lparr>w_wal := take_user_metadata f (w_wal w)\<rparr>) = frame_consumed wid fi t w"
  "last_synced (w\<lparr>w_wal := take_user_metadata f (w_wal w)\<rparr>) = last_synced w"
  by (simp_all add: log_repr_def seg_bases_def seg_size_def seg_count_def cur_dsid_def cur_written_def cur_index_def
      frame_pending_def frame_consumed_def buffer_size_def last_synced_def cong: option.case_cong)

lemma take_user_metadata_safe [simp]:
  "log_safe view (w\<lparr>w_wal := take_user_metadata f (w_wal w)\<rparr>) s = log_safe view w s"
proof -
  let ?w = "w\<lparr>w_wal := take_user_metadata f (w_wal w)\<rparr>"
  have c: "wal_config (w_wal ?w) = wal_config (w_wal w)" by simp
  have "on_disk view ?w s d = on_disk view w s d" for d
    unfolding on_disk_def disk_path_cong [OF c] by (simp cong: option.case_cong)
  then show ?thesis unfolding log_safe_def disk_names_cong [OF c take_user_metadata_world(2)] by (simp add: seg_count_def cur_dsid_def)
qed

lemma flush_frame_tags: "flush_frame w (w\<lparr>w_wal := take_user_metadata f (w_wal w)\<rparr>)"
  by (simp add: flush_frame_def seg_count_def cur_dsid_def pins_ok_def) (simp add: context_rest_def take_user_metadata_def)

lemma writer_repr_cong:
  "wal_config wal' = wal_config wal \<Longrightarrow> writer_repr wal' wr sent vs lo = writer_repr wal wr sent vs lo"
  by (simp add: writer_repr_def buffer_size_def)

lemma pending_piece:
  assumes "writer_repr (w_wal w) (wal_writers (w_wal w) ! wid) sent vs lo" "wid < length (wal_writers (w_wal w))"
    and "fi < length (wr_epoch_frames (wal_writers (w_wal w) ! wid))" "v \<in> set vs"
    and "frame_marks (buffer_size (w_wal w)) v (wr_epoch_frames (wal_writers (w_wal w) ! wid) ! fi)"
  shows "frame_pending w wid fi sent lo (pc_head v) (pc_tail v)"
  using assms by (auto simp: frame_pending_def Let_def writer_repr_def frame_marks_def pieces_ok_def)

lemma consumed_piece:
  assumes "frame_marks (buffer_size (w_wal w)) v (wr_epoch_frames (wal_writers (w_wal w) ! wid) ! fi)"
  shows "frame_consumed wid fi (pc_tail v) w =
     (wal_writers (w_wal w))[wid := set_frame fi (\<lambda>f. f\<lparr>fr_head_offset := fr_tail_offset f\<rparr>) (wal_writers (w_wal w) ! wid)]"
  using assms by (simp add: frame_consumed_def frame_marks_def set_frame_def)

lemma one_writer:
  assumes o: "flush_open view w s" and view: "view = os_files \<or> view = os_durable" and wid: "wid < length (wal_writers (w_wal w))"
    and r: "writer_repr (w_wal w) (wal_writers (w_wal w) ! wid) sent vs lo" and near: "near_rank e vs"
    and b: "length s + length (epoch_bytes e sent vs) < (2 ^ 32 - 2) * seg_size w"
  obtains w' wr where "flusher_copy_one_writer_to_nv wid (epoch_at e) st w = Ok () w'" "flush_open view w' (s @ epoch_bytes e sent vs)"
      "flush_frame w w'" "wal_writers (w_wal w') = (wal_writers (w_wal w))[wid := wr]"
      "writer_repr (w_wal w') wr sent (consume e vs) lo"
    | err w' k w0 where "flusher_copy_one_writer_to_nv wid (epoch_at e) st w = blocked_outcome err w'"
      "k \<le> length (epoch_bytes e sent vs)" "flush_blocked view w w0 (s @ take k (epoch_bytes e sent vs)) err w'"
proof (cases rule: find_piece [OF r near])
  case 1
  then have "flusher_copy_one_writer_to_nv wid (epoch_at e) st w = Ok () w"
    using wid by (simp add: flusher_copy_one_writer_to_nv_def Let_def)
  then show thesis using that(1) [of w "wal_writers (w_wal w) ! wid"] o r 1 by (simp add: flush_frame_refl)
next
  case (2 fi v)
  let ?f = "wr_epoch_frames (wal_writers (w_wal w) ! wid) ! fi" and ?B = "buffer_size (w_wal w)"
  define w1 where "w1 = (if st then w\<lparr>w_wal := take_user_metadata ?f (w_wal w)\<rparr> else w)"
  have w1: "flush_open view w1 s" "flush_frame w w1" "frame_consumed wid fi (pc_tail v) w1 = frame_consumed wid fi (pc_tail v) w"
    "seg_size w1 = seg_size w" "wal_config (w_wal w1) = wal_config (w_wal w)"
    using o by (simp_all add: w1_def flush_open_def flush_frame_tags flush_frame_refl)
  have p: "frame_pending w1 wid fi sent lo (pc_head v) (pc_tail v)"
    using pending_piece [OF r wid 2(3,5,7)] by (simp add: w1_def)
  have pb: "piece_bytes sent v = take (pc_tail v - pc_head v) (drop (pc_head v) sent)" "length (piece_bytes sent v) = pc_tail v - pc_head v"
    "pc_tail v - pc_head v < ?B + 2" using p w1(5) by (auto simp: piece_bytes_def frame_pending_def Let_def buffer_size_def)
  have run: "flusher_copy_one_writer_to_nv wid (epoch_at e) st w = flusher_copy_loop (?B + 2) wid fi w1"
    using wid 2(1-4) w1(5)
    by (simp add: flusher_copy_one_writer_to_nv_def Let_def w1_def buffer_size_def del: flusher_copy_loop.simps)
  have b1: "length s + (pc_tail v - pc_head v) < (2 ^ 32 - 2) * seg_size w1" using b pb(2) 2(8) w1(4) by simp
  let ?wr = "set_frame fi (\<lambda>f. f\<lparr>fr_head_offset := fr_tail_offset f\<rparr>) (wal_writers (w_wal w) ! wid)"
  note fi = 2(3,4) and mk = 2(7) and eb = 2(8)
  show thesis
  proof (cases rule: copy_loop [OF w1(1) view p pb(3) b1])
    case (1 w')
    have c: "wal_config (w_wal w') = wal_config (w_wal w)" using flush_frame_wal(1) [OF 1(3)] w1(5) by simp
    show thesis
    proof (rule that(1))
      show "flusher_copy_one_writer_to_nv wid (epoch_at e) st w = Ok () w'" using run 1(1) by simp
      show "flush_open view w' (s @ epoch_bytes e sent vs)" using 1(2) pb(1) eb by simp
      show "flush_frame w w'" by (rule flush_frame_trans [OF w1(2) 1(3)])
      show "wal_writers (w_wal w') = (wal_writers (w_wal w))[wid := ?wr]" using 1(4) w1(3) consumed_piece [OF mk] by simp
      show "writer_repr (w_wal w') ?wr sent (consume e vs) lo"
        using consume_repr [OF r near fi] writer_repr_cong [OF c] by simp
    qed
  next
    case (2 err w' k w0)
    show thesis
    proof (rule that(2))
      show "flusher_copy_one_writer_to_nv wid (epoch_at e) st w = blocked_outcome err w'" using run 2(1) by simp
      show "k \<le> length (epoch_bytes e sent vs)" using 2(2) pb(2) eb by simp
      show "flush_blocked view w w0 (s @ take k (epoch_bytes e sent vs)) err w'"
        using flush_blocked_step [OF w1(2) 2(3)] pb(1) eb 2(2) by simp
    qed
  qed
qed

section \<open>All writers\<close>

record wstate =
  ws_sent :: "byte list"
  ws_pieces :: "piece list"
  ws_low :: nat

definition writers_repr :: "world \<Rightarrow> wstate list \<Rightarrow> bool" where
  "writers_repr w ps \<longleftrightarrow> length ps \<le> length (wal_writers (w_wal w)) \<and>
     (\<forall>i < length ps. writer_repr (w_wal w) (wal_writers (w_wal w) ! i) (ws_sent (ps ! i)) (ws_pieces (ps ! i)) (ws_low (ps ! i)))"

text \<open>The writers the flusher serves before it sees the request to stop.\<close>

fun served :: "(nat \<Rightarrow> NvwalThreadState) \<Rightarrow> nat list \<Rightarrow> nat list" where
  "served seen [] = []"
| "served seen (i # is) = i # (if seen i = kNvwalThreadStateRunningAndRequestedStop then [] else served seen is)"

definition bytes_of_epoch :: "nat \<Rightarrow> wstate list \<Rightarrow> nat list \<Rightarrow> byte list" where
  "bytes_of_epoch e ps is = concat (map (\<lambda>i. epoch_bytes e (ws_sent (ps ! i)) (ws_pieces (ps ! i))) is)"

fun drain :: "nat \<Rightarrow> nat list \<Rightarrow> wstate list \<Rightarrow> wstate list" where
  "drain e [] ps = ps"
| "drain e (i # is) ps = drain e is (ps[i := (ps ! i)\<lparr>ws_pieces := consume e (ws_pieces (ps ! i))\<rparr>])"

lemma drain_length [simp]: "length (drain e is ps) = length ps"
  by (induction "is" arbitrary: ps) auto

lemma bytes_of_epoch_other: "i \<notin> set is \<Longrightarrow> bytes_of_epoch e (ps[i := p]) is = bytes_of_epoch e ps is"
  by (induction "is") (auto simp: bytes_of_epoch_def)

lemma drain_nth:
  assumes "distinct is" "j < length ps"
  shows "drain e is ps ! j = (if j \<in> set is then (ps ! j)\<lparr>ws_pieces := consume e (ws_pieces (ps ! j))\<rparr> else ps ! j)"
  using assms
proof (induction "is" arbitrary: ps)
  case (Cons i "is")
  then show ?case by (cases "i = j") auto
qed simp

lemma served_all: "\<forall>i \<in> set is. seen i \<noteq> kNvwalThreadStateRunningAndRequestedStop \<Longrightarrow> served seen is = is"
  by (induction "is") auto

lemma served_prefix: "\<exists>js. is = served seen is @ js"
  by (induction "is") auto

lemma copy_writers:
  assumes "flush_open view w s" and view: "view = os_files \<or> view = os_durable" and "writers_repr w ps" and "distinct is"
    and "\<forall>i \<in> set is. i < length ps \<and> near_rank e (ws_pieces (ps ! i))"
    and "length s + length (bytes_of_epoch e ps is) < (2 ^ 32 - 2) * seg_size w"
  obtains w' where "flusher_copy_writers seen (epoch_at e) st is w = Ok () w'"
      "flush_open view w' (s @ bytes_of_epoch e ps (served seen is))" "flush_frame w w'" "writers_repr w' (drain e (served seen is) ps)"
    | err w' k w0 where "flusher_copy_writers seen (epoch_at e) st is w = blocked_outcome err w'"
      "flush_blocked view w w0 (s @ take k (bytes_of_epoch e ps is)) err w'"
  using assms
proof (induction "is" arbitrary: w s ps thesis)
  case Nil
  then show ?case by (auto simp: flush_frame_refl bytes_of_epoch_def)
next
  case (Cons i "is")
  let ?p = "ps ! i"
  let ?ps = "ps[i := ?p\<lparr>ws_pieces := consume e (ws_pieces ?p)\<rparr>]" and ?b = "epoch_bytes e (ws_sent ?p) (ws_pieces ?p)"
  note fin = Cons.prems(1) and blocked = Cons.prems(2) and wr = Cons.prems(5) and d = Cons.prems(6)
  have i: "i < length ps" "near_rank e (ws_pieces ?p)" "i < length (wal_writers (w_wal w))"
    "writer_repr (w_wal w) (wal_writers (w_wal w) ! i) (ws_sent ?p) (ws_pieces ?p) (ws_low ?p)"
    using Cons.prems(7) wr by (auto simp: writers_repr_def)
  have ni: "i \<notin> set is" using d by simp
  have eb: "bytes_of_epoch e ps (i # is) = ?b @ bytes_of_epoch e ps is" by (simp add: bytes_of_epoch_def)
  have b: "length s + length ?b < (2 ^ 32 - 2) * seg_size w"
    by (rule le_less_trans [OF _ Cons.prems(8)]) (simp add: eb)
  show ?case
  proof (cases rule: one_writer [OF Cons.prems(3) view i(3,4,2) b, of st])
    case (1 w' wr')
    have wr1: "writers_repr w' ?ps"
      using wr 1(4,5) i(1) by (auto simp: writers_repr_def nth_list_update writer_repr_cong [OF flush_frame_wal(1) [OF 1(3)]])
    show ?thesis
    proof (cases "seen i = kNvwalThreadStateRunningAndRequestedStop")
      case True
      then show ?thesis using fin [of w'] 1 wr1 by (simp add: bytes_of_epoch_def)
    next
      case False
      have run: "flusher_copy_writers seen (epoch_at e) st (i # is) w = flusher_copy_writers seen (epoch_at e) st is w'"
        using False 1(1) by simp
      have sv: "set (served seen is) \<subseteq> set is" using served_prefix [of "is" seen] by (metis Un_upper1 set_append)
      have bo: "bytes_of_epoch e ?ps is = bytes_of_epoch e ps is" "bytes_of_epoch e ?ps (served seen is) = bytes_of_epoch e ps (served seen is)"
        using ni sv by (auto intro: bytes_of_epoch_other)
      show ?thesis
      proof (rule Cons.IH [OF _ _ 1(2) view wr1])
        fix w''
        assume a: "flusher_copy_writers seen (epoch_at e) st is w' = Ok () w''"
          "flush_open view w'' ((s @ ?b) @ bytes_of_epoch e ?ps (served seen is))" "flush_frame w' w''"
          "writers_repr w'' (drain e (served seen is) ?ps)"
        show thesis
          by (rule fin [OF _ _ flush_frame_trans [OF 1(3) a(3)]]) (use a run False bo in \<open>simp_all add: bytes_of_epoch_def\<close>)
      next
        fix err w'' k w0
        assume a: "flusher_copy_writers seen (epoch_at e) st is w' = blocked_outcome err w''"
          "flush_blocked view w' w0 ((s @ ?b) @ take k (bytes_of_epoch e ?ps is)) err w''"
        show thesis
          by (rule blocked [of err w'' w0 "length ?b + k"])
            (use a(1) run flush_blocked_step [OF 1(3) a(2)] in \<open>simp_all add: eb bo\<close>)
      next
        show "distinct is" using d by simp
        show "\<forall>j \<in> set is. j < length ?ps \<and> near_rank e (ws_pieces (?ps ! j))"
          using Cons.prems(7) ni by (metis length_list_update list.set_intros(2) nth_list_update_neq)
        show "length (s @ ?b) + length (bytes_of_epoch e ?ps is) < (2 ^ 32 - 2) * seg_size w'"
          unfolding flush_frame_size [OF 1(3)] by (rule le_less_trans [OF _ Cons.prems(8)]) (simp add: eb bo)
      qed
    qed
  next
    case (2 err w' k w0)
    then show ?thesis using blocked [of err w' w0 k] by (cases err) (simp_all add: blocked_outcome_def eb)
  qed
qed

end
