(* ===== verification/Mds_Read.thy ===== *)
theory Mds_Read
  imports Mds_Correct
begin

text \<open>
  Reading the metadata store: the epoch iterator with its three sources (the buffer, its prefetched
  entries, the page file) returns the records of the history, so that the store implements the
  contract of \<open>Epoch_Store\<close> and its binary searches are correct.
\<close>

text \<open>
  An iterator over a history: the entries it holds are consecutive records of the history.
\<close>

definition iter_ok :: "MdsEpochMetadata list \<Rightarrow> MdsEpochIterator \<Rightarrow> bool" where
  "iter_ok h it \<longleftrightarrow>
     (let es = ib_epoch_metadata (it_buffer it); n = ib_num_entries (it_buffer it)
      in length es = kNvwalMdsReadPrefetch \<and> n \<le> kNvwalMdsReadPrefetch \<and>
         (\<exists>f. f + n \<le> length h \<and> (\<forall>j < n. es ! j = h ! (f + j))))"

definition iter_at :: "MdsEpochMetadata list \<Rightarrow> nat \<Rightarrow> nat \<Rightarrow> MdsEpochIterator \<Rightarrow> bool" where
  "iter_at h i m it \<longleftrightarrow>
     iter_ok h it \<and> it_cur_epoch_id it = of_nat (Suc i) \<and> it_end_epoch_id it = of_nat m \<and>
     i < length h \<and> Suc i \<le> m \<and> m < 2 ^ 57"

lemma repr_nonempty:
  assumes "mds_repr w h" "i < length h"
  obtains pe pf d b p cb where
    "mds_core w h ((length h - 1) div page_epochs (w_wal w) * page_epochs (w_wal w)) pe pf d b p cb"
    "buffer_for (w_wal w) b (length h)"
  using assms by (cases "h = []") (auto simp: mds_repr_def)

text \<open>The record of an epoch whose page is in the buffer.\<close>

lemma buffer_record:
  assumes core: "mds_core w h q pe pf d b p cb" and i: "q \<le> i" "i < length h"
  shows "decode_epoch (mem_read (mds_bufmgr_page b (w_os w)) ((i - q) * 64) 64) = h ! i"
proof -
  have pre: "take (length (mds_image (drop q h))) (mapped p (w_os w)) = mds_image (drop q h)"
    and bp: "mds_bufmgr_page b (w_os w) = mapped p (w_os w)"
    using core by (simp_all add: mds_core_def buffer_holds_def mds_bufmgr_page_def mds_at_def)
  have "(i - q) * 64 + 64 \<le> length (mds_image (drop q h))" using i by simp
  then have "mem_read (mapped p (w_os w)) ((i - q) * 64) 64
      = mem_read (take (length (mds_image (drop q h))) (mapped p (w_os w))) ((i - q) * 64) 64"
    by (simp add: mem_read_def drop_take min_absorb1)
  also have "\<dots> = mem_read (mds_image (drop q h)) ((i - q) * 64) 64" by (simp only: pre)
  finally show ?thesis using decode_mds_image [of "i - q" "drop q h"] bp i by simp
qed

lemma page_no_eq_iff:
  assumes "mds_page_ok wal" "i < 2 ^ 55" "0 < n" "n < 2 ^ 56"
  shows "epoch_id_to_page_no wal (of_nat n) = epoch_id_to_page_no wal (of_nat (Suc i))
           \<longleftrightarrow> (n - 1) div page_epochs wal = i div page_epochs wal"
proof -
  have "unat (epoch_id_to_page_no wal (of_nat n)) = 1 + (n - 1) div page_epochs wal"
    using page_no_nat [OF assms(1,3,4)] .
  moreover have "unat (epoch_id_to_page_no wal (of_nat (Suc i))) = 1 + i div page_epochs wal"
    using page_no_nat [OF assms(1), of "Suc i"] assms(2) by simp
  ultimately show ?thesis by (metis add_left_cancel unat_eq_u64)
qed

lemma mds_io_file_0 [simp]: "mds_io_file 0 = Some 0"
  by (simp add: mds_io_file_def)

lemma of_nat_neq_0_u64: "0 < n \<Longrightarrow> n < 2 ^ 64 \<Longrightarrow> (of_nat n :: u64) \<noteq> 0"
  using unat_of_nat_small [of n] by (metis less_not_refl unat_0)

text \<open>The three sources of the iterator: the buffer, the entries it holds, the page file.\<close>

lemma prefetch_from_buffer:
  assumes core: "mds_core w h q pe pf d b p cb" and b: "buffer_for (w_wal w) b (length h)"
    and q: "q = (length h - 1) div page_epochs (w_wal w) * page_epochs (w_wal w)"
    and it: "iter_at h i m it" and i: "q \<le> i"
  shows "\<exists>it'. mds_epoch_iterator_prefetch it w = Ok it' w \<and> iter_at h i m it' \<and> it_entry it' = h ! i"
proof -
  let ?k = "page_epochs (w_wal w)"
  note ok = core_page_ok [OF core] and k = page_epochs_pos [OF core_page_ok [OF core]]
  have n: "length h < 2 ^ 56" "i < length h" using core it by (auto simp: mds_core_def history_ok_def iter_at_def)
  have d: "i div ?k = (length h - 1) div ?k"
  proof (rule antisym)
    show "i div ?k \<le> (length h - 1) div ?k" using n by (intro div_le_mono) simp
    show "(length h - 1) div ?k \<le> i div ?k" using i q k(1) by (metis div_le_mono div_mult_self_is_m)
  qed
  then have off: "i mod ?k = i - q" using q minus_div_mult_eq_mod [of i ?k] by simp
  have "unat (epoch_id_to_page_no (w_wal w) (of_nat (Suc i)))
      = unat (epoch_id_to_page_no (w_wal w) (of_nat (length h)))"
    using page_no_nat [OF ok, of "Suc i"] page_no_nat [OF ok, of "length h"] n d
    by (cases "h = []") simp_all
  then have pn: "epoch_id_to_page_no (w_wal w) (of_nat (Suc i)) = bf_page_no b"
    using b by (simp only: unat_eq_u64 buffer_for_def)
  have nz: "bf_page_no b \<noteq> 0"
    using b page_no_neq_0 [OF ok, of "length h"] n by (cases "h = []") (simp_all add: buffer_for_def)
  have eo: "unat (epoch_id_to_page_offset (w_wal w) (of_nat (Suc i))) = i - q"
    using unat_epoch_id_to_page_offset [OF ok of_nat_neq_0_u64 [of "Suc i"]] n off
      unat_of_nat_small [of "Suc i"] by (simp del: of_nat_Suc)
  let ?it = "it\<lparr>it_buffer := \<lparr>ib_epoch_metadata = overwrite (ib_epoch_metadata (it_buffer it)) [h ! i],
      ib_num_entries = 1\<rparr>, it_epoch_metadata := 0\<rparr>"
  have "mds_epoch_iterator_prefetch it w = Ok ?it w"
    using core it pn nz eo buffer_record [OF core i n(2)]
    by (simp add: mds_epoch_iterator_prefetch_def Let_def mds_core_def mds_at_def iter_at_def del: of_nat_Suc)
  moreover have "iter_at h i m ?it"
    using it n by (auto simp: iter_at_def iter_ok_def Let_def overwrite_def intro!: exI [of _ i])
  moreover have "it_entry ?it = h ! i" by (simp add: it_entry_def overwrite_def)
  ultimately show ?thesis by blast
qed

lemma page_no_mult_bound:
  assumes "mds_page_ok wal" "Suc i < 2 ^ 56"
  shows "unat (epoch_id_to_page_no wal (of_nat (Suc i)) * max_epochs_per_page wal)
           = (1 + i div page_epochs wal) * page_epochs wal"
proof -
  let ?k = "page_epochs wal"
  have p: "unat (epoch_id_to_page_no wal (of_nat (Suc i))) = 1 + i div ?k"
    using page_no_nat [OF assms(1), of "Suc i"] assms(2) by simp
  have "(1 + i div ?k) * ?k = i div ?k * ?k + ?k" by simp
  also have "\<dots> \<le> i + ?k" by simp
  also have "\<dots> < 2 ^ 64" using assms(2) page_epochs_pos(3) [OF assms(1)] by simp
  finally show ?thesis
    using unat_mult_no_wrap [of "epoch_id_to_page_no wal (of_nat (Suc i))" "max_epochs_per_page wal"]
      p unat_max_epochs_per_page [OF assms(1)] by simp
qed

lemma prefetch_from_entries:
  assumes core: "mds_core w h q pe pf d b p cb" and it: "iter_at h i m it"
    and pn: "epoch_id_to_page_no (w_wal w) (of_nat (Suc i)) \<noteq> bf_page_no b"
    and f: "f + ib_num_entries (it_buffer it) \<le> length h"
      "\<forall>j < ib_num_entries (it_buffer it). ib_epoch_metadata (it_buffer it) ! j = h ! (f + j)"
      "f \<le> i" "i < f + ib_num_entries (it_buffer it)"
  shows "\<exists>it'. mds_epoch_iterator_prefetch it w = Ok it' w \<and> iter_at h i m it' \<and> it_entry it' = h ! i"
proof -
  let ?n = "ib_num_entries (it_buffer it)" and ?es = "ib_epoch_metadata (it_buffer it)"
  have hist: "history_ok h" and len: "length h < 2 ^ 56" using core by (auto simp: mds_core_def history_ok_def)
  have pos: "0 < ?n" using f(3,4) by simp
  have ids: "em_epoch_id (?es ! 0) = of_nat (Suc f)" "em_epoch_id (?es ! (?n - 1)) = of_nat (Suc (f + (?n - 1)))"
    using hist f(1,2) pos by (auto simp: history_ok_def)
  have le: "(of_nat (Suc f) :: u64) \<le> of_nat (Suc i)" "(of_nat (Suc i) :: u64) \<le> of_nat (Suc (f + (?n - 1)))"
    using f len pos by (simp_all add: u64_le_of_nat del: of_nat_Suc of_nat_add)
  have idx: "unat ((of_nat (Suc i) :: u64) - of_nat (Suc f)) = i - f"
    using unat_minus_le [OF le(1)] f len unat_of_nat_small [of "Suc i"] unat_of_nat_small [of "Suc f"]
    by (simp del: of_nat_Suc)
  let ?it = "it\<lparr>it_epoch_metadata := i - f\<rparr>"
  have "mds_epoch_iterator_prefetch it w = Ok ?it w"
    using core it pn pos ids le idx
    by (simp add: mds_epoch_iterator_prefetch_def Let_def mds_core_def mds_at_def iter_at_def del: of_nat_Suc)
  moreover have "iter_at h i m ?it" using it by (simp add: iter_at_def iter_ok_def)
  moreover have "it_entry ?it = h ! i" using f by (simp add: it_entry_def)
  ultimately show ?thesis by blast
qed

lemma decode_epochs_image:
  assumes "f + n \<le> length h"
  shows "decode_epochs (mds_image (take n (drop f h))) n = take n (drop f h)"
  using assms by (intro nth_equalityI) (auto simp: decode_epochs_def decode_mds_image)

lemma min_of_nat_u64: "a < 2 ^ 64 \<Longrightarrow> b < 2 ^ 64 \<Longrightarrow> min (of_nat a :: u64) (of_nat b) = of_nat (min a b)"
  by (simp add: min_def u64_le_of_nat)

lemma prefetch_from_file:
  assumes core: "mds_core w h q pe pf d b p cb" and it: "iter_at h i m it"
    and q: "q = x * page_epochs (w_wal w)" and i: "i < q"
    and pn: "epoch_id_to_page_no (w_wal w) (of_nat (Suc i)) \<noteq> bf_page_no b"
    and miss: "\<not> (ib_num_entries (it_buffer it) > 0 \<and>
        of_nat (Suc i) \<ge> em_epoch_id (ib_epoch_metadata (it_buffer it) ! 0) \<and>
        of_nat (Suc i) \<le> em_epoch_id (ib_epoch_metadata (it_buffer it) ! (ib_num_entries (it_buffer it) - 1)))"
  shows "\<exists>it'. mds_epoch_iterator_prefetch it w = Ok it' w \<and> iter_at h i m it' \<and> it_entry it' = h ! i"
proof -
  let ?k = "page_epochs (w_wal w)"
  note ok = core_page_ok [OF core] and k = page_epochs_pos [OF core_page_ok [OF core]]
  have len: "length h < 2 ^ 56" "q \<le> length h" using core by (auto simp: mds_core_def history_ok_def)
  have m: "Suc i \<le> m" "m < 2 ^ 57" using it by (auto simp: iter_at_def)
  let ?top = "(1 + i div ?k) * ?k"
  have "i div ?k < x" using i q by (simp add: less_mult_imp_div_less)
  then have top: "?top \<le> q" using q by (metis Suc_eq_plus1_left Suc_leI mult_le_mono1)
  have itop: "Suc i \<le> ?top" using k(1) by (metis Suc_leI add.commute dividend_less_div_times mult.commute mult_Suc_right plus_1_eq_Suc)
  define u where "u = min (min (Suc i + 15) m) ?top"
  have u: "Suc i \<le> u" "u \<le> Suc i + 15" "u \<le> q" using m(1) itop top by (auto simp: u_def)
  have "unat (epoch_id_to_page_no (w_wal w) (of_nat (Suc i)) * max_epochs_per_page (w_wal w))
      = unat (of_nat ?top :: u64)"
    using page_no_mult_bound [OF ok, of i] len i top unat_of_nat_small [of ?top]
    by (simp del: of_nat_Suc of_nat_add of_nat_mult)
  then have "epoch_id_to_page_no (w_wal w) (of_nat (Suc i)) * max_epochs_per_page (w_wal w) = of_nat ?top"
    by (simp only: unat_eq_u64)
  moreover have "(of_nat (Suc i) + 16 - 1 :: u64) = of_nat (Suc i + 15)" by simp
  ultimately have upper: "min (min (of_nat (Suc i) + 16 - 1) (of_nat m))
      (epoch_id_to_page_no (w_wal w) (of_nat (Suc i)) * max_epochs_per_page (w_wal w)) = of_nat u"
    using len i m top min_of_nat_u64 [of "Suc i + 15" m] min_of_nat_u64 [of "min (Suc i + 15) m" ?top]
    by (simp add: u_def del: of_nat_Suc of_nat_add of_nat_mult)
  have "(of_nat u - of_nat (Suc i) + 1 :: u64) = of_nat (u - i)" using u(1) by (simp add: of_nat_diff)
  then have num: "unat (of_nat u - of_nat (Suc i) + 1 :: u64) = u - i"
    using u(3) len unat_of_nat_small [of "u - i"] by (simp del: of_nat_Suc)
  have off: "unat (epoch_id_to_file_offset (of_nat (Suc i))) = i * 64"
    using unat_epoch_id_to_file_offset [of "of_nat (Suc i)"] of_nat_neq_0_u64 [of "Suc i"]
      unat_of_nat_small [of "Suc i"] len i by (simp del: of_nat_Suc)
  have "fd_file (pf_fd pf) (w_os w) = Some (fd_path d, mds_image (take q h))" "os_resp (w_os w) = []"
    using core by (auto simp: mds_core_def mds_at_def fd_file_def)
  then have "mds_io_pread (pf_fd pf) ((u - i) * 64) (i * 64) (w_os w)
      = Ok (mem_read (mds_image (take q h)) (i * 64) ((u - i) * 64)) (w_os w)"
    using u len by (intro pread_calm) auto
  moreover have "take (u - i) (drop i (take q h)) = take (u - i) (drop i h)" using u(3) by (simp add: drop_take)
  ultimately have rd: "mds_io_pread (pf_fd pf) ((u - i) * 64) (i * 64) (w_os w)
      = Ok (mds_image (take (u - i) (drop i h))) (w_os w)" by (simp add: mem_read_mds_image)
  let ?it = "it\<lparr>it_buffer := \<lparr>ib_epoch_metadata = overwrite (ib_epoch_metadata (it_buffer it)) (take (u - i) (drop i h)),
      ib_num_entries = u - i\<rparr>, it_epoch_metadata := 0\<rparr>"
  have "mds_epoch_iterator_prefetch it w = Ok ?it w"
    using core it pn upper num off rd decode_epochs_image [of i "u - i" h] u len
    by (simp add: mds_epoch_iterator_prefetch_def Let_def mds_core_def mds_at_def iter_at_def del: of_nat_Suc)
      (intro impI, elim conjE, use miss in simp)
  moreover have "iter_at h i m ?it"
  proof -
    have "length (ib_epoch_metadata (it_buffer it)) = kNvwalMdsReadPrefetch" "u - i \<le> 16" "i + (u - i) \<le> length h"
      using it u len by (auto simp: iter_at_def iter_ok_def Let_def)
    then have "iter_ok h ?it"
      by (auto simp: iter_ok_def Let_def overwrite_def nth_append intro!: exI [of _ i])
    with it show ?thesis by (simp add: iter_at_def)
  qed
  moreover have "it_entry ?it = h ! i"
    using u len i by (simp add: it_entry_def overwrite_def nth_append)
  ultimately show ?thesis by blast
qed

lemma entries_range:
  assumes "history_ok h" "f + n \<le> length h" "\<forall>j < n. es ! j = h ! (f + j)" "0 < n" "i < length h"
    and "of_nat (Suc i) \<ge> em_epoch_id (es ! 0)" "of_nat (Suc i) \<le> em_epoch_id (es ! (n - 1))"
  shows "f \<le> i \<and> i < f + n"
proof -
  have "em_epoch_id (es ! 0) = of_nat (Suc f)" "em_epoch_id (es ! (n - 1)) = of_nat (Suc (f + (n - 1)))"
    using assms(1-4) by (auto simp: history_ok_def)
  moreover have "length h < 2 ^ 56" using assms(1) by (simp add: history_ok_def)
  ultimately show ?thesis
    using assms u64_le_of_nat [of "Suc f" "Suc i"] u64_le_of_nat [of "Suc i" "Suc (f + (n - 1))"] by simp
qed

text \<open>The iterator points at the record of its current epoch after every prefetch.\<close>

lemma prefetch_reads:
  assumes "mds_repr w h" "iter_at h i m it"
  shows "\<exists>it'. mds_epoch_iterator_prefetch it w = Ok it' w \<and> iter_at h i m it' \<and> it_entry it' = h ! i"
proof -
  have i: "i < length h" using assms(2) by (simp add: iter_at_def)
  from assms(1) i obtain pe pf d b p cb where
    core: "mds_core w h ((length h - 1) div page_epochs (w_wal w) * page_epochs (w_wal w)) pe pf d b p cb"
    and b: "buffer_for (w_wal w) b (length h)" by (rule repr_nonempty)
  let ?k = "page_epochs (w_wal w)" and ?q = "(length h - 1) div page_epochs (w_wal w) * page_epochs (w_wal w)"
  show ?thesis
  proof (cases "?q \<le> i")
    case True
    with core b assms(2) show ?thesis by (intro prefetch_from_buffer) auto
  next
    case False
    have n: "length h < 2 ^ 56" "0 < ?k"
      using core page_epochs_pos [OF core_page_ok [OF core]] by (auto simp: mds_core_def history_ok_def)
    have "i div ?k \<noteq> (length h - 1) div ?k"
      using False n(2) by (metis div_times_less_eq_dividend)
    then have "unat (epoch_id_to_page_no (w_wal w) (of_nat (Suc i)))
        \<noteq> unat (epoch_id_to_page_no (w_wal w) (of_nat (length h)))"
      using page_no_nat [OF core_page_ok [OF core], of "Suc i"] i n
        page_no_nat [OF core_page_ok [OF core], of "length h"] by (cases "h = []") simp_all
    then have pn: "epoch_id_to_page_no (w_wal w) (of_nat (Suc i)) \<noteq> bf_page_no b"
      using b by (simp only: unat_eq_u64 buffer_for_def) simp
    obtain f where f: "f + ib_num_entries (it_buffer it) \<le> length h"
      "\<forall>j < ib_num_entries (it_buffer it). ib_epoch_metadata (it_buffer it) ! j = h ! (f + j)"
      using assms(2) by (auto simp: iter_at_def iter_ok_def Let_def)
    show ?thesis
    proof (cases "f \<le> i \<and> i < f + ib_num_entries (it_buffer it)")
      case True
      with core assms(2) pn f show ?thesis by (intro prefetch_from_entries) auto
    next
      case out: False
      have "\<not> (ib_num_entries (it_buffer it) > 0 \<and>
        of_nat (Suc i) \<ge> em_epoch_id (ib_epoch_metadata (it_buffer it) ! 0) \<and>
        of_nat (Suc i) \<le> em_epoch_id (ib_epoch_metadata (it_buffer it) ! (ib_num_entries (it_buffer it) - 1)))"
        using out f core i n entries_range [of h f "ib_num_entries (it_buffer it)" "ib_epoch_metadata (it_buffer it)" i]
        by (auto simp: mds_core_def)
      with core assms(2) False pn show ?thesis by (intro prefetch_from_file) auto
    qed
  qed
qed

lemma iterator_init_at:
  assumes "mds_repr w h" "i < length h" "Suc i \<le> m" "m < 2 ^ 57"
  shows "\<exists>it. mds_epoch_iterator_init (of_nat (Suc i)) (of_nat m) w = Ok it w \<and> iter_at h i m it \<and>
              it_entry it = h ! i"
proof -
  have "(of_nat (Suc i) :: u64) \<le> of_nat m" using assms(3,4) by (simp add: u64_le_of_nat del: of_nat_Suc)
  moreover have "iter_at h i m
      \<lparr>it_cur_epoch_id = of_nat (Suc i), it_begin_epoch_id = of_nat (Suc i), it_end_epoch_id = of_nat m,
       it_buffer = \<lparr>ib_epoch_metadata = replicate kNvwalMdsReadPrefetch zero_epoch, ib_num_entries = 0\<rparr>,
       it_epoch_metadata = 0\<rparr>"
    using assms(2-4) by (auto simp: iter_at_def iter_ok_def)
  ultimately show ?thesis
    using prefetch_reads [OF assms(1)]
    by (fastforce simp: mds_epoch_iterator_init_def not_less simp del: of_nat_Suc)
qed

lemma read_one_epoch:
  assumes "mds_repr w h" "i < length h"
  shows "mds_read_one_epoch (of_nat (Suc i)) w = Ok (h ! i) w"
proof -
  have h: "history_ok h"
    using assms(1) by (auto simp: mds_repr_def mds_core_def split: if_splits)
  then have n: "length h < 2 ^ 56" by (simp add: history_ok_def)
  obtain it where it: "mds_epoch_iterator_init (of_nat (Suc i)) (of_nat (Suc (Suc i))) w = Ok it w"
    "iter_at h i (Suc (Suc i)) it" "it_entry it = h ! i"
    using iterator_init_at [OF assms, of "Suc (Suc i)"] assms(2) n by auto
  have "\<not> mds_epoch_iterator_done it"
    using it(2) assms(2) n
    by (simp add: mds_epoch_iterator_done_def iter_at_def u64_le_of_nat not_le del: of_nat_Suc)
  moreover have "(of_nat (Suc i) :: u64) \<noteq> 0" using assms(2) n by (intro of_nat_neq_0_u64) auto
  moreover have "em_epoch_id (h ! i) = of_nat (Suc i)" using h assms(2) by (simp add: history_ok_def)
  moreover have "(of_nat (Suc i) :: u64) + 1 = of_nat (Suc (Suc i))" by simp
  ultimately show ?thesis using it by (simp add: mds_read_one_epoch_def del: of_nat_Suc)
qed

interpretation mds: epoch_reader mds_repr mds_read_one_epoch mds_latest_epoch
proof
  fix w h
  assume r: "mds_repr w h"
  then show "history_ok h" "mds_latest_epoch w = of_nat (length h)"
    by (auto simp: mds_repr_def mds_core_def split: if_splits)
  show "mds_read_one_epoch (of_nat (Suc i)) w = Ok (h ! i) w" if "i < length h" for i
    using r that by (rule read_one_epoch)
qed

end
