(* ===== verification/Mds_Recover.thy ===== *)
theory Mds_Recover
  imports Mds_Read
begin

text \<open>
  The metadata store over its life: creation in an empty directory gives the empty history, and a
  restart after a crash gives back the history that was written, because every record and the epoch
  that validates it were persisted in that order.
\<close>

section \<open>Durable content\<close>

text \<open>The number of records of a history that are in the page file.\<close>

definition paged_records :: "NvwalContext \<Rightarrow> MdsEpochMetadata list \<Rightarrow> nat" where
  "paged_records wal h = (if h = [] then 0 else (length h - 1) div page_epochs wal * page_epochs wal)"

text \<open>The files of the store after a crash: page file, buffer file and control block.\<close>

definition mds_stored :: "NvwalContext \<Rightarrow> os \<Rightarrow> MdsEpochMetadata list \<Rightarrow> bool" where
  "mds_stored wal s h \<longleftrightarrow>
     (\<exists>pe cb f p.
        history_ok h \<and> mds_page_ok wal \<and> os_resp s = [] \<and> mds_paths wal f p \<and> p \<noteq> f \<and>
        os_dirs s f = None \<and> os_dirs s p = None \<and>
        os_files s f = Some (mds_image (take (paged_records wal h) h)) \<and>
        os_durable s f = Some (mds_image (take (paged_records wal h) h)) \<and>
        buffer_holds s p (page_epochs wal * 64) (mds_image (drop (paged_records wal h) h)) \<and>
        wal_nv_control_block wal = Some cb \<and> cblock_holds s cb (length h) pe \<and> pe \<le> length h)"

lemma paged_records_le: "paged_records wal h \<le> length h"
  by (auto simp: paged_records_def intro: order.trans [OF div_times_less_eq_dividend])

lemma paged_records_rest:
  assumes "mds_page_ok wal"
  shows "length h - paged_records wal h \<le> page_epochs wal"
proof (cases "h = []")
  case False
  have "(length h - 1) mod page_epochs wal < page_epochs wal" using page_epochs_pos(1) [OF assms] by simp
  with False show ?thesis
    using minus_div_mult_eq_mod [of "length h - 1" "page_epochs wal"] by (simp add: paged_records_def)
qed simp

text \<open>What survives a crash is the history the store holds.\<close>

lemma crash_stored:
  assumes "mds_repr w h" "wal_config wal = wal_config (w_wal w)"
    "wal_nv_control_block wal = wal_nv_control_block (w_wal w)"
  shows "mds_stored wal (crash_os (w_os w)) h"
proof -
  have pc: "page_epochs wal = page_epochs (w_wal w)" "mds_page_ok wal = mds_page_ok (w_wal w)"
    "mds_paths wal = mds_paths (w_wal w)"
    using page_config [OF assms(2)] by auto
  obtain pe pf d b p cb where core: "mds_core w h (paged_records (w_wal w) h) pe pf d b p cb"
    using assms(1) by (cases "h = []") (auto simp: mds_repr_def paged_records_def)
  then have "buffer_holds (crash_os (w_os w)) p (page_epochs (w_wal w) * 64)
      (mds_image (drop (paged_records (w_wal w) h) h))"
    by (auto simp: mds_core_def buffer_holds_def crash_os_def mapped_def split: option.splits)
  moreover have "cblock_holds (crash_os (w_os w)) cb (length h) pe"
    using core by (simp add: mds_core_def cblock_holds_def crash_os_def)
  moreover have "paged_records wal h = paged_records (w_wal w) h" by (simp add: paged_records_def pc)
  ultimately show ?thesis
    using core assms(3) unfolding mds_stored_def pc
    by (intro exI [of _ pe] exI [of _ cb] exI [of _ "fd_path d"] exI [of _ p])
      (simp add: mds_core_def mds_at_def crash_os_def)
qed

section \<open>Restart\<close>

text \<open>A world whose page file is open and whose buffer is mapped but not yet assigned to a page.\<close>

definition mds_opened :: "world \<Rightarrow> MdsEpochMetadata list \<Rightarrow> bool" where
  "mds_opened w h \<longleftrightarrow>
     mds_stored (w_wal w) (w_os w) h \<and> mds_latest_epoch w = 0 \<and>
     (\<exists>fd. io_files (mds_io (wal_mds (w_wal w))) = [\<lparr>pf_active = True, pf_file_no = 0, pf_fd = fd\<rparr>] \<and>
        os_fds (w_os w) fd = Some \<lparr>fd_path = mds_page_file_path (w_wal w) 0, fd_append = True, fd_pos = 0\<rparr>) \<and>
     write_buffers w = [\<lparr>bf_file = None, bf_page_no = 0, bf_dirty = False,
                         bf_baseaddr = Some (mds_buffer_path (w_wal w) 0)\<rparr>]"

lemma open_existing:
  assumes "os_files s f = Some c" "os_dirs s f = None" "os_resp s = []"
  shows "sys_open f creat False app s = new_fd f app s"
    "nvwal_open_best_effort_o_direct f creat False s = new_fd f False s"
  using assms
  by (simp_all add: sys_open_def sys_try_def sys_next_def nvwal_open_best_effort_o_direct_def new_fd_def)

lemma stored_update:
  assumes "mds_stored wal s h" "os_files t = os_files s" "os_durable t = os_durable s" "os_dirs t = os_dirs s"
    "os_cblock t = os_cblock s" "os_cblock_durable t = os_cblock_durable s" "os_resp t = os_resp s"
    "wal_config wal' = wal_config wal" "wal_nv_control_block wal' = wal_nv_control_block wal"
  shows "mds_stored wal' t h"
proof -
  have "buffer_holds t = buffer_holds s" "cblock_holds t = cblock_holds s"
    "paged_records wal' = paged_records wal"
    using assms(2-6) page_config(1) [OF assms(8)]
    by (auto simp: fun_eq_iff buffer_holds_def cblock_holds_def mapped_def paged_records_def)
  with assms page_config [OF assms(8)] show ?thesis by (simp add: mds_stored_def)
qed

text \<open>Opening the page file.\<close>

definition io_opened :: "world \<Rightarrow> int \<Rightarrow> bool" where
  "io_opened w fd \<longleftrightarrow>
     io_files (mds_io (wal_mds (w_wal w))) = [\<lparr>pf_active = True, pf_file_no = 0, pf_fd = fd\<rparr>] \<and>
     os_fds (w_os w) fd = Some \<lparr>fd_path = mds_page_file_path (w_wal w) 0, fd_append = True, fd_pos = 0\<rparr>"

lemma io_init_restart:
  assumes st: "mds_stored (w_wal w) (w_os w) h" and latest: "mds_latest_epoch w = 0"
    and mode: "mode = kNvwalInitRestart \<or> mode = kNvwalInitCreateIfNotExists"
  shows "\<exists>w'. mds_io_init mode w = Ok True w' \<and> mds_stored (w_wal w') (w_os w') h \<and>
           mds_latest_epoch w' = 0 \<and> (\<exists>fd. io_opened w' fd \<and> fd < os_next_fd (w_os w'))"
proof -
  let ?f = "mds_page_file_path (w_wal w) 0" and ?fd = "os_next_fd (w_os w)"
  obtain c where c: "os_files (w_os w) ?f = Some c" "os_dirs (w_os w) ?f = None" "os_resp (w_os w) = []"
    using st by (auto simp: mds_stored_def mds_paths_def)
  let ?w = "set_io_file 0 (\<lambda>_. \<lparr>pf_active = True, pf_file_no = 0, pf_fd = ?fd\<rparr>)
              ((clear_io w)\<lparr>w_os := snd (new_fd ?f True (w_os w))\<rparr>)"
  have path: "mds_page_file_path (w_wal (clear_io w)) 0 = ?f"
    by (simp add: clear_io_def mds_page_file_path_def)
  have "mds_io_init mode w = Ok True ?w"
    using mode c open_existing [OF c] path
    by (auto simp: mds_io_init_def page_file_nos_single mds_io_file_exists_def sys_stat_def os_simps
        mds_io_open_file_def sys_call_def new_fd_def mds_io_activate_file_def clear_io_def)
  moreover have "mds_stored (w_wal ?w) (w_os ?w) h"
    by (rule stored_update [OF st]) (simp_all add: set_io_file_def Let_def clear_io_def new_fd_def)
  moreover have "mds_latest_epoch ?w = 0"
    using latest by (simp add: mds_latest_epoch_def set_io_file_def Let_def clear_io_def)
  moreover have "io_opened ?w ?fd" "?fd < os_next_fd (w_os ?w)"
    by (simp_all add: io_opened_def set_io_file_def Let_def clear_io_def zero_mds_def new_fd_def
        mds_page_file_path_def)
  ultimately show ?thesis by blast
qed

text \<open>Mapping the buffer file.\<close>

lemma bufmgr_init_restart:
  assumes st: "mds_stored (w_wal w) (w_os w) h" and latest: "mds_latest_epoch w = 0"
    and io: "io_opened w fd" "fd < os_next_fd (w_os w)"
    and mode: "mode = kNvwalInitRestart \<or> mode = kNvwalInitCreateIfNotExists"
  shows "\<exists>w'. mds_bufmgr_init pm mode w = Ok True w' \<and> mds_opened w' h"
proof -
  let ?p = "mds_buffer_path (w_wal w) 0" and ?fd = "os_next_fd (w_os w)"
  obtain c where c: "os_files (w_os w) ?p = Some c" "os_dirs (w_os w) ?p = None" "os_resp (w_os w) = []"
    using st page_epochs_pos(1) [of "w_wal w"]
    by (auto simp: mds_stored_def mds_paths_def buffer_holds_def mapped_def split: option.splits)
  let ?s = "snd (sys_close ?fd (snd (new_fd ?p False (w_os w))))"
  let ?w = "set_buffer 0 (\<lambda>b. b\<lparr>bf_file := None, bf_page_no := 0, bf_baseaddr := Some ?p\<rparr>)
              ((clear_bufmgr w)\<lparr>w_os := ?s\<rparr>)"
  have path: "mds_buffer_path (w_wal (clear_bufmgr w)) 0 = ?p"
    by (simp add: clear_bufmgr_def mds_buffer_path_def)
  have "mds_bufmgr_init pm mode w = Ok True ?w"
    using mode c open_existing [OF c] path
    by (auto simp: mds_bufmgr_init_def page_file_nos_single nvram_buffer_file_exists_def sys_stat_def os_simps
        mds_bufmgr_map_nvram_buffer_def map_nvram_buffer_file_def sys_call_def new_fd_def sys_mmap_def
        fd_file_def clear_bufmgr_def zero_mds_def sys_close_def)
  moreover have "mds_stored (w_wal ?w) (w_os ?w) h"
    using c by (intro stored_update [OF st])
      (simp_all add: set_buffer_def Let_def clear_bufmgr_def new_fd_def sys_close_def os_simps)
  moreover have "mds_latest_epoch ?w = 0" "mds_buffer_path (w_wal ?w) 0 = ?p"
    "mds_page_file_path (w_wal ?w) 0 = mds_page_file_path (w_wal w) 0"
    using latest by (simp_all add: mds_latest_epoch_def set_buffer_def Let_def clear_bufmgr_def
        mds_buffer_path_def mds_page_file_path_def)
  moreover have "write_buffers ?w = [\<lparr>bf_file = None, bf_page_no = 0, bf_dirty = False, bf_baseaddr = Some ?p\<rparr>]"
    by (simp add: set_buffer_def Let_def clear_bufmgr_def zero_mds_def zero_buffer_def)
  moreover have "io_files (mds_io (wal_mds (w_wal ?w))) = io_files (mds_io (wal_mds (w_wal w)))"
    "os_fds (w_os ?w) fd = os_fds (w_os w) fd"
    using io(2) c by (simp_all add: set_buffer_def Let_def clear_bufmgr_def new_fd_def sys_close_def os_simps)
  ultimately show ?thesis using io(1) unfolding mds_opened_def io_opened_def
    by (intro exI [of _ ?w]) simp
qed

text \<open>Recovery assigns the buffer to the page of the latest durable epoch.\<close>

lemma opened_core:
  assumes "mds_opened w h"
  obtains pe pf d b p cb where "mds_at w pf d b p cb" "bf_page_no b = 0" "bf_dirty b = False"
    "mds_core (set_latest_epoch (of_nat (length h)) w) h (paged_records (w_wal w) h) pe pf d b p cb"
    "mds_durable_epoch w = Some (of_nat (length h))" "mds_paged_epoch w = Some (of_nat pe)" "pe \<le> length h"
proof -
  have st: "mds_stored (w_wal w) (w_os w) h" using assms by (simp add: mds_opened_def)
  then obtain pe cb f p where f: "mds_paths (w_wal w) f p" "cblock_holds (w_os w) cb (length h) pe"
      "wal_nv_control_block (w_wal w) = Some cb" "pe \<le> length h" "os_resp (w_os w) = []"
      "os_files (w_os w) f = Some (mds_image (take (paged_records (w_wal w) h) h))"
      "os_durable (w_os w) f = Some (mds_image (take (paged_records (w_wal w) h) h))"
      "buffer_holds (w_os w) p (page_epochs (w_wal w) * 64) (mds_image (drop (paged_records (w_wal w) h) h))"
      "history_ok h" "mds_page_ok (w_wal w)" "p \<noteq> f" "os_dirs (w_os w) f = None" "os_dirs (w_os w) p = None"
    by (auto simp: mds_stored_def)
  obtain fd where o: "io_files (mds_io (wal_mds (w_wal w))) = [\<lparr>pf_active = True, pf_file_no = 0, pf_fd = fd\<rparr>]"
      "os_fds (w_os w) fd = Some \<lparr>fd_path = f, fd_append = True, fd_pos = 0\<rparr>"
      "write_buffers w = [\<lparr>bf_file = None, bf_page_no = 0, bf_dirty = False, bf_baseaddr = Some p\<rparr>]"
    using assms f(1) by (auto simp: mds_opened_def mds_paths_def)
  have at: "mds_at w \<lparr>pf_active = True, pf_file_no = 0, pf_fd = fd\<rparr> \<lparr>fd_path = f, fd_append = True, fd_pos = 0\<rparr>
      \<lparr>bf_file = None, bf_page_no = 0, bf_dirty = False, bf_baseaddr = Some p\<rparr> p cb"
    using f o by (simp add: mds_at_def)
  have "mds_durable_epoch w = Some (of_nat (length h))" "mds_paged_epoch w = Some (of_nat pe)"
    using f(2,3) by (simp_all add: mds_durable_epoch_def mds_paged_epoch_def cblock_holds_def)
  moreover have "mds_core (set_latest_epoch (of_nat (length h)) w) h (paged_records (w_wal w) h) pe
      \<lparr>pf_active = True, pf_file_no = 0, pf_fd = fd\<rparr> \<lparr>fd_path = f, fd_append = True, fd_pos = 0\<rparr>
      \<lparr>bf_file = None, bf_page_no = 0, bf_dirty = False, bf_baseaddr = Some p\<rparr> p cb"
    using at f paged_records_le [of "w_wal w" h] paged_records_rest [OF f(10), of h]
    by (simp add: mds_core_def mds_at_def world_simps)
  ultimately show ?thesis using at f(4) by (intro that) auto
qed

lemma mds_repr_NilI: "mds_core w [] 0 pe pf d b p cb \<Longrightarrow> bf_page_no b = 0 \<Longrightarrow> mds_repr w []"
  unfolding mds_repr_def by (intro exI [of _ pe] exI [of _ pf] exI [of _ d] exI [of _ b]
      exI [of _ p] exI [of _ cb]) simp

lemma recover_opened:
  assumes "mds_opened w h"
  shows "\<exists>w'. mds_recover pm w = Ok () w' \<and> mds_repr w' h"
proof -
  obtain pe pf d b p cb where o: "mds_at w pf d b p cb" "bf_page_no b = 0" "bf_dirty b = False"
    "mds_core (set_latest_epoch (of_nat (length h)) w) h (paged_records (w_wal w) h) pe pf d b p cb"
    "mds_durable_epoch w = Some (of_nat (length h))" "mds_paged_epoch w = Some (of_nat pe)" "pe \<le> length h"
    using opened_core [OF assms] .
  have hist: "length h < 2 ^ 56" "mds_page_ok (w_wal w)"
    using o(4) by (auto simp: mds_core_def history_ok_def world_simps)
  have latest: "mds_latest_epoch w = 0" using assms by (simp add: mds_opened_def)
  have nroll: "\<not> (of_nat (length h) :: u64) < of_nat pe"
    using o(7) hist(1) u64_le_of_nat [of pe "length h"] by (simp add: not_less)
  show ?thesis
  proof (cases "h = []")
    case True
    have "set_latest_epoch 0 w = w" using latest by (simp add: set_latest_epoch_def mds_latest_epoch_def)
    then have "mds_core w [] 0 pe pf d b p cb" using o(4) True by (simp add: paged_records_def)
    with o(2) have "mds_repr w []" by (rule_tac mds_repr_NilI)
    moreover have "mds_recover pm w = Ok () w"
      using o nroll True latest
      by (simp add: mds_recover_def page_file_nos_single epoch_id_to_page_no_def)
    ultimately show ?thesis using True by blast
  next
    case False
    let ?pn = "epoch_id_to_page_no (w_wal w) (of_nat (length h))"
    have pn: "?pn \<noteq> 0" using page_no_neq_0 [OF hist(2), of "length h"] False hist(1) by simp
    let ?g = "\<lambda>b. b\<lparr>bf_file := Some 0, bf_page_no := ?pn, bf_dirty := True\<rparr>"
    let ?w = "set_latest_epoch (of_nat (length h)) (set_buffer 0 ?g w)"
    have gt: "(0 :: u64) < of_nat (length h)"
      using of_nat_neq_0_u64 [of "length h"] False hist(1) by (simp add: word_gt_0)
    have al: "mds_bufmgr_alloc_page 0 ?pn w = Ok 0 (set_buffer 0 ?g w)"
      using alloc_page_first [OF o(1) pn o(2)] o(1) by (simp add: set_buffer_def Let_def mds_at_def)
    have r: "mds_recover pm w = Ok () ?w"
      using o nroll latest pn gt al
      by (simp add: mds_recover_def page_file_nos_single world_simps)
    have w: "?w = set_buffer 0 ?g (set_latest_epoch (of_nat (length h)) w)"
      by (simp add: set_latest_epoch_def set_buffer_def Let_def)
    have "mds_core ?w h (paged_records (w_wal w) h) pe pf d (?g b) p cb"
      unfolding w using o(1) by (intro core_set_buffer o(4)) (simp add: mds_at_def)
    moreover have "buffer_for (w_wal ?w) (?g b) (length h)" by (simp add: buffer_for_def world_simps)
    moreover have "paged_records (w_wal w) h = (length h - 1) div page_epochs (w_wal ?w) * page_epochs (w_wal ?w)"
      using False by (simp add: paged_records_def world_simps)
    ultimately have "mds_repr ?w h" using False by (rule_tac mds_reprI)
    with r show ?thesis by blast
  qed
qed

lemma init_restart:
  assumes st: "mds_stored (w_wal w) (w_os w) h"
    and mode: "mode = kNvwalInitRestart \<or> mode = kNvwalInitCreateIfNotExists"
  shows "\<exists>w'. mds_init pm mode w = Ok () w' \<and> mds_repr w' h"
proof -
  let ?w = "w\<lparr>w_wal := (w_wal w)\<lparr>wal_mds := zero_mds\<rparr>\<rparr>"
  have "mds_stored (w_wal ?w) (w_os ?w) h" by (rule stored_update [OF st]) simp_all
  moreover have "mds_latest_epoch ?w = 0" by (simp add: mds_latest_epoch_def zero_mds_def)
  ultimately obtain w1 fd where w1: "mds_io_init mode ?w = Ok True w1" "mds_stored (w_wal w1) (w_os w1) h"
    "mds_latest_epoch w1 = 0" "io_opened w1 fd" "fd < os_next_fd (w_os w1)"
    using io_init_restart [OF _ _ mode] by blast
  then obtain w2 where w2: "mds_bufmgr_init pm mode w1 = Ok True w2" "mds_opened w2 h"
    using bufmgr_init_restart [OF _ _ _ _ mode] by blast
  then obtain w3 where w3: "mds_recover pm w2 = Ok () w3" "mds_repr w3 h" using recover_opened by blast
  have "mds_sanity_check_config w = Ok () w"
    using st by (auto simp: mds_sanity_check_config_def mds_stored_def mds_page_ok_def)
  with w1 w2 w3 mode show ?thesis by (auto simp: mds_init_def)
qed

section \<open>Creation\<close>

text \<open>
  The directories a new store is created in: empty of the store's files, and a control block that
  says that no epoch is durable.
\<close>

definition mds_fresh :: "world \<Rightarrow> bool" where
  "mds_fresh w \<longleftrightarrow>
     mds_page_ok (w_wal w) \<and> os_resp (w_os w) = [] \<and> 0 < os_next_fd (w_os w) \<and>
     (let f = mds_page_file_path (w_wal w) 0; p = mds_buffer_path (w_wal w) 0;
          droot = c_string (cf_disk_root (wal_config (w_wal w)));
          nroot = c_string (cf_nv_root (wal_config (w_wal w)))
      in p \<noteq> f \<and> os_files (w_os w) f = None \<and> os_files (w_os w) p = None \<and>
         os_durable (w_os w) f = None \<and> os_durable (w_os w) p = None \<and>
         os_dirs (w_os w) f = None \<and> os_dirs (w_os w) p = None \<and>
         path_dirname f = droot \<and> path_dirname p = nroot \<and>
         os_dirs (w_os w) droot \<noteq> None \<and> os_dirs (w_os w) nroot \<noteq> None) \<and>
     (case wal_nv_control_block (w_wal w) of None \<Rightarrow> False | Some cb \<Rightarrow> cblock_holds (w_os w) cb 0 0)"

text \<open>Creating a file in a directory, and making the directory durable.\<close>

lemma open_create:
  assumes "os_files s f = None" "os_dirs s f = None" "os_resp s = []" "os_dirs s (path_dirname f) = Some es"
  shows "sys_open f True True app s = new_fd f app
           (s\<lparr>os_files := (os_files s)(f \<mapsto> []),
              os_dirs := (os_dirs s)(path_dirname f \<mapsto> es @ [(path_basename f, DT_REG)])\<rparr>)"
    "nvwal_open_best_effort_o_direct f True True s = new_fd f False
           (s\<lparr>os_files := (os_files s)(f \<mapsto> []),
              os_dirs := (os_dirs s)(path_dirname f \<mapsto> es @ [(path_basename f, DT_REG)])\<rparr>)"
  using assms by (simp_all add: sys_open_def nvwal_open_best_effort_o_direct_def os_simps new_fd_def)

lemma open_and_fsync_dir:
  assumes "os_dirs s d \<noteq> None" "os_resp s = []" "os_next_fd s \<noteq> 0"
  shows "nvwal_open_and_fsync d s =
           Ok () (s\<lparr>os_durable := dir_durable d s, os_fds := (os_fds s)(os_next_fd s := None),
                    os_next_fd := os_next_fd s + 1\<rparr>)"
  using assms
  by (auto simp: nvwal_open_and_fsync_def sys_open_def os_simps new_fd_def sys_fsync_def sys_close_def
      dir_durable_def fun_eq_iff)

text \<open>Initialising the store changes nothing else of the context, of the files and of the control block.\<close>

definition init_frame :: "world \<Rightarrow> world \<Rightarrow> bool" where
  "init_frame w w' \<longleftrightarrow>
     (w_wal w')\<lparr>wal_mds := zero_mds\<rparr> = (w_wal w)\<lparr>wal_mds := zero_mds\<rparr> \<and>
     dom (os_dirs (w_os w')) = dom (os_dirs (w_os w)) \<and> os_resp (w_os w') = os_resp (w_os w) \<and>
     os_next_fd (w_os w) \<le> os_next_fd (w_os w') \<and>
     os_cblock (w_os w') = os_cblock (w_os w) \<and> os_cblock_durable (w_os w') = os_cblock_durable (w_os w)"

lemma init_frame_trans: "init_frame u v \<Longrightarrow> init_frame v w \<Longrightarrow> init_frame u w"
  by (simp add: init_frame_def)

lemma io_init_create:
  assumes fresh: "mds_fresh w" and latest: "mds_latest_epoch w = 0"
  shows "\<exists>w'. mds_io_init kNvwalInitCreateIfNotExists w = Ok False w' \<and> mds_latest_epoch w' = 0 \<and>
           (\<exists>fd. io_opened w' fd \<and> fd < os_next_fd (w_os w')) \<and>
           wal_config (w_wal w') = wal_config (w_wal w) \<and>
           wal_nv_control_block (w_wal w') = wal_nv_control_block (w_wal w) \<and>
           os_cblock (w_os w') = os_cblock (w_os w) \<and> os_cblock_durable (w_os w') = os_cblock_durable (w_os w) \<and>
           os_files (w_os w') = (os_files (w_os w))(mds_page_file_path (w_wal w) 0 \<mapsto> []) \<and>
           os_durable (w_os w') (mds_page_file_path (w_wal w) 0) = Some [] \<and>
           os_durable (w_os w') (mds_buffer_path (w_wal w) 0) = None \<and>
           dom (os_dirs (w_os w')) = dom (os_dirs (w_os w)) \<and> os_resp (w_os w') = [] \<and> 0 < os_next_fd (w_os w') \<and>
           init_frame w w'"
proof -
  let ?f = "mds_page_file_path (w_wal w) 0" and ?fd = "os_next_fd (w_os w)" and ?p = "mds_buffer_path (w_wal w) 0"
  let ?droot = "c_string (cf_disk_root (wal_config (w_wal w)))"
  obtain es where es: "os_dirs (w_os w) ?droot = Some es" "path_dirname ?f = ?droot"
    "os_files (w_os w) ?f = None" "os_dirs (w_os w) ?f = None" "os_resp (w_os w) = []" "0 < ?fd"
    "os_durable (w_os w) ?f = None" "os_durable (w_os w) ?p = None" "os_files (w_os w) ?p = None" "?p \<noteq> ?f"
    using fresh by (auto simp: mds_fresh_def Let_def)
  let ?s1 = "snd (new_fd ?f True ((w_os w)\<lparr>os_files := (os_files (w_os w))(?f \<mapsto> []),
               os_dirs := (os_dirs (w_os w))(?droot \<mapsto> es @ [(path_basename ?f, DT_REG)])\<rparr>))"
  let ?s2 = "?s1\<lparr>os_durable := dir_durable ?droot ?s1, os_fds := (os_fds ?s1)(os_next_fd ?s1 := None),
                 os_next_fd := os_next_fd ?s1 + 1\<rparr>"
  let ?w = "set_io_file 0 (\<lambda>_. \<lparr>pf_active = True, pf_file_no = 0, pf_fd = ?fd\<rparr>) ((clear_io w)\<lparr>w_os := ?s2\<rparr>)"
  have op: "sys_open ?f True True True (w_os w) = (Inr ?fd, ?s1)"
    using open_create(1) [of "w_os w" ?f es True] es by (simp add: new_fd_def)
  have sy: "nvwal_open_and_fsync ?droot ?s1 = Ok () ?s2"
    using es by (intro open_and_fsync_dir) (simp_all add: new_fd_def)
  have frame: "mds_page_file_path (w_wal (clear_io w)) 0 = ?f" "w_os (clear_io w) = w_os w"
    "wal_config (w_wal (clear_io w)) = wal_config (w_wal w)"
    by (simp_all add: clear_io_def mds_page_file_path_def)
  have "mds_io_init kNvwalInitCreateIfNotExists w = Ok False ?w"
    using es op sy frame
    by (simp add: mds_io_init_def page_file_nos_single mds_io_file_exists_def sys_stat_def os_simps
        mds_io_create_file_def sys_call_def mds_io_activate_file_def)
  moreover have "os_durable (w_os ?w) ?f = Some []" "os_durable (w_os ?w) ?p = None"
    using es by (auto simp: set_io_file_def Let_def dir_durable_def new_fd_def)
  ultimately show ?thesis
    using latest es
    by (intro exI [of _ ?w]) (auto simp: mds_latest_epoch_def set_io_file_def Let_def clear_io_def io_opened_def
        zero_mds_def new_fd_def mds_page_file_path_def init_frame_def)
qed

text \<open>The buffer file: allocated, filled with zeros, made durable and mapped.\<close>

lemma create_buffer_file:
  assumes p: "p = mds_buffer_path (w_wal w) 0" "os_files (w_os w) p = None" "os_dirs (w_os w) p = None"
      "os_durable (w_os w) p = None" "path_dirname p = c_string (cf_nv_root (wal_config (w_wal w)))"
      "os_dirs (w_os w) (path_dirname p) = Some es"
    and s: "os_resp (w_os w) = []" "0 < os_next_fd (w_os w)"
    and n: "n = unat (cf_mds_page_size (wal_config (w_wal w)))"
  shows "\<exists>s'. create_nvram_buffer_file pm 0 w = Ok () (set_os s' w) \<and> os_resp s' = [] \<and>
           os_files s' = (os_files (w_os w))(p \<mapsto> replicate n 0) \<and>
           os_durable s' p = Some (replicate n 0) \<and>
           (\<forall>f. os_durable (w_os w) f \<noteq> None \<longrightarrow> os_durable s' f = os_durable (w_os w) f) \<and>
           dom (os_dirs s') = dom (os_dirs (w_os w)) \<and> os_next_fd (w_os w) < os_next_fd s' \<and>
           (\<forall>fd < os_next_fd (w_os w). os_fds s' fd = os_fds (w_os w) fd) \<and>
           os_cblock s' = os_cblock (w_os w) \<and> os_cblock_durable s' = os_cblock_durable (w_os w)"
proof -
  let ?fd = "os_next_fd (w_os w)" and ?d = "path_dirname p"
  let ?s1 = "snd (new_fd p False ((w_os w)\<lparr>os_files := (os_files (w_os w))(p \<mapsto> []),
               os_dirs := (os_dirs (w_os w))(?d \<mapsto> es @ [(path_basename p, DT_REG)])\<rparr>))"
  let ?s2 = "?s1\<lparr>os_files := (os_files (w_os w))(p \<mapsto> replicate n 0)\<rparr>"
  let ?s3 = "?s2\<lparr>os_durable := (os_durable (w_os w))(p \<mapsto> replicate n 0), os_fds := (os_fds ?s1)(?fd := None)\<rparr>"
  let ?s4 = "?s3\<lparr>os_durable := dir_durable ?d ?s3, os_fds := (os_fds ?s3)(os_next_fd ?s3 := None),
                 os_next_fd := os_next_fd ?s3 + 1\<rparr>"
  have ne: "p \<noteq> ?d" using p by auto
  have op: "nvwal_open_best_effort_o_direct p True True (w_os w) = (Inr ?fd, ?s1)"
    using open_create(2) [OF p(2,3) s(1) p(6)] by (simp add: new_fd_def)
  have fa: "sys_fallocate ?fd n ?s1 = (Inr (), ?s2)"
    using s ne p by (auto simp: sys_fallocate_def os_simps new_fd_def fd_file_def resize_def)
  have mm: "sys_mmap ?fd ?s2 = (Inr p, ?s2)"
    using s by (simp add: sys_mmap_def os_simps new_fd_def fd_file_def)
  have st: "pmem_store_persist pm p 0 (replicate n 0) ?s2 = ?s2"
    using p by (simp add: pmem_store_persist_def store_mapped_def persist_mapped_def mapped_def new_fd_def
        mem_write_def)
  have sy: "snd (sys_close ?fd (snd (sys_fsync ?fd (snd (sys_munmap p ?s2))))) = ?s3"
    using s ne p by (simp add: sys_close_def sys_fsync_def sys_munmap_def os_simps new_fd_def)
  have od: "nvwal_open_and_fsync ?d ?s3 = Ok () ?s4"
    using s p by (intro open_and_fsync_dir) (simp_all add: new_fd_def)
  have "create_nvram_buffer_file pm 0 w = Ok () (set_os ?s4 w)"
    using op fa mm st sy od p(1,5) n by (simp add: create_nvram_buffer_file_def Let_def sys_call_def)
  then show ?thesis
    using s p by (intro exI [of _ ?s4]) (auto simp: new_fd_def dir_durable_def)
qed

lemma bufmgr_init_create:
  assumes p: "p = mds_buffer_path (w_wal w) 0" "os_files (w_os w) p = None" "os_dirs (w_os w) p = None"
      "os_durable (w_os w) p = None" "path_dirname p = c_string (cf_nv_root (wal_config (w_wal w)))"
      "os_dirs (w_os w) (path_dirname p) = Some es"
    and f: "f = mds_page_file_path (w_wal w) 0" "os_files (w_os w) f = Some []" "os_durable (w_os w) f = Some []"
      "os_dirs (w_os w) f = None" "p \<noteq> f"
    and s: "os_resp (w_os w) = []" "0 < os_next_fd (w_os w)" "io_opened w fd" "fd < os_next_fd (w_os w)"
    and c: "wal_nv_control_block (w_wal w) = Some cb" "cblock_holds (w_os w) cb 0 0"
      "mds_page_ok (w_wal w)" "mds_latest_epoch w = 0"
  shows "\<exists>w'. mds_bufmgr_init pm kNvwalInitCreateIfNotExists w = Ok False w' \<and> mds_opened w' [] \<and> init_frame w w' \<and>
           os_files (w_os w') = (os_files (w_os w))(p \<mapsto> replicate (unat (cf_mds_page_size (wal_config (w_wal w)))) 0) \<and>
           mds_io (wal_mds (w_wal w')) = mds_io (wal_mds (w_wal w))"
proof -
  let ?n = "unat (cf_mds_page_size (wal_config (w_wal w)))" and ?cw = "clear_bufmgr w"
  have cw: "w_os ?cw = w_os w" "wal_config (w_wal ?cw) = wal_config (w_wal w)" "mds_buffer_path (w_wal ?cw) 0 = p"
    "wal_nv_control_block (w_wal ?cw) = Some cb" "mds_latest_epoch ?cw = 0"
    "mds_io (wal_mds (w_wal ?cw)) = mds_io (wal_mds (w_wal w))" "write_buffers ?cw = [zero_buffer]"
    "?cw\<lparr>w_os := w_os w\<rparr> = ?cw"
    using p(1) c by (simp_all add: clear_bufmgr_def mds_buffer_path_def mds_latest_epoch_def zero_mds_def)
  obtain s1 where s1: "create_nvram_buffer_file pm 0 ?cw = Ok () (set_os s1 ?cw)" "os_resp s1 = []"
    "os_files s1 = (os_files (w_os w))(p \<mapsto> replicate ?n 0)" "os_durable s1 p = Some (replicate ?n 0)"
    "os_durable s1 f = Some []" "dom (os_dirs s1) = dom (os_dirs (w_os w))" "os_next_fd (w_os w) < os_next_fd s1"
    "os_fds s1 fd = os_fds (w_os w) fd" "os_cblock s1 = os_cblock (w_os w)"
    "os_cblock_durable s1 = os_cblock_durable (w_os w)"
    using create_buffer_file [of p ?cw es ?n pm] p f(3) s(1,2,4) cw by auto
  have dirs: "os_dirs s1 p = None" "os_dirs s1 f = None"
    using s1(6) p(3) f(4) by (metis domIff)+
  let ?s2 = "snd (sys_close (os_next_fd s1) (snd (new_fd p False s1)))"
  have mp: "map_nvram_buffer_file 0 (set_os s1 ?cw) = Ok p (set_os ?s2 ?cw)"
    using open_existing(2) [of s1 p "replicate ?n 0" False] s1(2,3) dirs(1) cw(3)
    by (simp add: map_nvram_buffer_file_def sys_call_def new_fd_def sys_mmap_def os_simps fd_file_def)
  let ?w = "set_buffer 0 (\<lambda>b. b\<lparr>bf_file := None, bf_page_no := 0, bf_baseaddr := Some p\<rparr>) (set_os ?s2 ?cw)"
  have r: "mds_bufmgr_init pm kNvwalInitCreateIfNotExists w = Ok False ?w"
    using p s cw s1(1) mp
    by (simp add: mds_bufmgr_init_def page_file_nos_single nvram_buffer_file_exists_def sys_stat_def os_simps
        mds_bufmgr_create_nvram_buffer_def cw(8))
  have os2: "os_files ?s2 = os_files s1" "os_durable ?s2 = os_durable s1" "os_dirs ?s2 = os_dirs s1"
    "os_resp ?s2 = []" "os_cblock ?s2 = os_cblock (w_os w)" "os_cblock_durable ?s2 = os_cblock_durable (w_os w)"
    "os_fds ?s2 fd = os_fds (w_os w) fd"
    using s1 s(4) by (simp_all add: sys_close_def new_fd_def os_simps)
  have pc: "page_epochs (w_wal ?w) = page_epochs (w_wal w)" "mds_page_ok (w_wal ?w) = mds_page_ok (w_wal w)"
    "mds_paths (w_wal ?w) = mds_paths (w_wal w)"
    using page_config [of "w_wal ?w" "w_wal w"] cw(2) by (simp_all add: world_simps)
  have bh: "buffer_holds ?s2 p (page_epochs (w_wal w) * 64) []"
    using s1 os2 page_epochs_pos(2) [OF c(3)] by (simp add: buffer_holds_def mapped_def)
  have ch: "cblock_holds ?s2 cb 0 0" using c(2) os2 by (simp add: cblock_holds_def)
  have "mds_stored (w_wal ?w) (w_os ?w) []"
    unfolding mds_stored_def pc
    using p(1) f os2 s1 c dirs cw(4) bh ch
    by (intro exI [of _ 0] exI [of _ cb] exI [of _ f] exI [of _ p])
      (simp add: history_ok_def paged_records_def mds_image_def mds_paths_def world_simps)
  moreover have "io_files (mds_io (wal_mds (w_wal ?w))) = io_files (mds_io (wal_mds (w_wal w)))"
    "mds_latest_epoch ?w = 0" using cw by (simp_all add: world_simps)
  moreover have "mds_buffer_path (w_wal ?w) 0 = p" "mds_page_file_path (w_wal ?w) 0 = f"
    using p(1) f(1) cw(2) by (simp_all add: mds_buffer_path_def mds_page_file_path_def world_simps)
  moreover have "write_buffers ?w = [\<lparr>bf_file = None, bf_page_no = 0, bf_dirty = False, bf_baseaddr = Some p\<rparr>]"
    using cw(7) by (simp add: world_simps zero_buffer_def)
  ultimately have "mds_opened ?w []"
    using s(3) f(1) os2(7) by (auto simp: mds_opened_def io_opened_def world_simps)
  moreover have "init_frame w ?w"
    using os2 s1(6,7) s(1) by (simp add: init_frame_def set_buffer_def clear_bufmgr_def Let_def sys_close_def new_fd_def os_simps s1(2))
  moreover have "os_files (w_os ?w) = (os_files (w_os w))(p \<mapsto> replicate ?n 0)" "mds_io (wal_mds (w_wal ?w)) = mds_io (wal_mds (w_wal w))"
    using os2(1) s1(3) cw(6) by (simp_all add: world_simps)
  ultimately show ?thesis using r by blast
qed

lemma opened_empty:
  assumes "mds_opened w h" "h = []"
  shows "mds_repr w h"
proof -
  obtain pe pf d b p cb where o: "mds_at w pf d b p cb" "bf_page_no b = 0" "bf_dirty b = False"
    "mds_core (set_latest_epoch (of_nat (length h)) w) h (paged_records (w_wal w) h) pe pf d b p cb"
    "mds_durable_epoch w = Some (of_nat (length h))" "mds_paged_epoch w = Some (of_nat pe)" "pe \<le> length h"
    using opened_core [OF assms(1)] .
  have "set_latest_epoch 0 w = w"
    using assms by (simp add: mds_opened_def set_latest_epoch_def mds_latest_epoch_def)
  with o(4) have "mds_core w [] 0 pe pf d b p cb" by (simp add: assms(2) paged_records_def)
  then show ?thesis using o(2) unfolding assms(2) by (rule mds_repr_NilI)
qed

lemma fresh_reset:
  assumes "mds_fresh w"
  shows "mds_fresh (w\<lparr>w_wal := (w_wal w)\<lparr>wal_mds := zero_mds\<rparr>\<rparr>)"
  using assms page_config(2) [of "(w_wal w)\<lparr>wal_mds := zero_mds\<rparr>" "w_wal w"]
  by (simp add: mds_fresh_def mds_page_file_path_def mds_buffer_path_def Let_def split: option.splits)

lemma init_create:
  assumes fresh: "mds_fresh w"
  shows "\<exists>w'. mds_init pm kNvwalInitCreateIfNotExists w = Ok () w' \<and> mds_repr w' [] \<and> init_frame w w' \<and>
           os_files (w_os w') = (os_files (w_os w))(mds_page_file_path (w_wal w) 0 \<mapsto> [],
             mds_buffer_path (w_wal w) 0 \<mapsto> replicate (unat (cf_mds_page_size (wal_config (w_wal w)))) 0) \<and>
           (\<forall>pf \<in> set (io_files (mds_io (wal_mds (w_wal w')))). pf_fd pf < os_next_fd (w_os w'))"
proof -
  let ?w = "w\<lparr>w_wal := (w_wal w)\<lparr>wal_mds := zero_mds\<rparr>\<rparr>"
  let ?f = "mds_page_file_path (w_wal w) 0" and ?p = "mds_buffer_path (w_wal w) 0"
  have "mds_latest_epoch ?w = 0" by (simp add: mds_latest_epoch_def zero_mds_def)
  moreover have "mds_page_file_path (w_wal ?w) 0 = ?f" "mds_buffer_path (w_wal ?w) 0 = ?p" "w_os ?w = w_os w"
    "wal_config (w_wal ?w) = wal_config (w_wal w)" "wal_nv_control_block (w_wal ?w) = wal_nv_control_block (w_wal w)"
    by (simp_all add: mds_page_file_path_def mds_buffer_path_def)
  ultimately obtain w1 fd where w1: "mds_io_init kNvwalInitCreateIfNotExists ?w = Ok False w1"
      "mds_latest_epoch w1 = 0" "io_opened w1 fd" "fd < os_next_fd (w_os w1)"
      "wal_config (w_wal w1) = wal_config (w_wal w)"
      "wal_nv_control_block (w_wal w1) = wal_nv_control_block (w_wal w)"
      "os_cblock (w_os w1) = os_cblock (w_os w)" "os_cblock_durable (w_os w1) = os_cblock_durable (w_os w)"
      "os_files (w_os w1) = (os_files (w_os w))(?f \<mapsto> [])" "os_durable (w_os w1) ?f = Some []"
      "os_durable (w_os w1) ?p = None"
      "dom (os_dirs (w_os w1)) = dom (os_dirs (w_os w))" "os_resp (w_os w1) = []" "0 < os_next_fd (w_os w1)"
      "init_frame ?w w1"
    using io_init_create [OF fresh_reset [OF fresh]] by metis
  have paths: "?f = mds_page_file_path (w_wal w1) 0" "?p = mds_buffer_path (w_wal w1) 0"
    using w1(5) by (simp_all add: mds_page_file_path_def mds_buffer_path_def)
  have fr: "?p \<noteq> ?f" "os_files (w_os w) ?p = None" "os_dirs (w_os w) ?f = None" "os_dirs (w_os w) ?p = None"
    "path_dirname ?p = c_string (cf_nv_root (wal_config (w_wal w)))"
    "path_dirname ?p \<in> dom (os_dirs (w_os w))" "mds_page_ok (w_wal w)"
    using fresh by (auto simp: mds_fresh_def Let_def)
  then have dirs: "os_dirs (w_os w1) ?f = None" "os_dirs (w_os w1) ?p = None"
    "path_dirname ?p \<in> dom (os_dirs (w_os w1))" using w1(12) by (metis domIff)+
  then obtain es where es: "os_dirs (w_os w1) (path_dirname ?p) = Some es" by blast
  obtain cb where cb: "wal_nv_control_block (w_wal w) = Some cb" "cblock_holds (w_os w) cb 0 0"
    using fresh by (auto simp: mds_fresh_def split: option.splits)
  have "cblock_holds (w_os w1) cb 0 0" using cb w1(7,8) by (simp add: cblock_holds_def)
  moreover have "os_files (w_os w1) ?p = None" "os_files (w_os w1) ?f = Some []"
    "path_dirname ?p = c_string (cf_nv_root (wal_config (w_wal w1)))"
    "wal_nv_control_block (w_wal w1) = Some cb" "mds_page_ok (w_wal w1)"
    using w1 fr cb page_config(2) [OF w1(5)] by auto
  ultimately obtain w2 where w2: "mds_bufmgr_init pm kNvwalInitCreateIfNotExists w1 = Ok False w2" "mds_opened w2 []"
      "init_frame w1 w2" "os_files (w_os w2) = (os_files (w_os w1))(?p \<mapsto> replicate (unat (cf_mds_page_size (wal_config (w_wal w1)))) 0)"
      "mds_io (wal_mds (w_wal w2)) = mds_io (wal_mds (w_wal w1))"
    using bufmgr_init_create [OF paths(2) _ dirs(2) w1(11) _ es paths(1) _ w1(10) dirs(1) fr(1) w1(13,14,3,4)]
      w1(2) by blast
  have "mds_sanity_check_config w = Ok () w"
    using fr(7) by (auto simp: mds_sanity_check_config_def mds_page_ok_def)
  then have "mds_init pm kNvwalInitCreateIfNotExists w = Ok () w2" using w1(1) w2(1) by (simp add: mds_init_def)
  moreover have "init_frame w w2" using init_frame_trans [OF w1(15) w2(3)] by (simp add: init_frame_def)
  moreover have "\<forall>pf \<in> set (io_files (mds_io (wal_mds (w_wal w2)))). pf_fd pf < os_next_fd (w_os w2)"
    using w1(3,4) w2(3,5) by (auto simp: io_opened_def init_frame_def)
  ultimately show ?thesis using w2(4) w1(5,9) opened_empty [OF w2(2) refl] by auto
qed

section \<open>Properties\<close>

text \<open>A store of 512-byte pages in two empty directories, and its first records.\<close>

definition world_sample_mds :: world where
  "world_sample_mds =
     \<lparr>w_os = empty_os\<lparr>os_dirs := [''/n'' \<mapsto> [], ''/d'' \<mapsto> []]\<rparr>,
      w_wal = zero_context\<lparr>wal_config := zero_config\<lparr>cf_nv_root := ''/n'', cf_disk_root := ''/d'', cf_mds_page_size := 512\<rparr>,
                           wal_nv_control_block := Some ''/n/nvwal.cb''\<rparr>\<rparr>"

definition epoch_sample :: "u64 \<Rightarrow> u64 \<Rightarrow> MdsEpochMetadata" where
  "epoch_sample e u = zero_epoch\<lparr>em_epoch_id := e, em_from_seg_id := 1, em_to_seg_id := 1, em_to_off := 7,
     em_user_metadata_0 := u\<rparr>"

lemma fresh_sample: "mds_fresh world_sample_mds"
proof -
  have "mds_page_file_path (w_wal world_sample_mds) 0 = ''/d/mds-pagefile-00000000''"
    "mds_buffer_path (w_wal world_sample_mds) 0 = ''/n/mds-nvram-buf-00000000''"
    by code_simp+
  moreover have "path_dirname ''/d/mds-pagefile-00000000'' = ''/d''" "path_dirname ''/n/mds-nvram-buf-00000000'' = ''/n''"
    by code_simp+
  ultimately show ?thesis
    by (simp add: mds_fresh_def world_sample_mds_def empty_os_def mds_page_ok_def c_string_def
        cblock_holds_def zero_control_block_def)
qed

lemma create_sample:
  obtains w where "mds_init pmem_exact kNvwalInitCreateIfNotExists world_sample_mds = Ok () w" "mds_repr w []"
  using init_create [OF fresh_sample] by blast

text \<open>
  C23. Creating the metadata store in directories without its files and with a control block that
  says that no epoch is durable succeeds and gives a store that holds the empty history.
\<close>

theorem mds_init_creates_empty:
  assumes "mds_fresh w"
  shows "\<exists>w'. mds_init pm kNvwalInitCreateIfNotExists w = Ok () w' \<and> mds_repr w' [] \<and>
           mds_latest_epoch w' = kNvwalInvalidEpoch"
  using init_create [OF assms] mds.latest_length by fastforce

theorem mds_init_creates_empty_witness:
  "\<exists>w'. mds_init pmem_exact kNvwalInitCreateIfNotExists world_sample_mds = Ok () w' \<and> mds_repr w' [] \<and>
     mds_latest_epoch w' = kNvwalInvalidEpoch"
  by (rule mds_init_creates_empty [OF fresh_sample])

text \<open>
  C10. Writing the record of the next epoch succeeds and appends it to the history the store holds:
  afterwards every earlier record is read back unchanged and the latest record is the one written,
  whether it went into the page in the buffer or opened a new page, the full one being appended to
  the page file.
\<close>

theorem mds_write_epoch_refines_append:
  assumes "mds_repr w h" "pmem_persist_spec pm"
    and "em_epoch_id em = of_nat (Suc (length h))" "Suc (length h) < 2 ^ 56"
  shows "\<exists>w'. mds_write_epoch pm em w = Ok () w' \<and> mds_repr w' (h @ [em]) \<and>
           (\<forall>i < length h. mds_read_one_epoch (of_nat (Suc i)) w' = Ok (h ! i) w') \<and>
           mds_read_latest_epoch w' = Ok em w'"
proof -
  obtain w' where w: "mds_write_epoch pm em w = Ok () w'" "mds_repr w' (h @ [em])"
    using write_epoch_appends [OF assms] by blast
  have "mds_read_one_epoch (of_nat (Suc i)) w' = Ok (h ! i) w'" if "i < length h" for i
    using mds.read_nth [OF w(2), of i] that by (simp add: nth_append del: of_nat_Suc)
  moreover have "mds_read_latest_epoch w' = Ok em w'"
    using mds.read_nth [OF w(2), of "length h"] mds.latest_length [OF w(2)]
    by (simp add: mds_read_latest_epoch_def)
  ultimately show ?thesis using w by blast
qed

theorem mds_write_epoch_refines_append_witness:
  "\<exists>w w'. mds_init pmem_exact kNvwalInitCreateIfNotExists world_sample_mds = Ok () w \<and>
     mds_write_epoch pmem_exact (epoch_sample 1 3) w = Ok () w' \<and>
     mds_read_latest_epoch w' = Ok (epoch_sample 1 3) w'"
proof -
  obtain w where w: "mds_init pmem_exact kNvwalInitCreateIfNotExists world_sample_mds = Ok () w" "mds_repr w []"
    by (rule create_sample)
  then show ?thesis
    using mds_write_epoch_refines_append [OF w(2) pmem_exact_spec, of "epoch_sample 1 3"]
    by (auto simp: epoch_sample_def)
qed

text \<open>
  C9. A crash loses nothing the store holds: when memory is replaced by what was durable and all
  file descriptors are gone, a restart with the same configuration and control block succeeds and
  gives a store that holds the same history, so that every record can be read again.
\<close>

theorem mds_crash_restart:
  assumes "mds_repr w h" "w_os w' = crash_os (w_os w)" "wal_config (w_wal w') = wal_config (w_wal w)"
    and "wal_nv_control_block (w_wal w') = wal_nv_control_block (w_wal w)"
  shows "\<exists>w''. mds_init pm kNvwalInitRestart w' = Ok () w'' \<and> mds_repr w'' h \<and>
           (\<forall>i < length h. mds_read_one_epoch (of_nat (Suc i)) w'' = Ok (h ! i) w'')"
proof -
  have "mds_stored (w_wal w') (w_os w') h" using crash_stored [OF assms(1,3,4)] assms(2) by simp
  then obtain w'' where w: "mds_init pm kNvwalInitRestart w' = Ok () w''" "mds_repr w'' h"
    using init_restart by blast
  then show ?thesis using mds.read_nth [OF w(2)] by blast
qed

theorem mds_crash_restart_witness:
  "\<exists>w w1 w2. mds_init pmem_exact kNvwalInitCreateIfNotExists world_sample_mds = Ok () w \<and>
     mds_write_epoch pmem_exact (epoch_sample 1 3) w = Ok () w1 \<and>
     mds_init pmem_exact kNvwalInitRestart (w1\<lparr>w_os := crash_os (w_os w1)\<rparr>) = Ok () w2 \<and>
     mds_read_one_epoch 1 w2 = Ok (epoch_sample 1 3) w2"
proof -
  obtain w where w: "mds_init pmem_exact kNvwalInitCreateIfNotExists world_sample_mds = Ok () w" "mds_repr w []"
    by (rule create_sample)
  obtain w1 where w1: "mds_write_epoch pmem_exact (epoch_sample 1 3) w = Ok () w1" "mds_repr w1 [epoch_sample 1 3]"
    using write_epoch_appends [OF w(2) pmem_exact_spec, of "epoch_sample 1 3"] by (auto simp: epoch_sample_def)
  show ?thesis
    using w(1) w1(1) mds_crash_restart [OF w1(2), of "w1\<lparr>w_os := crash_os (w_os w1)\<rparr>" pmem_exact] by auto
qed

text \<open>
  C16. The query for the first epoch whose user metadata satisfies a predicate that stays true once
  it is true returns the epoch of the first such record of the history, and the invalid epoch when
  there is none. The binary search ends, reads only epochs that exist and changes nothing.
\<close>

theorem query_lower_bound_finds_first:
  assumes "mds_repr w h" "monotone_pred uid pr h"
  shows "nvwal_query_epoch_lower_bound uid pr w
           = Ok (case find (user_pred uid pr) h of Some em \<Rightarrow> em_epoch_id em | None \<Rightarrow> kNvwalInvalidEpoch) w"
  using mds.lower_bound_search [OF assms]
  by (simp add: nvwal_query_epoch_lower_bound_def mds_find_metadata_lower_bound_def found_or_eperm_def Let_def
      split: option.splits)

theorem query_lower_bound_finds_first_witness:
  "\<exists>w w1. mds_init pmem_exact kNvwalInitCreateIfNotExists world_sample_mds = Ok () w \<and>
     mds_write_epoch pmem_exact (epoch_sample 1 3) w = Ok () w1 \<and>
     nvwal_query_epoch_lower_bound 0 (\<lambda>m. 2 \<le> m) w1 = Ok 1 w1"
proof -
  obtain w where w: "mds_init pmem_exact kNvwalInitCreateIfNotExists world_sample_mds = Ok () w" "mds_repr w []"
    by (rule create_sample)
  obtain w1 where w1: "mds_write_epoch pmem_exact (epoch_sample 1 3) w = Ok () w1" "mds_repr w1 [epoch_sample 1 3]"
    using write_epoch_appends [OF w(2) pmem_exact_spec, of "epoch_sample 1 3"] by (auto simp: epoch_sample_def)
  have "monotone_pred 0 (\<lambda>m. 2 \<le> m) [epoch_sample 1 3]" by (simp add: monotone_pred_def)
  from query_lower_bound_finds_first [OF w1(2) this] show ?thesis
    using w(1) w1(1) by (auto simp: user_pred_def user_metadata_def epoch_sample_def zero_epoch_def)
qed

text \<open>
  C17. The query for the last epoch whose user metadata satisfies a predicate that stays false once
  it is false returns the epoch of the last such record of the history, and the invalid epoch when
  there is none.
\<close>

theorem query_upper_bound_finds_last:
  assumes "mds_repr w h" "antitone_pred uid pr h"
  shows "nvwal_query_epoch_upper_bound uid pr w
           = Ok (case find (user_pred uid pr) (rev h) of Some em \<Rightarrow> em_epoch_id em | None \<Rightarrow> kNvwalInvalidEpoch) w"
  using mds.upper_bound_search [OF assms]
  by (simp add: nvwal_query_epoch_upper_bound_def mds_find_metadata_upper_bound_def found_or_eperm_def Let_def
      split: option.splits)

theorem query_upper_bound_finds_last_witness:
  "\<exists>w w1. mds_init pmem_exact kNvwalInitCreateIfNotExists world_sample_mds = Ok () w \<and>
     mds_write_epoch pmem_exact (epoch_sample 1 3) w = Ok () w1 \<and>
     nvwal_query_epoch_upper_bound 0 (\<lambda>m. m \<le> 4) w1 = Ok 1 w1"
proof -
  obtain w where w: "mds_init pmem_exact kNvwalInitCreateIfNotExists world_sample_mds = Ok () w" "mds_repr w []"
    by (rule create_sample)
  obtain w1 where w1: "mds_write_epoch pmem_exact (epoch_sample 1 3) w = Ok () w1" "mds_repr w1 [epoch_sample 1 3]"
    using write_epoch_appends [OF w(2) pmem_exact_spec, of "epoch_sample 1 3"] by (auto simp: epoch_sample_def)
  have "antitone_pred 0 (\<lambda>m. m \<le> 4) [epoch_sample 1 3]" by (simp add: antitone_pred_def)
  from query_upper_bound_finds_last [OF w1(2) this] show ?thesis
    using w(1) w1(1) by (auto simp: user_pred_def user_metadata_def epoch_sample_def zero_epoch_def)
qed

section \<open>Iteration\<close>

text \<open>A client that runs an iterator to its end and collects the records it points at.\<close>

fun collect_epochs :: "nat \<Rightarrow> MdsEpochIterator \<Rightarrow> world \<Rightarrow> (MdsEpochMetadata list, world) outcome" where
  "collect_epochs 0 it w = Spin w"
| "collect_epochs (Suc fuel) it w =
     (if mds_epoch_iterator_done it then Ok [] w
      else and_then (mds_epoch_iterator_next it w) (\<lambda>it' w.
             and_then (collect_epochs fuel it' w) (\<lambda>ems w. Ok (it_entry it # ems) w)))"

lemma collect_epochs_range:
  assumes "mds_repr w h" "iter_at h i (Suc n) it" "it_entry it = h ! i" "i < n" "n \<le> length h" "n - i < fuel"
  shows "collect_epochs fuel it w = Ok (take (n - i) (drop i h)) w"
  using assms(2-)
proof (induction fuel arbitrary: i it)
  case (Suc fuel)
  have n: "length h < 2 ^ 56" using mds.repr_history [OF assms(1)] by (simp add: history_ok_def)
  have cur: "it_cur_epoch_id it = of_nat (Suc i)" "it_end_epoch_id it = of_nat (Suc n)" "iter_ok h it"
    using Suc.prems(1) by (auto simp: iter_at_def)
  have nd: "\<not> mds_epoch_iterator_done it"
    using Suc.prems n cur by (simp add: mds_epoch_iterator_done_def u64_le_of_nat del: of_nat_Suc)
  let ?it = "it\<lparr>it_cur_epoch_id := of_nat (Suc (Suc i))\<rparr>"
  have nx: "mds_epoch_iterator_next it w
      = (if Suc i < n then mds_epoch_iterator_prefetch ?it w else Ok ?it w)"
    using Suc.prems n cur u64_le_of_nat [of "Suc n" "Suc (Suc i)"]
    by (simp add: mds_epoch_iterator_next_def Let_def not_le [symmetric])
  have split: "take (n - i) (drop i h) = h ! i # take (n - Suc i) (drop (Suc i) h)"
    using Suc.prems by (simp add: Cons_nth_drop_Suc [symmetric] Suc_diff_Suc [symmetric])
  show ?case
  proof (cases "Suc i < n")
    case True
    have "iter_at h (Suc i) (Suc n) ?it"
      using Suc.prems True cur n by (auto simp: iter_at_def iter_ok_def)
    from prefetch_reads [OF assms(1) this] obtain it' where
      it': "mds_epoch_iterator_prefetch ?it w = Ok it' w" "iter_at h (Suc i) (Suc n) it'" "it_entry it' = h ! Suc i"
      by blast
    with Suc.IH [of "Suc i" it'] Suc.prems True have "collect_epochs fuel it' w = Ok (take (n - Suc i) (drop (Suc i) h)) w"
      by simp
    with nd nx it' True split Suc.prems(2) show ?thesis by simp
  next
    case False
    then have "n = Suc i" using Suc.prems by simp
    moreover obtain g where "fuel = Suc g" using Suc.prems \<open>n = Suc i\<close> by (cases fuel) auto
    moreover have "mds_epoch_iterator_done ?it"
      using cur \<open>n = Suc i\<close> by (simp add: mds_epoch_iterator_done_def)
    ultimately show ?thesis using nd nx False split Suc.prems(2) by simp
  qed
qed simp

text \<open>
  C11. An iterator over the epochs from \<open>b\<close> up to, not including, \<open>e\<close>, with \<open>1 \<le> b < e\<close> and \<open>e\<close> at most
  the epoch after the latest, visits exactly the records of those epochs, in order and each once,
  across pages of the page file and the page in the buffer.
\<close>

theorem epoch_iterator_visits_range:
  assumes "mds_repr w h" "1 \<le> b" "b < e" "e \<le> Suc (length h)"
  shows "and_then (mds_epoch_iterator_init (of_nat b) (of_nat e) w) (collect_epochs (Suc (e - b)))
           = Ok (take (e - b) (drop (b - 1) h)) w"
proof -
  have n: "length h < 2 ^ 56" using mds.repr_history [OF assms(1)] by (simp add: history_ok_def)
  have "b - 1 < length h" using assms by simp
  then obtain it where it: "mds_epoch_iterator_init (of_nat b) (of_nat e) w = Ok it w" "iter_at h (b - 1) e it"
      "it_entry it = h ! (b - 1)"
    using iterator_init_at [OF assms(1), of "b - 1" e] assms n by auto
  then show ?thesis
    using collect_epochs_range [OF assms(1), of "b - 1" "e - 1" it "Suc (e - b)"] assms by simp
qed

theorem epoch_iterator_visits_range_witness:
  "\<exists>w w1. mds_init pmem_exact kNvwalInitCreateIfNotExists world_sample_mds = Ok () w \<and>
     mds_write_epoch pmem_exact (epoch_sample 1 3) w = Ok () w1 \<and>
     and_then (mds_epoch_iterator_init 1 2 w1) (collect_epochs 2) = Ok [epoch_sample 1 3] w1"
proof -
  obtain w where w: "mds_init pmem_exact kNvwalInitCreateIfNotExists world_sample_mds = Ok () w" "mds_repr w []"
    by (rule create_sample)
  obtain w1 where w1: "mds_write_epoch pmem_exact (epoch_sample 1 3) w = Ok () w1" "mds_repr w1 [epoch_sample 1 3]"
    using write_epoch_appends [OF w(2) pmem_exact_spec, of "epoch_sample 1 3"] by (auto simp: epoch_sample_def)
  show ?thesis
    using w(1) w1(1) epoch_iterator_visits_range [OF w1(2), of 1 2] by (auto simp: numeral_2_eq_2)
qed

end
