(* ===== verification/Durable.thy ===== *)
theory Durable
  imports Flusher_Correct Mds_Recover
begin

text \<open>
  What is durable: the segments up to the last synced one in their files on disk, the later ones byte
  by byte in NVDIMM. Concluding an epoch makes everything in the log durable before the record of the
  epoch is written to the metadata store.
\<close>

section \<open>Durable bytes of the log\<close>

definition seg_backed :: "world \<Rightarrow> bool" where
  "seg_backed w \<longleftrightarrow> (\<forall>i < seg_count w.
     case sg_nv_baseaddr (wal_segments (w_wal w) ! i) of None \<Rightarrow> False
     | Some p \<Rightarrow> (case os_durable (w_os w) p of None \<Rightarrow> False | Some c \<Rightarrow> length c = seg_size w))"

lemma seg_backedE:
  assumes "seg_backed w" "i < seg_count w"
  obtains p c where "sg_nv_baseaddr (wal_segments (w_wal w) ! i) = Some p" "os_durable (w_os w) p = Some c" "length c = seg_size w"
proof -
  from assms have "case sg_nv_baseaddr (wal_segments (w_wal w) ! i) of None \<Rightarrow> False
     | Some p \<Rightarrow> (case os_durable (w_os w) p of None \<Rightarrow> False | Some c \<Rightarrow> length c = seg_size w)" by (simp add: seg_backed_def)
  then show thesis using that by (auto split: option.splits)
qed

definition nv_durable :: "world \<Rightarrow> byte list \<Rightarrow> nat \<Rightarrow> bool" where
  "nv_durable w s x \<longleftrightarrow>
     (case sg_nv_baseaddr (wal_segments (w_wal w) ! (x div seg_size w mod seg_count w)) of None \<Rightarrow> False
      | Some p \<Rightarrow> (case os_durable (w_os w) p of None \<Rightarrow> False
                   | Some c \<Rightarrow> x mod seg_size w < length c \<and> c ! (x mod seg_size w) = s ! x))"

definition durable_upto :: "world \<Rightarrow> byte list \<Rightarrow> nat \<Rightarrow> bool" where
  "durable_upto w s n \<longleftrightarrow> (\<forall>x < n. x div seg_size w < last_synced w \<or> nv_durable w s x)"

text \<open>A segment that is not synced yet is where its number says, with the bytes of its number.\<close>

lemma window_segment:
  assumes r: "log_safe view w s" and d: "last_synced w < d" "d \<le> cur_dsid w"
  shows "(d - 1) mod seg_count w < seg_count w"
    "unat (sg_dsid (wal_segments (w_wal w) ! ((d - 1) mod seg_count w))) = d"
proof -
  note l = log_safeD(1) [OF r]
  let ?i = "(d - 1) mod seg_count w"
  show i: "?i < seg_count w" using l by (simp add: log_repr_def)
  let ?e = "unat (sg_dsid (wal_segments (w_wal w) ! ?i))"
  have e: "0 < ?e" "(?e - 1) mod seg_count w = ?i" "cur_dsid w < ?e + seg_count w"
    using seg_okD [OF l i] by (simp_all add: seg_ok_def Let_def)
  have "?e \<le> last_synced w + seg_count w" using r i by (simp add: log_safe_def)
  then have "?e - 1 < d - 1 + seg_count w" "d - 1 < ?e - 1 + seg_count w" using e d by linarith+
  then have "?e - 1 = d - 1" using mod_close_eq e(2) by blast
  then show "?e = d" using e(1) d(1) by linarith
qed

text \<open>The index of a segment as the code computes it.\<close>

lemma segment_index:
  assumes "0 < d" "d < 2 ^ 64" "0 < seg_count w"
  shows "unat (ucast ((of_nat d - 1 :: u64) mod ucast (wal_segment_count (w_wal w))) :: u32) = (d - 1) mod seg_count w"
proof -
  have "(of_nat d - 1 :: u64) = of_nat (d - 1)" using assms(1) by simp
  then have m: "unat ((of_nat d - 1 :: u64) mod ucast (wal_segment_count (w_wal w))) = (d - 1) mod seg_count w"
    using assms(2) by (simp add: unat_mod seg_count_def unat_of_nat_small)
  have "(d - 1) mod seg_count w < 2 ^ 32"
    using less_trans [OF mod_less_divisor [OF assms(3)] unat_u32_less [of "wal_segment_count (w_wal w)", folded seg_count_def]] by simp
  with m show ?thesis by (simp add: unat_ucast_down)
qed

definition seg_fill :: "world \<Rightarrow> nat \<Rightarrow> nat" where
  "seg_fill w d = (if d = cur_dsid w then cur_written w else seg_size w)"

lemma segment_content:
  assumes r: "log_safe view w s" and d: "last_synced w < d" "d \<le> cur_dsid w"
  obtains p where "sg_nv_baseaddr (wal_segments (w_wal w) ! ((d - 1) mod seg_count w)) = Some p"
    "length (mapped p (w_os w)) = seg_size w" "seg_fill w d \<le> seg_size w" "(d - 1) * seg_size w + seg_fill w d \<le> length s"
    "\<And>k. k < seg_fill w d \<Longrightarrow> mapped p (w_os w) ! k = s ! ((d - 1) * seg_size w + k)"
proof -
  note l = log_safeD(1) [OF r]
  note i = window_segment [OF r d]
  let ?g = "wal_segments (w_wal w) ! ((d - 1) mod seg_count w)" and ?S = "seg_size w"
  have ok: "seg_ok ?S (seg_count w) (cur_dsid w) (w_os w) s ((d - 1) mod seg_count w) ?g" by (rule seg_okD [OF l i(1)])
  obtain p where p: "sg_nv_baseaddr ?g = Some p" using ok by (auto simp: seg_ok_def Let_def split: option.splits)
  have fill: "unat (sg_written_bytes ?g) = seg_fill w d"
    using ok i(2) d(2) by (auto simp: seg_ok_def Let_def seg_fill_def cur_written_def cur_index_def)
  have m: "length (mapped p (w_os w)) = ?S" "seg_fill w d \<le> ?S"
    "take (seg_fill w d) (mapped p (w_os w)) = take (seg_fill w d) (drop ((d - 1) * ?S) s)"
    using ok p i(2) fill by (simp_all add: seg_ok_def Let_def)
  have len: "(d - 1) * ?S + seg_fill w d \<le> length s"
  proof -
    have "0 < ?S" using l by (simp add: log_repr_def)
    moreover have "min (length s - (d - 1) * ?S) (seg_fill w d) = seg_fill w d"
      using arg_cong [OF m(3), of length] m(1,2) by simp
    moreover have "d \<noteq> cur_dsid w \<Longrightarrow> seg_fill w d = ?S" by (simp add: seg_fill_def)
    moreover have "d = cur_dsid w \<Longrightarrow> (d - 1) * ?S + seg_fill w d = length s" using log_length [OF l] by (simp add: seg_fill_def)
    ultimately show ?thesis by linarith
  qed
  have "mapped p (w_os w) ! k = s ! ((d - 1) * ?S + k)" if "k < seg_fill w d" for k
  proof -
    have "take (seg_fill w d) (mapped p (w_os w)) ! k = take (seg_fill w d) (drop ((d - 1) * ?S) s) ! k" using m(3) by simp
    with that len show ?thesis by simp
  qed
  with that p m(1,2) len show thesis by blast
qed

section \<open>Persisting a segment\<close>

definition persisted :: "pmem \<Rightarrow> addr \<Rightarrow> nat \<Rightarrow> nat \<Rightarrow> world \<Rightarrow> world" where
  "persisted pm p f t w = w\<lparr>w_os := persist_mapped pm p f (t - f) (w_os w)\<rparr>"

lemma persist_mapped_frame [world_simps]:
  "os_files (persist_mapped pm p f n s) = os_files s" "os_dirs (persist_mapped pm p f n s) = os_dirs s"
  "os_cblock (persist_mapped pm p f n s) = os_cblock s" "os_cblock_durable (persist_mapped pm p f n s) = os_cblock_durable s"
  "os_fds (persist_mapped pm p f n s) = os_fds s" "os_resp (persist_mapped pm p f n s) = os_resp s"
  "q \<noteq> p \<Longrightarrow> os_durable (persist_mapped pm p f n s) q = os_durable s q" "mapped q (persist_mapped pm p f n s) = mapped q s"
  by (simp_all add: persist_mapped_def mapped_def split: option.splits)

lemma persisted_frame [world_simps]:
  "w_wal (persisted pm p f t w) = w_wal w" "seg_size (persisted pm p f t w) = seg_size w"
  "seg_count (persisted pm p f t w) = seg_count w" "last_synced (persisted pm p f t w) = last_synced w"
  "cur_dsid (persisted pm p f t w) = cur_dsid w"
  by (simp_all add: persisted_def seg_size_def seg_count_def last_synced_def cur_dsid_def world_simps cong: option.case_cong)

lemma base_index:
  assumes "log_repr w s" "i < seg_count w" "j < seg_count w"
    "sg_nv_baseaddr (wal_segments (w_wal w) ! i) = sg_nv_baseaddr (wal_segments (w_wal w) ! j)"
  shows "i = j"
  using assms by (simp add: log_repr_def)

text \<open>The durable bytes before the range stay, and those of the range are added.\<close>

lemma persist_extends:
  assumes r: "log_safe view w s" and b: "seg_backed w" and pm: "pmem_persist_spec pm"
    and d: "last_synced w < d" "d \<le> cur_dsid w" and t: "f \<le> t" "t \<le> seg_fill w d"
    and p: "sg_nv_baseaddr (wal_segments (w_wal w) ! ((d - 1) mod seg_count w)) = Some p"
    and du: "durable_upto w s ((d - 1) * seg_size w + f)"
  shows "durable_upto (persisted pm p f t w) s ((d - 1) * seg_size w + t)" "seg_backed (persisted pm p f t w)"
proof -
  note l = log_safeD(1) [OF r]
  let ?S = "seg_size w" and ?N = "seg_count w" and ?i = "(d - 1) mod seg_count w"
  have S: "0 < ?S" and N: "0 < ?N" using l by (simp_all add: log_repr_def)
  note i = window_segment(1) [OF r d]
  obtain c where c: "os_durable (w_os w) p = Some c" "length c = ?S"
    using seg_backedE [OF b i] p by (metis option.inject)
  obtain p' where c': "sg_nv_baseaddr (wal_segments (w_wal w) ! ?i) = Some p'" "length (mapped p' (w_os w)) = ?S"
    "seg_fill w d \<le> ?S" "(d - 1) * ?S + seg_fill w d \<le> length s"
    "\<And>k. k < seg_fill w d \<Longrightarrow> mapped p' (w_os w) ! k = s ! ((d - 1) * ?S + k)" using segment_content [OF r d] by blast
  have m: "length (mapped p (w_os w)) = ?S" "seg_fill w d \<le> ?S"
    "\<And>k. k < seg_fill w d \<Longrightarrow> mapped p (w_os w) ! k = s ! ((d - 1) * ?S + k)" using c' p by auto
  let ?c = "pm (mapped p (w_os w)) c f (t - f)"
  have new: "os_durable (w_os (persisted pm p f t w)) p = Some ?c"
    using c by (simp add: persisted_def persist_mapped_def)
  have pmc: "length ?c = ?S" "\<And>k. k < ?S \<Longrightarrow> ?c ! k = mapped p (w_os w) ! k \<or> ?c ! k = c ! k"
    "\<And>k. f \<le> k \<Longrightarrow> k < t \<Longrightarrow> ?c ! k = mapped p (w_os w) ! k"
    using pm [unfolded pmem_persist_spec_def, rule_format, of c "mapped p (w_os w)" f "t - f"] c(2) m(1,2) t by auto
  show "seg_backed (persisted pm p f t w)"
    unfolding seg_backed_def world_simps
  proof (intro allI impI)
    fix j
    assume "j < ?N"
    then obtain q e where "sg_nv_baseaddr (wal_segments (w_wal w) ! j) = Some q" "os_durable (w_os w) q = Some e" "length e = ?S"
      by (rule seg_backedE [OF b])
    then show "case sg_nv_baseaddr (wal_segments (w_wal w) ! j) of None \<Rightarrow> False
        | Some q \<Rightarrow> (case os_durable (w_os (persisted pm p f t w)) q of None \<Rightarrow> False | Some c \<Rightarrow> length c = ?S)"
      using new pmc(1) by (cases "q = p") (simp_all add: persisted_def world_simps)
  qed
  show "durable_upto (persisted pm p f t w) s ((d - 1) * ?S + t)"
    unfolding durable_upto_def world_simps
  proof (intro allI impI)
    fix x
    assume x: "x < (d - 1) * ?S + t"
    show "x div ?S < last_synced w \<or> nv_durable (persisted pm p f t w) s x"
    proof (cases "x div ?S < last_synced w")
      case False
      have "x < d * ?S" using x t(2) m(2) d(1) by (cases d) auto
      then have lt: "x div ?S < d" using S by (simp add: div_less_iff_less_mult)
      show ?thesis
      proof (cases "Suc (x div ?S) = d")
        case True
        let ?k = "x mod ?S"
        have xk: "x = (d - 1) * ?S + ?k" using True by (metis div_mult_mod_eq diff_Suc_1)
        then have k: "?k < t" using x by linarith
        have v: "mapped p (w_os w) ! ?k = s ! x" using m(3) [of ?k] k t(2) xk by simp
        have "?c ! ?k = s ! x"
        proof (cases "f \<le> ?k")
          case True
          then show ?thesis using pmc(3) [OF _ k] v by simp
        next
          case f: False
          then have "nv_durable w s x" using du False xk unfolding durable_upto_def by (metis add_less_cancel_left not_le)
          then have "c ! ?k = s ! x" using c(1) p True by (auto simp: nv_durable_def)
          then show ?thesis using pmc(2) [of ?k] v S by auto
        qed
        then show ?thesis using new p True pmc(1) S by (auto simp: nv_durable_def world_simps)
      next
        case ne: False
        let ?e = "Suc (x div ?S)"
        have e: "last_synced w < ?e" "?e \<le> cur_dsid w" "?e < d" using False lt ne d(2) by linarith+
        have "x < (d - 1) * ?S" using e(3) S by (metis Suc_less_eq2 diff_Suc_1 div_less_iff_less_mult)
        then have nd: "nv_durable w s x" using du False unfolding durable_upto_def by (meson trans_less_add1)
        then obtain q where q: "sg_nv_baseaddr (wal_segments (w_wal w) ! (x div ?S mod ?N)) = Some q"
          by (auto simp: nv_durable_def split: option.splits)
        have "x div ?S mod ?N \<noteq> ?i" using window_segment(2) [OF r e(1,2)] window_segment(2) [OF r d] ne by (metis diff_Suc_1)
        then have "q \<noteq> p" using base_index [OF l _ i] N q p by (metis mod_less_divisor)
        then have "os_durable (w_os (persisted pm p f t w)) q = os_durable (w_os w) q" by (simp add: persisted_def world_simps)
        then show ?thesis using nd q by (simp add: nv_durable_def world_simps cong: option.case_cong)
      qed
    qed simp
  qed
qed

section \<open>Persisting an epoch\<close>

text \<open>Persisting changes nothing but what is durable of the segments.\<close>

definition persist_frame :: "world \<Rightarrow> world \<Rightarrow> bool" where
  "persist_frame w w' \<longleftrightarrow> w_wal w' = w_wal w \<and>
     (w_os w')\<lparr>os_durable := Map.empty\<rparr> = (w_os w)\<lparr>os_durable := Map.empty\<rparr> \<and>
     (\<forall>q. q \<notin> seg_bases w \<longrightarrow> os_durable (w_os w') q = os_durable (w_os w) q)"

lemma persist_frame_os:
  assumes "persist_frame w w'"
  shows "os_files (w_os w') = os_files (w_os w)" "os_dirs (w_os w') = os_dirs (w_os w)"
    "os_cblock (w_os w') = os_cblock (w_os w)" "os_cblock_durable (w_os w') = os_cblock_durable (w_os w)"
    "os_fds (w_os w') = os_fds (w_os w)" "os_resp (w_os w') = os_resp (w_os w)" "w_wal w' = w_wal w"
proof -
  have e: "(w_os w')\<lparr>os_durable := Map.empty\<rparr> = (w_os w)\<lparr>os_durable := Map.empty\<rparr>" and wal: "w_wal w' = w_wal w"
    using assms by (simp_all add: persist_frame_def)
  show "w_wal w' = w_wal w" by (rule wal)
  show "os_files (w_os w') = os_files (w_os w)" using arg_cong [OF e, of os_files] by simp
  show "os_dirs (w_os w') = os_dirs (w_os w)" using arg_cong [OF e, of os_dirs] by simp
  show "os_cblock (w_os w') = os_cblock (w_os w)" using arg_cong [OF e, of os_cblock] by simp
  show "os_cblock_durable (w_os w') = os_cblock_durable (w_os w)" using arg_cong [OF e, of os_cblock_durable] by simp
  show "os_fds (w_os w') = os_fds (w_os w)" using arg_cong [OF e, of os_fds] by simp
  show "os_resp (w_os w') = os_resp (w_os w)" using arg_cong [OF e, of os_resp] by simp
qed

lemma persist_frame_trans:
  assumes "persist_frame u v" "persist_frame v w"
  shows "persist_frame u w"
proof -
  have "seg_bases v = seg_bases u" using persist_frame_os(7) [OF assms(1)] by (simp add: seg_bases_def seg_count_def)
  with assms show ?thesis by (simp add: persist_frame_def)
qed

lemma persist_frame_persisted: "p \<in> seg_bases w \<Longrightarrow> persist_frame w (persisted pm p f t w)"
  by (auto simp: persist_frame_def persisted_def persist_mapped_def split: option.splits)

section \<open>Transfer of the log\<close>

text \<open>The representation of the log reads the segments, their memory, and the segment files.\<close>

definition same_log :: "world \<Rightarrow> world \<Rightarrow> bool" where
  "same_log w w' \<longleftrightarrow>
     wal_config (w_wal w') = wal_config (w_wal w) \<and> wal_segments (w_wal w') = wal_segments (w_wal w) \<and>
     wal_segment_count (w_wal w') = wal_segment_count (w_wal w) \<and>
     wal_flusher_current_nv_segment_dsid (w_wal w') = wal_flusher_current_nv_segment_dsid (w_wal w) \<and>
     (\<forall>p \<in> seg_bases w. os_files (w_os w') p = os_files (w_os w) p)"

lemma same_log_fields:
  assumes "same_log w w'"
  shows "seg_size w' = seg_size w" "seg_count w' = seg_count w" "cur_dsid w' = cur_dsid w" "seg_bases w' = seg_bases w"
    "cur_written w' = cur_written w" "wal_segments (w_wal w') = wal_segments (w_wal w)" "disk_names_ok w' = disk_names_ok w"
    "\<And>d. nvwal_construct_disk_segment_path (w_wal w') d = nvwal_construct_disk_segment_path (w_wal w) d"
proof -
  show f: "seg_size w' = seg_size w" "seg_count w' = seg_count w" "cur_dsid w' = cur_dsid w"
    "wal_segments (w_wal w') = wal_segments (w_wal w)"
    using assms by (simp_all add: same_log_def seg_size_def seg_count_def cur_dsid_def)
  then show b: "seg_bases w' = seg_bases w" "cur_written w' = cur_written w"
    by (simp_all add: seg_bases_def cur_written_def cur_index_def)
  have c: "wal_config (w_wal w') = wal_config (w_wal w)" using assms by (simp add: same_log_def)
  show "disk_names_ok w' = disk_names_ok w" by (rule disk_names_cong [OF c b(1)])
  show "nvwal_construct_disk_segment_path (w_wal w') d = nvwal_construct_disk_segment_path (w_wal w) d" for d
    by (rule disk_path_cong [OF c])
qed

lemma log_repr_transfer:
  assumes "same_log w w'" "log_repr w s"
  shows "log_repr w' s"
proof -
  note f = same_log_fields [OF assms(1)]
  have "seg_ok (seg_size w) (seg_count w) (cur_dsid w) (w_os w') s i (wal_segments (w_wal w) ! i)" if "i < seg_count w" for i
  proof -
    have "mapped p (w_os w') = mapped p (w_os w)" if "sg_nv_baseaddr (wal_segments (w_wal w) ! i) = Some p" for p
      using assms(1) that \<open>i < seg_count w\<close> by (auto simp: same_log_def seg_bases_def mapped_def)
    then show ?thesis using seg_okD [OF assms(2) that] by (auto simp: seg_ok_def Let_def split: option.splits)
  qed
  with assms(2) show ?thesis unfolding log_repr_def f by blast
qed

lemma log_safe_transfer:
  assumes same: "same_log w w'" and "last_synced w' = last_synced w" and r: "log_safe view w s"
    and v: "\<And>d p. nvwal_construct_disk_segment_path (w_wal w) d = Some p \<Longrightarrow> view (w_os w') p = view (w_os w) p"
  shows "log_safe view w' s"
proof -
  note f = same_log_fields [OF same]
  have "on_disk view w' s d = on_disk view w s d" for d
    by (auto simp: on_disk_def f v split: option.splits)
  with r assms(2) log_repr_transfer [OF same log_safeD(1) [OF r]] show ?thesis unfolding log_safe_def f by simp
qed

lemma persist_same_log: "persist_frame w w' \<Longrightarrow> same_log w w'"
  by (simp add: same_log_def persist_frame_os)

lemma persist_log_safe:
  assumes "persist_frame w w'" "log_safe view w s" "view = os_files \<or> view = os_durable"
  shows "log_safe view w' s"
proof (rule log_safe_transfer [OF persist_same_log [OF assms(1)] _ assms(2)])
  show "last_synced w' = last_synced w" by (simp add: last_synced_def persist_frame_os [OF assms(1)] cong: option.case_cong)
  fix d p
  assume "nvwal_construct_disk_segment_path (w_wal w) d = Some p"
  then have "p \<notin> seg_bases w" using log_safeD(2) [OF assms(2)] by (metis disk_names_ok_def image_eqI)
  then show "view (w_os w') p = view (w_os w) p"
    using assms(1,3) persist_frame_os(1) [OF assms(1)] by (auto simp: persist_frame_def)
qed

section \<open>The loop over the segments of an epoch\<close>

text \<open>A record that says where the epoch begins, and that it ends where the log ends.\<close>

definition ends_here :: "world \<Rightarrow> MdsEpochMetadata \<Rightarrow> bool" where
  "ends_here w em \<longleftrightarrow>
     unat (em_to_seg_id em) = cur_dsid w \<and> unat (em_to_off em) = cur_written w \<and>
     0 < unat (em_from_seg_id em) \<and> unat (em_from_seg_id em) \<le> cur_dsid w \<and>
     unat (em_from_offset em) \<le> seg_fill w (unat (em_from_seg_id em))"

definition begin_in :: "MdsEpochMetadata \<Rightarrow> nat \<Rightarrow> nat" where
  "begin_in em d = (if d = unat (em_from_seg_id em) then unat (em_from_offset em) else 0)"

lemma persist_segment_step:
  assumes r: "log_safe view w s" and view: "view = os_files \<or> view = os_durable"
    and b: "seg_backed w" and pm: "pmem_persist_spec pm" and em: "ends_here w em"
    and d: "unat (em_from_seg_id em) \<le> d" "d \<le> cur_dsid w"
    and du: "durable_upto w s ((d - 1) * seg_size w + begin_in em d)"
  shows "\<exists>w'. flusher_persist_segment pm em (of_nat (last_synced w)) (of_nat d) w = Ok () w' \<and> persist_frame w w' \<and>
           seg_backed w' \<and> durable_upto w' s ((d - 1) * seg_size w + seg_fill w d)"
proof -
  note l = log_safeD(1) [OF r]
  have lim: "cur_dsid w < 2 ^ 32" "last_synced w < cur_dsid w" "0 < seg_size w" "0 < seg_count w" "seg_count w \<le> length (wal_segments (w_wal w))"
    using r l by (simp_all add: log_repr_def log_safe_def)
  have d0: "0 < d" using em d(1) by (simp add: ends_here_def)
  have n: "unat (of_nat d :: u64) = d" "unat (of_nat (last_synced w) :: u64) = last_synced w"
    using d lim by (auto intro!: unat_of_nat_small)
  show ?thesis
  proof (cases "d \<le> last_synced w")
    case True
    then have "flusher_persist_segment pm em (of_nat (last_synced w)) (of_nat d) w = Ok () w"
      using n by (simp add: flusher_persist_segment_def word_le_nat_alt)
    moreover have "seg_fill w d = seg_size w" using True lim(2) by (simp add: seg_fill_def)
    then have "(d - 1) * seg_size w + seg_fill w d = d * seg_size w" using d0 by (simp add: diff_mult_distrib)
    then have "durable_upto w s ((d - 1) * seg_size w + seg_fill w d)"
      using True lim(3) by (auto simp: durable_upto_def div_less_iff_less_mult [symmetric] intro: less_le_trans)
    ultimately show ?thesis using b by (auto simp: persist_frame_def)
  next
    case False
    then have ls: "last_synced w < d" by simp
    note i = window_segment [OF r ls d(2)]
    obtain p where p: "sg_nv_baseaddr (wal_segments (w_wal w) ! ((d - 1) mod seg_count w)) = Some p"
      "length (mapped p (w_os w)) = seg_size w" "seg_fill w d \<le> seg_size w" using segment_content [OF r ls d(2)] by metis
    let ?f = "begin_in em d" and ?t = "seg_fill w d"
    have ft: "?f \<le> ?t" using em by (simp add: begin_in_def ends_here_def)
    let ?from = "if of_nat d = em_from_seg_id em then ucast (em_from_offset em) else 0 :: u64"
    let ?to = "if of_nat d = em_to_seg_id em then ucast (em_to_off em) else cf_segment_size (wal_config (w_wal w))"
    have u: "unat ?from = ?f" "unat ?to = ?t"
      using em n(1) by (auto simp: begin_in_def seg_fill_def ends_here_def seg_size_def unat_eq_u64 [symmetric])
    have le: "?from \<le> ?to" using u ft by (simp add: word_le_nat_alt)
    have "d < 2 ^ 64" using d(2) lim(1) by simp
    note idx = segment_index [OF d0 this lim(4)]
    have sd: "sg_dsid (wal_segments (w_wal w) ! ((d - 1) mod seg_count w)) = of_nat d"
      using i(2) n(1) by (metis unat_eq_u64)
    have "flusher_persist_segment pm em (of_nat (last_synced w)) (of_nat d) w = Ok () (persisted pm p ?f ?t w)"
      using False n i(1) lim(5) p le u idx sd unat_minus_le [OF le]
      unfolding flusher_persist_segment_def Let_def persisted_def by (simp add: word_le_nat_alt)
    moreover have "p \<in> seg_bases w" using p(1) i(1) by (auto simp: seg_bases_def)
    ultimately show ?thesis
      using persist_extends [OF r b pm ls d(2) ft order_refl p(1) du] persist_frame_persisted by blast
  qed
qed

lemma persist_fields:
  assumes "persist_frame w w'"
  shows "seg_size w' = seg_size w" "cur_dsid w' = cur_dsid w" "seg_fill w' d = seg_fill w d" "last_synced w' = last_synced w"
    "ends_here w' em = ends_here w em"
  using same_log_fields [OF persist_same_log [OF assms]]
  by (simp_all add: seg_fill_def ends_here_def last_synced_def persist_frame_os [OF assms] cong: option.case_cong)

lemma persist_loop:
  assumes "log_safe view w s" and view: "view = os_files \<or> view = os_durable"
    and "seg_backed w" and pm: "pmem_persist_spec pm" and "ends_here w em"
    and "unat (em_from_seg_id em) \<le> d" "d \<le> cur_dsid w" and "durable_upto w s ((d - 1) * seg_size w + begin_in em d)"
  shows "\<exists>w'. for_each (flusher_persist_segment pm em (of_nat (last_synced w))) (map of_nat [d..<Suc (cur_dsid w)]) w = Ok () w' \<and>
           persist_frame w w' \<and> seg_backed w' \<and> durable_upto w' s (length s)"
  using assms(1,3,5-)
proof (induction "cur_dsid w - d" arbitrary: w d)
  case 0
  then have d: "d = cur_dsid w" by simp
  obtain w1 where w1: "flusher_persist_segment pm em (of_nat (last_synced w)) (of_nat d) w = Ok () w1" "persist_frame w w1" "seg_backed w1"
    "durable_upto w1 s ((d - 1) * seg_size w + seg_fill w d)"
    using persist_segment_step [OF 0(2) view 0(3) pm 0(4,5,6,7)] by blast
  have "(d - 1) * seg_size w + seg_fill w d = length s"
    using log_length [OF log_safeD(1) [OF 0(2)]] d by (simp add: seg_fill_def)
  with w1 d show ?case by simp
next
  case (Suc n)
  obtain w1 where w1: "flusher_persist_segment pm em (of_nat (last_synced w)) (of_nat d) w = Ok () w1" "persist_frame w w1" "seg_backed w1"
    "durable_upto w1 s ((d - 1) * seg_size w + seg_fill w d)"
    using persist_segment_step [OF Suc(3) view Suc(4) pm Suc(5-8)] by blast
  note f = persist_fields [OF w1(2)]
  have lt: "d < cur_dsid w" "0 < d" using Suc(2,5,6) by (simp_all add: ends_here_def)
  have "begin_in em (Suc d) = 0" using Suc(6) by (simp add: begin_in_def)
  moreover have "(d - 1) * seg_size w + seg_fill w d = d * seg_size w" using lt by (simp add: seg_fill_def diff_mult_distrib)
  ultimately have "durable_upto w1 s ((Suc d - 1) * seg_size w1 + begin_in em (Suc d))" using w1(4) f(1) by simp
  moreover have "n = cur_dsid w1 - Suc d" using Suc(2) f(2) by simp
  ultimately obtain w' where w': "for_each (flusher_persist_segment pm em (of_nat (last_synced w1))) (map of_nat [Suc d..<Suc (cur_dsid w1)]) w1 = Ok () w'"
    "persist_frame w1 w'" "seg_backed w'" "durable_upto w' s (length s)"
    using Suc.hyps(1) [of w1 "Suc d"] persist_log_safe [OF w1(2) Suc(3) view] w1(3) Suc(5,6) f lt by auto
  have "[d..<Suc (cur_dsid w)] = d # [Suc d..<Suc (cur_dsid w)]" using lt(1) by (simp add: upt_conv_Cons)
  then show ?case using w1(1) w' f(2,4) persist_frame_trans [OF w1(2) w'(2)] by auto
qed

end
