(* ===== verification/Conclude.thy ===== *)
theory Conclude
  imports Durable
begin

text \<open>
  Concluding a stable epoch: what the epoch wrote is persisted, then its record is written, then it is
  announced. One round of the flusher takes the bytes of the writers for the epoch to the log and to
  the metadata store.
\<close>

section \<open>Transfer of the metadata store\<close>

definition same_mds :: "world \<Rightarrow> world \<Rightarrow> bool" where
  "same_mds w w' \<longleftrightarrow>
     wal_config (w_wal w') = wal_config (w_wal w) \<and> wal_mds (w_wal w') = wal_mds (w_wal w) \<and>
     wal_nv_control_block (w_wal w') = wal_nv_control_block (w_wal w) \<and> os_resp (w_os w') = os_resp (w_os w) \<and>
     (\<forall>pf \<in> set (io_files (mds_io (wal_mds (w_wal w)))). os_fds (w_os w') (pf_fd pf) = os_fds (w_os w) (pf_fd pf)) \<and>
     (\<forall>cb. cb_flusher_progress (os_cblock (w_os w') cb) = cb_flusher_progress (os_cblock (w_os w) cb) \<and>
        cb_flusher_progress (os_cblock_durable (w_os w') cb) = cb_flusher_progress (os_cblock_durable (w_os w) cb)) \<and>
     (\<forall>q. q = mds_page_file_path (w_wal w) 0 \<or> q = mds_buffer_path (w_wal w) 0 \<longrightarrow>
        os_files (w_os w') q = os_files (w_os w) q \<and> os_durable (w_os w') q = os_durable (w_os w) q \<and>
        (os_dirs (w_os w) q = None \<longrightarrow> os_dirs (w_os w') q = None))"

lemma mds_core_transfer:
  assumes same: "same_mds w w'" and "mds_core w h q pe pf d b p cb"
  shows "mds_core w' h q pe pf d b p cb"
proof -
  have at: "fd_path d = mds_page_file_path (w_wal w) 0" "p = mds_buffer_path (w_wal w) 0"
    using assms(2) by (auto simp: mds_core_def mds_at_def mds_paths_def)
  have q: "os_files (w_os w') (fd_path d) = os_files (w_os w) (fd_path d)" "os_files (w_os w') p = os_files (w_os w) p"
    "os_durable (w_os w') (fd_path d) = os_durable (w_os w) (fd_path d)" "os_durable (w_os w') p = os_durable (w_os w) p"
    using same at by (simp_all add: same_mds_def)
  have c: "wal_config (w_wal w') = wal_config (w_wal w)" using same by (simp add: same_mds_def)
  have dirs: "os_dirs (w_os w') (fd_path d) = None" "os_dirs (w_os w') p = None" "os_fds (w_os w') (pf_fd pf) = Some d"
    using same at assms(2) by (auto simp: same_mds_def mds_core_def mds_at_def)
  have "buffer_holds (w_os w') p = buffer_holds (w_os w) p"
    by (simp add: buffer_holds_def mapped_def q fun_eq_iff)
  moreover have "cblock_holds (w_os w') = cblock_holds (w_os w)"
    using same by (simp add: cblock_holds_def same_mds_def fun_eq_iff)
  moreover have "mds_latest_epoch w' = mds_latest_epoch w" "write_buffers w' = write_buffers w" "wal_mds (w_wal w') = wal_mds (w_wal w)"
    using same by (simp_all add: same_mds_def mds_latest_epoch_def)
  ultimately show ?thesis
    using assms q dirs page_config [OF c] unfolding mds_core_def mds_at_def by (simp add: same_mds_def)
qed

lemma mds_repr_transfer:
  assumes same: "same_mds w w'" and "mds_repr w h"
  shows "mds_repr w' h"
proof -
  have c: "wal_config (w_wal w') = wal_config (w_wal w)" using same by (simp add: same_mds_def)
  show ?thesis
    using assms(2) mds_core_transfer [OF same] unfolding mds_repr_def page_config(1) [OF c] buffer_for_config [OF c]
    by (cases "h = []") (simp_all, blast+)
qed

text \<open>The files of the log and those of the store have different names.\<close>

definition mds_names_ok :: "world \<Rightarrow> bool" where
  "mds_names_ok w \<longleftrightarrow>
     mds_page_file_path (w_wal w) 0 \<notin> seg_bases w \<and> mds_buffer_path (w_wal w) 0 \<notin> seg_bases w \<and>
     (\<forall>d. nvwal_construct_disk_segment_path (w_wal w) d \<noteq> Some (mds_page_file_path (w_wal w) 0) \<and>
          nvwal_construct_disk_segment_path (w_wal w) d \<noteq> Some (mds_buffer_path (w_wal w) 0))"

lemma mds_names_cong:
  assumes "wal_config (w_wal w') = wal_config (w_wal w)" "seg_bases w' = seg_bases w"
  shows "mds_names_ok w' = mds_names_ok w"
  unfolding mds_names_ok_def disk_path_cong [OF assms(1)] assms(2)
  by (simp add: mds_page_file_path_def mds_buffer_path_def assms(1))

section \<open>Surroundings\<close>

text \<open>
  The directories and descriptors both threads rely on; the fsyncer's progress is recorded durably.
\<close>

definition disk_ready :: "world \<Rightarrow> bool" where
  "disk_ready w \<longleftrightarrow> os_dirs (w_os w) (c_string (cf_disk_root (wal_config (w_wal w)))) \<noteq> None \<and>
     (\<forall>d p. nvwal_construct_disk_segment_path (w_wal w) d = Some p \<longrightarrow> os_dirs (w_os w) p = None) \<and> 0 < os_next_fd (w_os w)"

definition wal_env :: "world \<Rightarrow> bool" where
  "wal_env w \<longleftrightarrow> mds_names_ok w \<and> disk_ready w \<and>
     (\<forall>pf \<in> set (io_files (mds_io (wal_mds (w_wal w)))). pf_fd pf < os_next_fd (w_os w)) \<and>
     (case wal_nv_control_block (w_wal w) of None \<Rightarrow> False
      | Some cb \<Rightarrow> cb_fsyncer_progress (os_cblock_durable (w_os w) cb) = cb_fsyncer_progress (os_cblock (w_os w) cb))"

definition env_frame :: "world \<Rightarrow> world \<Rightarrow> bool" where
  "env_frame w w' \<longleftrightarrow>
     wal_config (w_wal w') = wal_config (w_wal w) \<and> seg_bases w' = seg_bases w \<and>
     mds_io (wal_mds (w_wal w')) = mds_io (wal_mds (w_wal w)) \<and>
     wal_nv_control_block (w_wal w') = wal_nv_control_block (w_wal w) \<and>
     (\<forall>q. os_dirs (w_os w') q = None \<longleftrightarrow> os_dirs (w_os w) q = None) \<and> os_next_fd (w_os w) \<le> os_next_fd (w_os w')"

lemma wal_env_names: "wal_env w \<Longrightarrow> mds_names_ok w" "wal_env w \<Longrightarrow> disk_ready w" "wal_env w \<Longrightarrow> \<exists>cb. wal_nv_control_block (w_wal w) = Some cb"
  by (auto simp: wal_env_def split: option.splits)

lemma wal_env_keep:
  assumes f: "env_frame w w'" and e: "wal_env w"
    and p: "\<And>cb. cb_fsyncer_progress (os_cblock_durable (w_os w) cb) = cb_fsyncer_progress (os_cblock (w_os w) cb) \<Longrightarrow>
       cb_fsyncer_progress (os_cblock_durable (w_os w') cb) = cb_fsyncer_progress (os_cblock (w_os w') cb)"
  shows "wal_env w'"
proof -
  have c: "wal_config (w_wal w') = wal_config (w_wal w)" "seg_bases w' = seg_bases w" using f by (simp_all add: env_frame_def)
  have "mds_names_ok w'" using mds_names_cong [OF c] e by (simp add: wal_env_def)
  moreover have "disk_ready w'"
    using f e unfolding wal_env_def disk_ready_def env_frame_def disk_path_cong [OF c(1)] by auto
  moreover have "pf_fd pf < os_next_fd (w_os w')" if "pf \<in> set (io_files (mds_io (wal_mds (w_wal w'))))" for pf
    using f e that unfolding wal_env_def env_frame_def by fastforce
  ultimately show ?thesis
    using f e p unfolding wal_env_def env_frame_def by (auto split: option.splits)
qed

lemma flush_same_mds: "flush_frame w w' \<Longrightarrow> mds_names_ok w \<Longrightarrow> same_mds w w'"
  unfolding same_mds_def flush_frame_wal flush_frame_os by (auto simp: mds_names_ok_def flush_frame_def)

lemma persist_same_mds: "persist_frame w w' \<Longrightarrow> mds_names_ok w \<Longrightarrow> same_mds w w'"
  by (auto simp: same_mds_def persist_frame_os mds_names_ok_def) (auto simp: persist_frame_def)

text \<open>The store leaves the log alone.\<close>

lemma mds_same_log:
  assumes "mds_frame w w'" "mds_names_ok w"
  shows "same_log w w'" "last_synced w' = last_synced w"
    "\<And>q. q \<in> seg_bases w \<Longrightarrow> os_durable (w_os w') q = os_durable (w_os w) q"
    "\<And>d p. nvwal_construct_disk_segment_path (w_wal w) d = Some p \<Longrightarrow>
       os_files (w_os w') p = os_files (w_os w) p \<and> os_durable (w_os w') p = os_durable (w_os w) p"
proof -
  have keep: "q \<noteq> mds_page_file_path (w_wal w) 0 \<Longrightarrow> q \<noteq> mds_buffer_path (w_wal w) 0 \<Longrightarrow>
      os_files (w_os w') q = os_files (w_os w) q \<and> os_durable (w_os w') q = os_durable (w_os w) q" for q
    using assms(1) by (simp add: mds_frame_def)
  have seg: "q \<in> seg_bases w \<Longrightarrow> os_files (w_os w') q = os_files (w_os w) q \<and> os_durable (w_os w') q = os_durable (w_os w) q" for q
    using assms(2) keep [of q] by (auto simp: mds_names_ok_def)
  then show "same_log w w'" "q \<in> seg_bases w \<Longrightarrow> os_durable (w_os w') q = os_durable (w_os w) q" for q
    by (simp_all add: same_log_def mds_frame_wal [OF assms(1)])
  show "last_synced w' = last_synced w"
    using assms(1) by (simp add: last_synced_def mds_frame_wal [OF assms(1)] mds_frame_def split: option.splits)
  show "nvwal_construct_disk_segment_path (w_wal w) d = Some p \<Longrightarrow>
       os_files (w_os w') p = os_files (w_os w) p \<and> os_durable (w_os w') p = os_durable (w_os w) p" for d p
    using assms(2) keep [of p] by (auto simp: mds_names_ok_def)
qed

text \<open>None of the steps changes the surroundings.\<close>

lemma flush_env_frame:
  assumes "flush_frame w w'"
  shows "env_frame w w'"
  unfolding env_frame_def flush_frame_wal [OF assms] flush_frame_os [OF assms] flush_frame_bases [OF assms] by simp

lemma persist_env_frame:
  assumes "persist_frame w w'"
  shows "env_frame w w'"
proof -
  have "(w_os w')\<lparr>os_durable := Map.empty\<rparr> = (w_os w)\<lparr>os_durable := Map.empty\<rparr>" using assms by (simp add: persist_frame_def)
  from arg_cong [OF this, of os_next_fd] show ?thesis
    unfolding env_frame_def persist_frame_os [OF assms] seg_bases_def seg_count_def by simp
qed

lemma mds_env_frame:
  assumes "mds_frame w w'"
  shows "env_frame w w'"
  unfolding env_frame_def seg_bases_def seg_count_def mds_frame_wal [OF assms] using assms by (simp add: mds_frame_def)

section \<open>The state between two rounds\<close>

text \<open>
  The flusher's head is where the next epoch begins: everything before it is durable. \<open>s\<close> is the log,
  \<open>ps\<close> the writers, \<open>h\<close> the records of the concluded epochs, \<open>n\<close> the length of the log they cover.
\<close>

definition head_at :: "world \<Rightarrow> nat \<Rightarrow> bool" where
  "head_at w n \<longleftrightarrow>
     (let hd = unat (wal_flusher_current_epoch_head_dsid (w_wal w)); off = unat (wal_flusher_current_epoch_head_offset (w_wal w))
      in 0 < hd \<and> off < seg_size w \<and> n = (hd - 1) * seg_size w + off)"

definition log_durable :: "world \<Rightarrow> byte list \<Rightarrow> nat \<Rightarrow> bool" where
  "log_durable w s n \<longleftrightarrow> seg_backed w \<and> durable_upto w s n"

definition wal_repr :: "world \<Rightarrow> byte list \<Rightarrow> wstate list \<Rightarrow> MdsEpochMetadata list \<Rightarrow> nat \<Rightarrow> bool" where
  "wal_repr w s ps h n \<longleftrightarrow>
     flush_open os_durable w s \<and> log_safe os_files w s \<and> writers_repr w ps \<and> mds_repr w h \<and> log_durable w s n \<and>
     head_at w n \<and> n \<le> length s \<and> wal_env w \<and> wal_durable_epoch (w_wal w) = of_nat (length h) \<and> pins_ok w"

text \<open>What is durable in terms of the frames.\<close>

lemma log_durable_cong:
  assumes "\<And>i. sg_nv_baseaddr (wal_segments (w_wal w') ! i) = sg_nv_baseaddr (wal_segments (w_wal w) ! i)"
    and "seg_size w' = seg_size w" "seg_count w' = seg_count w" "last_synced w' = last_synced w"
    and d: "\<And>p. p \<in> seg_bases w \<Longrightarrow> os_durable (w_os w') p = os_durable (w_os w) p"
    and s: "\<And>x. x < n \<Longrightarrow> s' ! x = s ! x" and S: "0 < seg_count w"
  shows "log_durable w' s' n = log_durable w s n"
proof -
  have b: "sg_nv_baseaddr (wal_segments (w_wal w) ! i) = Some p \<Longrightarrow> i < seg_count w \<Longrightarrow> os_durable (w_os w') p = os_durable (w_os w) p" for i p
    using d by (auto simp: seg_bases_def)
  have "seg_backed w' = seg_backed w"
    unfolding seg_backed_def assms(1-4) by (intro all_cong1 imp_cong refl) (auto simp: b split: option.splits)
  moreover have "nv_durable w' s' x = nv_durable w s x" if "x < n" for x
    unfolding nv_durable_def assms(1-4) using b [of "x div seg_size w mod seg_count w"] S s [OF that] by (auto split: option.splits)
  ultimately show ?thesis by (simp add: log_durable_def durable_upto_def assms(1-4))
qed

lemma head_fill:
  assumes o: "flush_open view w s" and h: "head_at w n" "n \<le> length s"
  defines "hs \<equiv> unat (wal_flusher_current_epoch_head_dsid (w_wal w))"
  shows "hs \<le> cur_dsid w" "unat (wal_flusher_current_epoch_head_offset (w_wal w)) \<le> seg_fill w hs"
proof -
  let ?S = "seg_size w" and ?off = "unat (wal_flusher_current_epoch_head_offset (w_wal w))"
  have l: "log_repr w s" and op: "cur_written w < ?S" using o log_safeD(1) by (auto simp: flush_open_def)
  have c: "0 < cur_dsid w" using l by (simp add: log_repr_def)
  have h': "0 < hs" "?off \<le> ?S" "n = (hs - 1) * ?S + ?off" using h(1) by (simp_all add: head_at_def Let_def hs_def)
  note len = log_length [OF l]
  have "(hs - 1) * ?S < (cur_dsid w - 1) * ?S + ?S" using h' h(2) len op by linarith
  also have "\<dots> = cur_dsid w * ?S" using c by (simp add: diff_mult_distrib)
  finally have "hs - 1 < cur_dsid w" by simp
  then show le: "hs \<le> cur_dsid w" using h'(1) by linarith
  show "?off \<le> seg_fill w hs" using h' h(2) len by (cases "hs = cur_dsid w") (simp_all add: seg_fill_def)
qed

text \<open>Copying bytes to the log keeps all that is durable.\<close>

lemma flush_wal_repr:
  assumes r: "wal_repr w s ps h n" and f: "flush_frame w w'" and o: "flush_open os_durable w' (s @ bs)" "log_safe os_files w' (s @ bs)"
    and wr: "writers_repr w' qs"
  shows "wal_repr w' (s @ bs) qs h n"
proof -
  have parts: "flush_open os_durable w s" "mds_repr w h" "log_durable w s n" "head_at w n" "n \<le> length s" "wal_env w"
    "wal_durable_epoch (w_wal w) = of_nat (length h)" using r by (simp_all add: wal_repr_def)
  have N: "0 < seg_count w" using parts(1) by (auto simp: flush_open_def log_safe_def log_repr_def)
  have "mds_repr w' h" by (rule mds_repr_transfer [OF flush_same_mds [OF f wal_env_names(1) [OF parts(6)]] parts(2)])
  moreover have "log_durable w' (s @ bs) n = log_durable w s n"
  proof (rule log_durable_cong [OF _ flush_frame_size(1) [OF f] flush_frame_size(2) [OF f] _ _ _ N])
    show "last_synced w' = last_synced w"
      unfolding last_synced_def flush_frame_wal(3) [OF f] flush_frame_os(3) [OF f] ..
    show "os_durable (w_os w') p = os_durable (w_os w) p" for p by (simp add: flush_frame_os(1) [OF f])
    show "sg_nv_baseaddr (wal_segments (w_wal w') ! i) = sg_nv_baseaddr (wal_segments (w_wal w) ! i)" for i
      using f by (simp add: flush_frame_def)
  qed (use parts(5) in \<open>simp add: nth_append\<close>)
  moreover have "head_at w' n" using parts(4) by (simp add: head_at_def flush_frame_wal [OF f] flush_frame_size [OF f])
  moreover have "wal_env w'" by (rule wal_env_keep [OF flush_env_frame [OF f] parts(6)]) (simp add: flush_frame_os [OF f])
  ultimately show ?thesis
    using parts o wr flush_frame_pins [OF f] r by (simp add: wal_repr_def flush_frame_wal [OF f])
qed

section \<open>Concluding\<close>

definition epoch_record :: "u64 \<Rightarrow> world \<Rightarrow> MdsEpochMetadata" where
  "epoch_record e w = flusher_new_meta e (wal_segments (w_wal w) ! cur_index w) (w_wal w)"

text \<open>The record of an epoch names the part of the log from the head to the end.\<close>

lemma epoch_record_ends:
  assumes o: "flush_open view w s" and h: "head_at w n" "n \<le> length s"
  shows "ends_here w (epoch_record e w)" "em_epoch_id (epoch_record e w) = e"
    "(unat (em_from_seg_id (epoch_record e w)) - 1) * seg_size w + unat (em_from_offset (epoch_record e w)) = n"
    "(unat (em_to_seg_id (epoch_record e w)) - 1) * seg_size w + unat (em_to_off (epoch_record e w)) = length s"
    "unat (em_from_offset (epoch_record e w)) < seg_size w" "unat (em_to_off (epoch_record e w)) < seg_size w"
proof -
  have l: "log_repr w s" and op: "cur_written w < seg_size w" using o log_safeD(1) by (auto simp: flush_open_def)
  have S: "seg_size w < 2 ^ 32" using l by (simp add: log_repr_def)
  note ci = cur_segment_index [OF l] and hf = head_fill [OF o h]
  have off: "unat (wal_flusher_current_epoch_head_offset (w_wal w)) < 2 ^ 32"
    using h(1) S by (simp add: head_at_def Let_def)
  have u: "unat (em_from_offset (epoch_record e w)) = unat (wal_flusher_current_epoch_head_offset (w_wal w))"
    "unat (em_to_off (epoch_record e w)) = cur_written w" "unat (em_to_seg_id (epoch_record e w)) = cur_dsid w"
    "em_from_seg_id (epoch_record e w) = wal_flusher_current_epoch_head_dsid (w_wal w)" "em_epoch_id (epoch_record e w) = e"
    using off S op ci(4) by (simp_all add: epoch_record_def flusher_new_meta_def unat_ucast_down cur_written_def)
  show "ends_here w (epoch_record e w)" using h(1) hf u by (simp add: ends_here_def head_at_def Let_def)
  show "em_epoch_id (epoch_record e w) = e" by (rule u(5))
  show "(unat (em_from_seg_id (epoch_record e w)) - 1) * seg_size w + unat (em_from_offset (epoch_record e w)) = n"
    using h(1) u by (simp add: head_at_def Let_def)
  show "(unat (em_to_seg_id (epoch_record e w)) - 1) * seg_size w + unat (em_to_off (epoch_record e w)) = length s"
    using log_length [OF l] u by simp
  show "unat (em_from_offset (epoch_record e w)) < seg_size w" "unat (em_to_off (epoch_record e w)) < seg_size w"
    using h(1) u op by (simp_all add: head_at_def Let_def)
qed

definition announced :: "u64 \<Rightarrow> u64 \<Rightarrow> u64 \<Rightarrow> world \<Rightarrow> world" where
  "announced e d off w = w\<lparr>w_wal := (w_wal w)\<lparr>wal_durable_epoch := e, wal_flusher_current_epoch_head_dsid := d,
     wal_flusher_current_epoch_head_offset := off\<rparr>\<rparr>"

lemma announced_same: "same_log w (announced e d off w)" "same_mds w (announced e d off w)"
  "w_os (announced e d off w) = w_os w" "last_synced (announced e d off w) = last_synced w"
  "wal_writers (w_wal (announced e d off w)) = wal_writers (w_wal w)"
  by (simp_all add: announced_def same_log_def same_mds_def last_synced_def cong: option.case_cong)

lemma same_log_durable:
  assumes "same_log w w'" "last_synced w' = last_synced w" "\<And>q. q \<in> seg_bases w \<Longrightarrow> os_durable (w_os w') q = os_durable (w_os w) q"
    and "log_repr w s"
  shows "log_durable w' s n = log_durable w s n"
  using assms(4) by (intro log_durable_cong) (simp_all add: same_log_fields [OF assms(1)] assms(2,3) log_repr_def)

lemma announced_repr:
  assumes safe: "log_safe os_durable w s" "log_safe os_files w s" and op: "cur_written w < seg_size w"
    and rest: "writers_repr w ps" "mds_repr w h" "log_durable w s (length s)" "wal_env w" "pins_ok w"
    and g: "g = wal_segments (w_wal w) ! cur_index w"
  shows "wal_repr (announced (of_nat (length h)) (sg_dsid g) (sg_written_bytes g) w) s ps h (length s)"
proof -
  let ?w = "announced (of_nat (length h)) (sg_dsid g) (sg_written_bytes g) w"
  note an = announced_same [where w = w and e = "of_nat (length h)" and d = "sg_dsid g" and off = "sg_written_bytes g"]
  note f = same_log_fields [OF an(1)] and l = log_safeD(1) [OF safe(1)]
  have "flush_open os_durable ?w s" "log_safe os_files ?w s"
    using log_safe_transfer [OF an(1,4) safe(1)] log_safe_transfer [OF an(1,4) safe(2)] an(3) op f(1,5) by (simp_all add: flush_open_def)
  moreover have c: "wal_config (w_wal ?w) = wal_config (w_wal w)" by (simp add: announced_def)
  have "writers_repr ?w ps" using rest(1) by (simp add: writers_repr_def an(5) writer_repr_cong [OF c])
  moreover have "mds_repr ?w h" by (rule mds_repr_transfer [OF an(2) rest(2)])
  moreover have "log_durable ?w s (length s)" using same_log_durable [OF an(1,4) _ l] rest(3) an(3) by simp
  moreover have "head_at ?w (length s)"
    using cur_segment_index(4) [OF l] log_length [OF l] l op
    by (simp add: head_at_def Let_def f(1)) (simp add: announced_def g cur_written_def log_repr_def)
  moreover have "env_frame w ?w" using f(4) by (simp add: env_frame_def) (simp add: announced_def)
  then have "wal_env ?w" by (rule wal_env_keep [OF _ rest(4)]) (simp add: an(3))
  moreover have "pins_ok ?w" using rest(5) pins_ok_cong [OF f(6,2)] by simp
  ultimately show ?thesis by (simp add: wal_repr_def) (simp add: announced_def)
qed

lemma conclude_epoch:
  assumes r: "wal_repr w s ps h n" and pm: "pmem_persist_spec pm" and len: "Suc (length h) < 2 ^ 56"
    and e: "e = of_nat (Suc (length h))"
  shows "\<exists>w'. flusher_conclude_stable_epoch pm e w = Ok () w' \<and> wal_repr w' s ps (h @ [epoch_record e w]) (length s) \<and>
           wal_stable_epoch (w_wal w') = wal_stable_epoch (w_wal w) \<and> wal_config (w_wal w') = wal_config (w_wal w)"
proof -
  have parts: "flush_open os_durable w s" "log_safe os_files w s" "writers_repr w ps" "mds_repr w h" "seg_backed w" "durable_upto w s n"
    "head_at w n" "n \<le> length s" "wal_env w" using r by (simp_all add: wal_repr_def log_durable_def)
  note names = wal_env_names(1) [OF parts(9)]
  have safe: "log_safe os_durable w s" and op: "cur_written w < seg_size w" using parts(1) by (simp_all add: flush_open_def)
  note l = log_safeD(1) [OF safe]
  note ci = cur_segment_index [OF l]
  let ?em = "epoch_record e w" and ?g = "wal_segments (w_wal w) ! cur_index w"
  obtain cb where cb: "wal_nv_control_block (w_wal w) = Some cb" using wal_env_names(3) [OF parts(9)] by blast
  note em = epoch_record_ends [OF parts(1,7,8), of e]
  let ?a = "unat (em_from_seg_id ?em)"
  have a: "?a \<le> cur_dsid w" using em(1) by (simp add: ends_here_def)
  have ls: "of_nat (last_synced w) = sp_last_synced_dsid (cb_fsyncer_progress (os_cblock (w_os w) cb))" using cb by (simp add: last_synced_def)
  have "durable_upto w s ((?a - 1) * seg_size w + begin_in ?em ?a)" using parts(6) em(3) by (simp add: begin_in_def)
  from persist_loop [OF safe disjI2 [OF refl] parts(5) pm em(1) order_refl a this]
  obtain w1 where w1: "for_each (flusher_persist_segment pm ?em (of_nat (last_synced w))) (map of_nat [?a..<Suc (cur_dsid w)]) w = Ok () w1"
    "persist_frame w w1" "seg_backed w1" "durable_upto w1 s (length s)" by blast
  have s1: "log_safe os_durable w1 s" "log_safe os_files w1 s" using persist_log_safe [OF w1(2)] safe parts(2) by auto
  have e1: "wal_env w1" by (rule wal_env_keep [OF persist_env_frame [OF w1(2)] parts(9)]) (simp add: persist_frame_os [OF w1(2)])
  note n1 = wal_env_names(1) [OF e1]
  have m1: "mds_repr w1 h" by (rule mds_repr_transfer [OF persist_same_mds [OF w1(2) names] parts(4)])
  obtain w2 where w2: "mds_write_epoch pm ?em w1 = Ok () w2" "mds_frame w1 w2" "mds_repr w2 (h @ [?em])"
    using write_epoch_appends [OF m1 pm _ len] em(2) e by blast
  note ms = mds_same_log [OF w2(2) n1]
  have s2: "log_safe os_durable w2 s" "log_safe os_files w2 s"
    using log_safe_transfer [OF ms(1,2) s1(1)] log_safe_transfer [OF ms(1,2) s1(2)] ms(4) by blast+
  have d2: "log_durable w2 s (length s)" using same_log_durable [OF ms(1,2,3) log_safeD(1) [OF s1(1)]] w1(3,4) by (simp add: log_durable_def)
  let ?w = "announced e (sg_dsid ?g) (sg_written_bytes ?g) w2"
  have "flusher_conclude_stable_epoch pm e w = Ok () ?w"
    using ci cb ls w1(1) w2(1) em(1)
    by (simp add: flusher_conclude_stable_epoch_def with_cblock_def Let_def epoch_record_def [symmetric] dsid_range_def ends_here_def announced_def)
  moreover have "wal_repr ?w s ps (h @ [?em]) (length s)"
  proof -
    have p1: "w_wal w1 = w_wal w" by (rule persist_frame_os(7) [OF w1(2)])
    have x: "cur_written w2 < seg_size w2" "wal_segments (w_wal w2) ! cur_index w2 = ?g"
      using op same_log_fields [OF ms(1)] p1 by (simp_all add: cur_written_def cur_index_def seg_size_def cur_dsid_def seg_count_def)
    have c: "wal_config (w_wal w2) = wal_config (w_wal w)" using mds_frame_wal(1) [OF w2(2)] p1 by simp
    have p2: "pins_ok w2" using r mds_frame_wal(2,3) [OF w2(2)] p1 by (simp add: wal_repr_def pins_ok_def seg_count_def)
    have "writers_repr w2 ps"
      using parts(3) mds_frame_wal(4) [OF w2(2)] p1 by (simp add: writers_repr_def writer_repr_cong [OF c])
    moreover have "wal_env w2" by (rule wal_env_keep [OF mds_env_frame [OF w2(2)] e1]) (use w2(2) in \<open>simp add: mds_frame_def\<close>)
    ultimately show ?thesis
      using announced_repr [OF s2 x(1) _ w2(3) d2 _ _ refl, of ps] p2 x(2) e by simp
  qed
  moreover have "wal_stable_epoch (w_wal ?w) = wal_stable_epoch (w_wal w)" "wal_config (w_wal ?w) = wal_config (w_wal w)"
    using mds_frame_wal(1,7) [OF w2(2)] persist_frame_os(7) [OF w1(2)] by (simp_all add: announced_def)
  ultimately show ?thesis by blast
qed

section \<open>One round of the flusher\<close>

text \<open>A record covers the part of the log from position \<open>a\<close> to position \<open>b\<close>.\<close>

definition record_covers :: "nat \<Rightarrow> MdsEpochMetadata \<Rightarrow> nat \<Rightarrow> nat \<Rightarrow> bool" where
  "record_covers S em a b \<longleftrightarrow>
     0 < unat (em_from_seg_id em) \<and> (unat (em_from_seg_id em) - 1) * S + unat (em_from_offset em) = a \<and>
     0 < unat (em_to_seg_id em) \<and> (unat (em_to_seg_id em) - 1) * S + unat (em_to_off em) = b \<and>
     unat (em_from_offset em) < S \<and> unat (em_to_off em) < S"

definition round_ready :: "world \<Rightarrow> byte list \<Rightarrow> wstate list \<Rightarrow> MdsEpochMetadata list \<Rightarrow> nat \<Rightarrow> bool" where
  "round_ready w s ps h n \<longleftrightarrow> wal_repr w s ps h n \<and> Suc (length h) < 2 ^ 56 \<and>
     unat (cf_writer_count (wal_config (w_wal w))) = length ps \<and>
     (\<forall>p \<in> set ps. near_rank (Suc (length h)) (ws_pieces p)) \<and>
     length s + length (bytes_of_epoch (Suc (length h)) ps [0..<length ps]) < (2 ^ 32 - 2) * seg_size w"

lemma copy_round_writers:
  assumes r: "round_ready w s ps h n"
  defines "e \<equiv> Suc (length h)" and "is \<equiv> [0..<length ps]"
  obtains w' where "flusher_copy_writers seen (epoch_at e) st is w = Ok () w'"
      "wal_repr w' (s @ bytes_of_epoch e ps (served seen is)) (drain e (served seen is) ps) h n"
      "flush_frame w w'"
    | err w' k w0 where "flusher_copy_writers seen (epoch_at e) st is w = blocked_outcome err w'"
      "flush_blocked os_durable w w0 (s @ take k (bytes_of_epoch e ps is)) err w'"
proof -
  have wr: "wal_repr w s ps h n" and b: "length s + length (bytes_of_epoch e ps is) < (2 ^ 32 - 2) * seg_size w"
    and near: "\<forall>i \<in> set is. i < length ps \<and> near_rank e (ws_pieces (ps ! i))"
    using r by (auto simp: round_ready_def e_def is_def)
  have o: "flush_open os_durable w s" "flush_open os_files w s" "writers_repr w ps" using wr by (simp_all add: wal_repr_def flush_open_def)
  have d: "distinct is" by (simp add: is_def)
  show thesis
  proof (cases rule: copy_writers [OF o(1) _ o(3) d near b, of seen st])
    case (2 w')
    show thesis
    proof (cases rule: copy_writers [OF o(2) _ o(3) d near b, of seen st])
      case (2 w'')
      with \<open>flusher_copy_writers seen (epoch_at e) st is w = Ok () w'\<close> have "w'' = w'" by simp
      then show thesis using that(1) [of w'] flush_wal_repr [OF wr] 2 \<open>flush_open os_durable w' _\<close> by (simp add: flush_open_def)
    next
      case (3 err w'' k w0)
      with \<open>flusher_copy_writers seen (epoch_at e) st is w = Ok () w'\<close> show thesis by (cases err) (simp_all add: blocked_outcome_def)
    qed simp
  next
    case (3 err w' k w0)
    then show thesis by (rule that(2))
  qed simp
qed

lemma main_loop_epochs:
  assumes "round_ready w s ps h n"
  shows "nvwal_increment_epoch (wal_durable_epoch (w_wal w)) = epoch_at (Suc (length h))"
    "epoch_at (Suc (length h)) = of_nat (Suc (length h))" "epoch_at (Suc (length h)) \<noteq> of_nat (length h)"
    "unat (cf_writer_count (wal_config (w_wal w))) = length ps"
proof -
  have len: "Suc (length h) < 2 ^ 56" "wal_durable_epoch (w_wal w) = of_nat (length h)" "unat (cf_writer_count (wal_config (w_wal w))) = length ps"
    using assms by (simp_all add: round_ready_def wal_repr_def)
  then have e: "epoch_at (length h) = of_nat (length h)" "epoch_at (Suc (length h)) = of_nat (Suc (length h))"
    by (simp_all add: epoch_at_small del: of_nat_Suc)
  have "epoch_at (Suc (length h)) = epoch_at (length h) \<longleftrightarrow> Suc (length h) = length h" by (rule epoch_at_eq) simp_all
  with e len increment_epoch_at [of "length h"] show "nvwal_increment_epoch (wal_durable_epoch (w_wal w)) = epoch_at (Suc (length h))"
    "epoch_at (Suc (length h)) = of_nat (Suc (length h))" "epoch_at (Suc (length h)) \<noteq> of_nat (length h)"
    "unat (cf_writer_count (wal_config (w_wal w))) = length ps" by simp_all
qed

lemma main_loop_stable:
  assumes r: "round_ready w s ps h n" and st: "wal_stable_epoch (w_wal w) = of_nat (Suc (length h))" and pm: "pmem_persist_spec pm"
  defines "e \<equiv> Suc (length h)" and "is \<equiv> [0..<length ps]"
  obtains w' em where "flusher_main_loop pm seen w = Ok () w'"
      "wal_repr w' (s @ bytes_of_epoch e ps (served seen is)) (drain e (served seen is) ps) (h @ [em]) (length s + length (bytes_of_epoch e ps (served seen is)))"
      "em_epoch_id em = of_nat e" "record_covers (seg_size w) em n (length s + length (bytes_of_epoch e ps (served seen is)))"
      "wal_stable_epoch (w_wal w') = of_nat e" "wal_config (w_wal w') = wal_config (w_wal w)"
    | err w' k w0 where "flusher_main_loop pm seen w = blocked_outcome err w'"
      "flush_blocked os_durable w w0 (s @ take k (bytes_of_epoch e ps is)) err w'"
proof -
  note ep = main_loop_epochs [OF r]
  have ms: "flusher_main_loop pm seen w =
      and_then (flusher_copy_writers seen (epoch_at e) True is w)
        (\<lambda>_ w. if epoch_at e \<noteq> wal_durable_epoch (w_wal w) then flusher_conclude_stable_epoch pm (epoch_at e) w else Ok () w)"
    unfolding e_def is_def using ep(1,4) st [folded ep(2)] by (simp add: flusher_main_loop_def Let_def)
  show thesis
  proof (cases rule: copy_round_writers [OF r, of seen True, folded e_def is_def])
    case (1 w1)
    let ?s = "s @ bytes_of_epoch e ps (served seen is)"
    have c: "wal_durable_epoch (w_wal w1) = of_nat (length h)" "Suc (length h) < 2 ^ 56" "flush_open os_durable w1 ?s" "head_at w1 n" "n \<le> length ?s"
      using 1(2) r by (simp_all add: wal_repr_def round_ready_def)
    note em = epoch_record_ends [OF c(3-5), of "epoch_at e"]
    obtain w2 where w2: "flusher_conclude_stable_epoch pm (epoch_at e) w1 = Ok () w2"
      "wal_repr w2 ?s (drain e (served seen is) ps) (h @ [epoch_record (epoch_at e) w1]) (length ?s)"
      "wal_stable_epoch (w_wal w2) = wal_stable_epoch (w_wal w1)" "wal_config (w_wal w2) = wal_config (w_wal w1)"
      using conclude_epoch [OF 1(2) pm c(2)] ep(2) unfolding e_def by blast
    have sz: "seg_size w1 = seg_size w" by (rule flush_frame_size(1) [OF 1(3)])
    have c0: "0 < cur_dsid w1" using c(3) by (auto simp: flush_open_def log_safe_def log_repr_def)
    show thesis
    proof (rule that(1))
      show "flusher_main_loop pm seen w = Ok () w2" using ms 1(1) w2(1) c(1) ep(3) by (simp add: e_def)
      show "wal_repr w2 ?s (drain e (served seen is) ps) (h @ [epoch_record (epoch_at e) w1]) (length s + length (bytes_of_epoch e ps (served seen is)))"
        using w2(2) by simp
      show "em_epoch_id (epoch_record (epoch_at e) w1) = of_nat e" using em(2) ep(2) by (simp add: e_def)
      show "record_covers (seg_size w) (epoch_record (epoch_at e) w1) n (length s + length (bytes_of_epoch e ps (served seen is)))"
        using em(1,3-6) sz c0 by (simp add: record_covers_def ends_here_def)
      show "wal_stable_epoch (w_wal w2) = of_nat e" using w2(3) st flush_frame_wal(6) [OF 1(3)] by (simp add: e_def)
      show "wal_config (w_wal w2) = wal_config (w_wal w)" using w2(4) flush_frame_wal(1) [OF 1(3)] by simp
    qed
  next
    case (2 err w' k w0)
    then show thesis using that(2) [of err w' w0 k] ms by (cases err) (simp_all add: blocked_outcome_def)
  qed
qed

lemma main_loop_early:
  assumes r: "round_ready w s ps h n" and st: "wal_stable_epoch (w_wal w) \<noteq> of_nat (Suc (length h))"
  defines "e \<equiv> Suc (length h)" and "is \<equiv> [0..<length ps]"
  obtains w' where "flusher_main_loop pm seen w = Ok () w'"
      "wal_repr w' (s @ bytes_of_epoch e ps (served seen is)) (drain e (served seen is) ps) h n"
      "wal_stable_epoch (w_wal w') = wal_stable_epoch (w_wal w)" "wal_config (w_wal w') = wal_config (w_wal w)"
    | err w' k w0 where "flusher_main_loop pm seen w = blocked_outcome err w'"
      "flush_blocked os_durable w w0 (s @ take k (bytes_of_epoch e ps is)) err w'"
proof -
  note ep = main_loop_epochs [OF r]
  have ms: "flusher_main_loop pm seen w = and_then (flusher_copy_writers seen (epoch_at e) False is w) (\<lambda>_ w. Ok () w)"
    unfolding e_def is_def using ep(1,4) st [folded ep(2)] by (simp add: flusher_main_loop_def Let_def)
  show thesis
  proof (cases rule: copy_round_writers [OF r, of seen False, folded e_def is_def])
    case (1 w1)
    then show thesis using that(1) [of w1] ms flush_frame_wal(1,6) [OF 1(3)] by simp
  next
    case (2 err w' k w0)
    then show thesis using that(2) [of err w' w0 k] ms by (cases err) (simp_all add: blocked_outcome_def)
  qed
qed

end
