(* ===== verification/Fsyncer_Correct.thy ===== *)
theory Fsyncer_Correct
  imports Fsyncer Conclude
begin

text \<open>
  The fsyncer takes the segments to disk in order. When it reports a segment as synced the file of the
  segment holds its bytes; when it fails, the error is recorded and the segment stays unsynced. No
  byte of the log is lost either way.
\<close>

section \<open>What the fsyncer's system calls change\<close>

text \<open>
  One file \<open>p\<close>, descriptors from \<open>n\<close> on, and that files exist durably; content that was durable
  elsewhere stays.
\<close>

definition disk_frame :: "addr \<Rightarrow> int \<Rightarrow> os \<Rightarrow> os \<Rightarrow> bool" where
  "disk_frame p n s t \<longleftrightarrow>
     (\<forall>q. q \<noteq> p \<longrightarrow> os_files t q = os_files s q) \<and>
     (\<forall>q c. q \<noteq> p \<longrightarrow> os_durable s q = Some c \<longrightarrow> os_durable t q = Some c) \<and>
     (\<forall>q. os_dirs t q = None \<longleftrightarrow> os_dirs s q = None) \<and>
     os_cblock t = os_cblock s \<and> os_cblock_durable t = os_cblock_durable s \<and>
     (\<forall>fd < n. os_fds t fd = os_fds s fd) \<and> os_next_fd s \<le> os_next_fd t \<and> (os_resp s = [] \<longrightarrow> os_resp t = [])"

lemma disk_frame_refl: "disk_frame p n s s"
  by (simp add: disk_frame_def)

lemma disk_frame_trans: "disk_frame p n s t \<Longrightarrow> disk_frame p n t u \<Longrightarrow> disk_frame p n s u"
  by (simp add: disk_frame_def)

lemma sys_next_disk: "sys_next s = (r, t) \<Longrightarrow> disk_frame p n s t"
  by (auto simp: sys_next_def disk_frame_def split: list.splits)

lemma sys_try_disk:
  assumes "sys_try s k = (r, t)" "\<And>u. disk_frame p n s u \<Longrightarrow> os_fds u = os_fds s \<Longrightarrow> os_files u = os_files s \<Longrightarrow> os_dirs u = os_dirs s \<Longrightarrow>
      os_durable u = os_durable s \<Longrightarrow> os_next_fd u = os_next_fd s \<Longrightarrow> disk_frame p n u (snd (k u))"
  shows "disk_frame p n s t"
proof -
  obtain a u where u: "sys_next s = (a, u)" by (cases "sys_next s")
  note f = sys_next_frame [OF u] and g = sys_next_disk [OF u, of p n]
  have "disk_frame p n u (snd (k u))" using assms(2) [OF g] f by blast
  then have "disk_frame p n s (snd (k u))" by (rule disk_frame_trans [OF g])
  with g show ?thesis using assms(1) u by (auto simp: sys_try_def split: option.splits sys_resp.splits)
qed

lemma sys_open_disk:
  assumes "sys_open q cr False False s = (r, t)" "cr \<Longrightarrow> q = p" "n \<le> os_next_fd s"
  shows "disk_frame p n s t"
    "r = Inr fd \<Longrightarrow> fd = os_next_fd s \<and> os_next_fd s < os_next_fd t \<and>
       os_fds t fd = Some \<lparr>fd_path = q, fd_append = False, fd_pos = 0\<rparr>"
    "r = Inr fd \<Longrightarrow> os_dirs s q = None \<Longrightarrow> os_files t q = Some (case os_files s q of None \<Rightarrow> [] | Some c \<Rightarrow> c)"
proof -
  show "disk_frame p n s t"
    by (rule sys_try_disk [OF assms(1) [unfolded sys_open_def]])
      (use assms(2,3) in \<open>auto simp: new_fd_def disk_frame_def split: option.splits\<close>)
  obtain a u where u: "sys_next s = (a, u)" by (cases "sys_next s")
  note f = sys_next_frame [OF u]
  show "r = Inr fd \<Longrightarrow> fd = os_next_fd s \<and> os_next_fd s < os_next_fd t \<and>
       os_fds t fd = Some \<lparr>fd_path = q, fd_append = False, fd_pos = 0\<rparr>"
    "r = Inr fd \<Longrightarrow> os_dirs s q = None \<Longrightarrow> os_files t q = Some (case os_files s q of None \<Rightarrow> [] | Some c \<Rightarrow> c)"
    using assms(1) u f
    by (auto simp: sys_open_def sys_try_def new_fd_def split: option.splits sys_resp.splits if_splits)
qed

lemma sys_close_disk: "n \<le> fd \<Longrightarrow> disk_frame p n s (snd (sys_close fd s))"
proof -
  assume "n \<le> fd"
  then have "disk_frame p n s (s\<lparr>os_fds := (os_fds s)(fd := None)\<rparr>)" by (simp add: disk_frame_def)
  moreover have "disk_frame p n (s\<lparr>os_fds := (os_fds s)(fd := None)\<rparr>) (snd (sys_close fd s))"
  proof (cases "sys_close fd s")
    case (Pair r t)
    then show ?thesis using sys_try_disk [OF Pair [unfolded sys_close_def], of p n] by (simp add: disk_frame_refl)
  qed
  ultimately show ?thesis by (rule disk_frame_trans)
qed

lemma sys_fsync_disk:
  assumes "os_fds s fd = Some d" "fd_path d = p \<or> os_dirs s (fd_path d) \<noteq> None"
  shows "disk_frame p n s (snd (sys_fsync fd s))"
proof (cases "sys_fsync fd s")
  case (Pair r t)
  have "disk_frame p n s t"
    by (rule sys_try_disk [OF Pair [unfolded sys_fsync_def]])
      (use assms in \<open>auto simp: disk_frame_def dir_durable_def split: option.splits\<close>)
  with Pair show ?thesis by simp
qed

lemma open_and_fsync_disk:
  assumes "os_dirs s q \<noteq> None" "n \<le> os_next_fd s" "0 < os_next_fd s"
  shows "case nvwal_open_and_fsync q s of Ok _ t \<Rightarrow> disk_frame p n s t | Fail e t \<Rightarrow> disk_frame p n s t | _ \<Rightarrow> False"
proof -
  obtain r t where o: "sys_open q False False False s = (r, t)" by (cases "sys_open q False False False s")
  note f = sys_open_disk [OF o _ assms(2), of p]
  show ?thesis
  proof (cases r)
    case (Inl e)
    then show ?thesis using o f by (simp add: nvwal_open_and_fsync_def)
  next
    case (Inr fd)
    then have fd: "fd = os_next_fd s" "os_fds t fd = Some \<lparr>fd_path = q, fd_append = False, fd_pos = 0\<rparr>" "fd \<noteq> 0" "n \<le> fd"
      using f(2) [OF _ Inr] assms(2,3) by auto
    have "os_dirs t q \<noteq> None" using f(1) assms(1) by (auto simp: disk_frame_def)
    then have "disk_frame p n t (snd (sys_fsync fd t))" using sys_fsync_disk [OF fd(2), of p n] by simp
    then have g: "disk_frame p n s (snd (sys_close fd (snd (sys_fsync fd t))))"
      using disk_frame_trans f(1) sys_close_disk [OF fd(4)] by blast
    show ?thesis using o Inr fd(3) g by (cases "sys_fsync fd t") (auto simp: nvwal_open_and_fsync_def c_assert_def split: sum.splits)
  qed
qed

section \<open>The write loop\<close>

lemma sys_write_at:
  assumes "os_fds s fd = Some d" "\<not> fd_append d" "fd_path d = p" "os_files s p = Some c" "fd_pos d \<le> length c" "n \<le> fd"
    and "sys_write fd bs s = (r, t)"
  shows "disk_frame p n s t"
    "r = Inr m \<Longrightarrow> m \<le> length bs \<and> os_fds t fd = Some (d\<lparr>fd_pos := fd_pos d + m\<rparr>) \<and>
       os_files t p = Some (take (fd_pos d) c @ take m bs @ drop (fd_pos d + m) c)"
    "r = Inl e \<Longrightarrow> os_resp s \<noteq> []"
proof -
  obtain a u where u: "sys_amount (length bs) s = (a, u)" by (cases "sys_amount (length bs) s")
  have f: "disk_frame p n s u" "os_files u = os_files s" "os_fds u = os_fds s"
    using sys_amount_frame [OF u] u
    by (auto simp: disk_frame_def os_rest_def sys_amount_def sys_next_def split: list.splits option.splits sys_resp.splits)
  show "disk_frame p n s t" "r = Inr m \<Longrightarrow> m \<le> length bs \<and> os_fds t fd = Some (d\<lparr>fd_pos := fd_pos d + m\<rparr>) \<and>
       os_files t p = Some (take (fd_pos d) c @ take m bs @ drop (fd_pos d + m) c)" "r = Inl e \<Longrightarrow> os_resp s \<noteq> []"
    using assms u f sys_amount_le [of "length bs" s m u]
    by (auto simp: sys_write_def fd_file_def Let_def disk_frame_def sys_amount_calm split: sum.splits)
qed

lemma overwrite_split:
  assumes "pos \<le> length c" "m \<le> length bs"
  shows "take (pos + m) (take pos c @ take m bs @ drop (pos + m) c) @ drop m bs @
           drop (pos + m + length (drop m bs)) (take pos c @ take m bs @ drop (pos + m) c)
         = take pos c @ bs @ drop (pos + length bs) c"
proof -
  let ?x = "take pos c @ take m bs"
  have l: "length ?x = pos + m" using assms by simp
  have "take (pos + m) (?x @ drop (pos + m) c) = ?x"
    "drop (pos + m + (length bs - m)) (?x @ drop (pos + m) c) = drop (length bs - m) (drop (pos + m) c)"
    using l by (metis append_eq_conv_conj, metis append_eq_conv_conj drop_drop add.commute)
  moreover have "drop (length bs - m) (drop (pos + m) c) = drop (pos + length bs) c" using assms(2) by (simp add: add.commute)
  moreover have "?x @ drop m bs = take pos c @ bs" by simp
  ultimately show ?thesis by (metis append_assoc length_drop)
qed

text \<open>All bytes are written, or an error is returned; the loop always ends.\<close>

lemma fsyncer_write_loop_disk:
  assumes "os_fds s fd = Some d" "\<not> fd_append d" "fd_path d = p" "os_files s p = Some c" "fd_pos d \<le> length c" "n \<le> fd"
  shows "case fsyncer_write_loop seen k fd bs s of
      Ok _ t \<Rightarrow> disk_frame p n s t \<and> os_files t p = Some (take (fd_pos d) c @ bs @ drop (fd_pos d + length bs) c) \<and>
                (\<exists>d'. os_fds t fd = Some d' \<and> fd_path d' = p)
    | Fail e t \<Rightarrow> disk_frame p n s t \<and> (os_resp s = [] \<longrightarrow> e = ETIMEDOUT)
    | _ \<Rightarrow> False"
  using assms
proof (induction seen k fd bs s arbitrary: c d rule: fsyncer_write_loop.induct)
  case (1 seen k fd bs s)
  show ?case
  proof (cases "bs = []")
    case True
    with 1(2-7) show ?thesis by (subst fsyncer_write_loop.simps) (simp add: disk_frame_refl)
  next
    case False
    obtain r t where r: "sys_write fd bs s = (r, t)" by (cases "sys_write fd bs s")
    note w = sys_write_at [OF 1(2-7) r]
    show ?thesis
    proof (cases r)
      case (Inl e)
      with r False w(1,3) show ?thesis by (subst fsyncer_write_loop.simps) simp
    next
      case (Inr m)
      let ?c = "take (fd_pos d) c @ take m bs @ drop (fd_pos d + m) c"
      note m = w(2) [OF Inr]
      show ?thesis
      proof (cases "seen k = kNvwalThreadStateRunningAndRequestedStop")
        case True
        with r Inr False w(1) show ?thesis by (subst fsyncer_write_loop.simps) simp
      next
        case go: False
        have eq: "fsyncer_write_loop seen k fd bs s = fsyncer_write_loop seen (Suc k) fd (drop m bs) t"
          using r Inr False go by (subst fsyncer_write_loop.simps) simp
        have pos: "fd_pos d + m \<le> length ?c" using m 1(6) by simp
        note IH = 1(1) [OF False r [symmetric] Inr go, of "d\<lparr>fd_pos := fd_pos d + m\<rparr>" ?c]
        have content: "take (fd_pos d + m) ?c @ drop m bs @ drop (fd_pos d + m + length (drop m bs)) ?c
            = take (fd_pos d) c @ bs @ drop (fd_pos d + length bs) c"
          using overwrite_split [OF 1(6), of m bs] m by simp
        have rs: "os_resp s = [] \<longrightarrow> os_resp t = []" using w(1) by (simp add: disk_frame_def)
        show ?thesis
          unfolding eq using IH m 1(3,4) pos 1(7) content rs disk_frame_trans [OF w(1)]
          by (auto split: outcome.splits)
      qed
    qed
  qed
qed

section \<open>Syncing one segment\<close>

definition sync_index :: "world \<Rightarrow> nat" where
  "sync_index w = last_synced w mod seg_count w"

definition sync_failed :: "nat \<Rightarrow> errno \<Rightarrow> os \<Rightarrow> world \<Rightarrow> world" where
  "sync_failed i e t w = set_segment i (\<lambda>g. g\<lparr>sg_fsync_error := Some e\<rparr>) (w\<lparr>w_os := t\<rparr>)"

definition synced :: "pmem \<Rightarrow> addr \<Rightarrow> nat \<Rightarrow> os \<Rightarrow> world \<Rightarrow> world" where
  "synced pm cb i t w =
     set_segment i (\<lambda>g. g\<lparr>sg_fsync_error := None, sg_fsync_completed := True\<rparr>)
       (w\<lparr>w_os := store_last_synced_dsid pm cb (sg_dsid (wal_segments (w_wal w) ! i)) t\<rparr>)"

lemma sys_fsync_files: "os_files (snd (sys_fsync fd s)) = os_files s"
proof -
  obtain a u where "sys_next s = (a, u)" by (cases "sys_next s")
  with sys_next_frame [OF this] show ?thesis
    by (auto simp: sys_fsync_def sys_try_def split: option.splits sys_resp.splits)
qed

lemma sys_fsync_calm:
  assumes "os_resp s = []" "os_fds s fd = Some d" "os_dirs s (fd_path d) = None" "os_files s (fd_path d) = Some c"
  shows "os_durable (snd (sys_fsync fd s)) (fd_path d) = Some c"
  using assms by (simp add: sys_fsync_def os_simps)

text \<open>The tail of the function: fsync, close, fsync of the folder; errors of these are ignored.\<close>

lemma sync_tail:
  assumes fd: "os_fds s fd = Some d" "fd_path d = p" "os_dirs s p = None" "n \<le> fd" "n \<le> os_next_fd s" "0 < os_next_fd s"
    and root: "os_dirs s root \<noteq> None" and c: "os_files s p = Some c"
  shows "\<exists>t. ignore_error (lift_outcome set_os (nvwal_open_and_fsync root (snd (sys_close fd (snd (sys_fsync fd s))))) w) = Ok () (w\<lparr>w_os := t\<rparr>) \<and>
           disk_frame p n s t \<and> os_files t p = Some c \<and> (os_resp s = [] \<longrightarrow> os_durable t p = Some c)"
proof -
  let ?u = "snd (sys_fsync fd s)" and ?q = "p @ ''x''"
  let ?v = "snd (sys_close fd ?u)"
  have q: "p \<noteq> ?q" by simp
  have f1: "disk_frame p n s ?u" by (rule sys_fsync_disk [OF fd(1)]) (use fd in simp)
  note f2 = sys_close_disk [OF fd(4)]
  have v: "os_dirs ?v root \<noteq> None" "n \<le> os_next_fd ?v" "0 < os_next_fd ?v"
    using disk_frame_trans [OF f1 f2] root fd(5,6) by (auto simp: disk_frame_def)
  note f3 = open_and_fsync_disk [OF v]
  obtain t where t: "ignore_error (lift_outcome set_os (nvwal_open_and_fsync root ?v) w) = Ok () (w\<lparr>w_os := t\<rparr>)"
    "disk_frame p n ?v t" "disk_frame ?q n ?v t"
    using f3 [of p] f3 [of ?q] by (cases "nvwal_open_and_fsync root ?v") auto
  have g: "disk_frame ?q n ?u t" by (rule disk_frame_trans [OF f2 t(3)])
  have "os_files t p = os_files s p" using g q sys_fsync_files by (simp add: disk_frame_def)
  moreover have "os_durable ?u p = Some c" if "os_resp s = []" using sys_fsync_calm [OF that fd(1)] fd(2,3) c by simp
  then have "os_resp s = [] \<longrightarrow> os_durable t p = Some c" using g q by (simp add: disk_frame_def)
  ultimately show ?thesis
    using t(1) c disk_frame_trans [OF f1 disk_frame_trans [OF f2 t(2)]] by auto
qed

text \<open>The segment the fsyncer looks at, when the flusher handed it over.\<close>

lemma sync_segment:
  assumes r: "log_safe view w s" and req: "sg_fsync_requested (wal_segments (w_wal w) ! sync_index w)"
  shows "sync_index w < seg_count w" "sync_index w < length (wal_segments (w_wal w))"
    "unat (sg_dsid (wal_segments (w_wal w) ! sync_index w)) = Suc (last_synced w)" "Suc (last_synced w) < cur_dsid w"
    "\<not> sg_fsync_completed (wal_segments (w_wal w) ! sync_index w)"
proof -
  note l = log_safeD(1) [OF r]
  have lt: "last_synced w < cur_dsid w" using r by (simp add: log_safe_def)
  have ws: "sync_index w < seg_count w" "unat (sg_dsid (wal_segments (w_wal w) ! sync_index w)) = Suc (last_synced w)"
    using window_segment [OF r lessI] lt by (simp_all add: sync_index_def)
  then show "sync_index w < seg_count w" "unat (sg_dsid (wal_segments (w_wal w) ! sync_index w)) = Suc (last_synced w)" by simp_all
  show "sync_index w < length (wal_segments (w_wal w))" using ws(1) l by (simp add: log_repr_def)
  show "\<not> sg_fsync_completed (wal_segments (w_wal w) ! sync_index w)" using r ws by (simp add: log_safe_def)
  show "Suc (last_synced w) < cur_dsid w"
    using seg_okD [OF l ws(1)] ws(2) req by (cases "Suc (last_synced w) < cur_dsid w") (simp_all add: seg_ok_def Let_def not_less)
qed

lemma sync_one:
  assumes r: "log_safe view w s" and ready: "disk_ready w" and cb: "wal_nv_control_block (w_wal w) = Some cb"
    and req: "sg_fsync_requested (wal_segments (w_wal w) ! sync_index w)"
  obtains p t where "nvwal_construct_disk_segment_path (w_wal w) (of_nat (Suc (last_synced w))) = Some p"
      "fsyncer_sync_one_segment_to_disk pm seen (sync_index w) w = Ok () (synced pm cb (sync_index w) t w)"
      "disk_frame p (os_next_fd (w_os w)) (w_os w) t" "\<exists>c. os_files t p = Some c \<and> take (seg_size w) c = log_slice (seg_size w) (Suc (last_synced w)) s \<and>
         (os_resp (w_os w) = [] \<longrightarrow> os_durable t p = Some c)"
    | p t e where "nvwal_construct_disk_segment_path (w_wal w) (of_nat (Suc (last_synced w))) = Some p"
      "fsyncer_sync_one_segment_to_disk pm seen (sync_index w) w = Fail e (sync_failed (sync_index w) e t w)"
      "disk_frame p (os_next_fd (w_os w)) (w_os w) t"
proof -
  note l = log_safeD(1) [OF r] and i = sync_segment [OF r req]
  let ?i = "sync_index w" and ?L = "last_synced w" and ?n = "os_next_fd (w_os w)" and ?S = "seg_size w"
  let ?g = "wal_segments (w_wal w) ! ?i" and ?w0 = "set_segment ?i (\<lambda>g. g\<lparr>sg_fsync_error := None\<rparr>) w"
  have d: "sg_dsid ?g = of_nat (Suc ?L)" using i(3) by (metis of_nat_unat ucast_id)
  have dn: "(of_nat (Suc ?L) :: u64) \<noteq> 0" using i(3) d by (metis nat.distinct(1) unat_0)
  obtain p where p: "nvwal_construct_disk_segment_path (w_wal w) (of_nat (Suc ?L)) = Some p"
    using log_safeD(2) [OF r] by (auto simp: disk_names_ok_def nvwal_construct_disk_segment_path_def)
  have p0: "nvwal_construct_disk_segment_path (w_wal ?w0) (of_nat (Suc ?L)) = Some p"
    using p disk_path_cong [of "w_wal ?w0" "w_wal w"] by (simp add: world_simps)
  obtain b where b: "sg_nv_baseaddr (wal_segments (w_wal w) ! ((Suc ?L - 1) mod seg_count w)) = Some b"
    "length (mapped b (w_os w)) = ?S" "(Suc ?L - 1) * ?S + seg_fill w (Suc ?L) \<le> length s"
    "\<And>k. k < seg_fill w (Suc ?L) \<Longrightarrow> mapped b (w_os w) ! k = s ! ((Suc ?L - 1) * ?S + k)"
    using segment_content [OF r lessI less_imp_le [OF i(4)]] by metis
  have fill: "seg_fill w (Suc ?L) = ?S" using i(4) by (simp add: seg_fill_def)
  have base: "sg_nv_baseaddr ?g = Some b" using b(1) by (simp add: sync_index_def)
  have slice: "mapped b (w_os w) = log_slice ?S (Suc ?L) s"
    using b(2-4) fill by (intro nth_equalityI) (simp_all add: log_slice_def)
  have bp: "b \<noteq> p" using log_safeD(2) [OF r] base i(1) p by (auto simp: disk_names_ok_def seg_bases_def image_iff)
  have rd: "os_dirs (w_os w) (c_string (cf_disk_root (wal_config (w_wal w)))) \<noteq> None" "os_dirs (w_os w) p = None" "0 < ?n"
    using ready p by (auto simp: disk_ready_def)
  obtain ro t0 where o: "sys_open p True False False (w_os w) = (ro, t0)" by (cases "sys_open p True False False (w_os w)")
  note f0 = sys_open_disk [OF o refl order_refl]
  show thesis
  proof (cases ro)
    case (Inl e)
    then have "fsyncer_sync_one_segment_to_disk pm seen ?i w = Fail e (sync_failed ?i e t0 w)"
      using i(2,5) d o p0 base dn
      by (simp add: fsyncer_sync_one_segment_to_disk_def Let_def world_simps sync_failed_def set_segment_def del: of_nat_Suc)
    with p f0(1) that(2) show thesis by blast
  next
    case (Inr fd)
    note fd = f0(2) [OF Inr] and fc = f0(3) [OF Inr rd(2)]
    have m0: "mapped b t0 = mapped b (w_os w)" using f0(1) bp by (simp add: disk_frame_def mapped_def)
    let ?bs = "mem_read (mapped b t0) 0 ?S" and ?root = "c_string (cf_disk_root (wal_config (w_wal w)))"
    have bs: "?bs = log_slice ?S (Suc ?L) s" "length ?bs = ?S" using m0 slice b(2) by (simp_all add: mem_read_def)
    let ?d = "\<lparr>fd_path = p, fd_append = False, fd_pos = 0\<rparr>" and ?c = "case os_files (w_os w) p of None \<Rightarrow> [] | Some c \<Rightarrow> c"
    have fd': "fd = ?n" "os_fds t0 fd = Some ?d" "fd \<noteq> 0" "?n \<le> fd" using fd rd(3) by auto
    have wl: "case fsyncer_write_loop seen 0 fd ?bs t0 of
        Ok _ t \<Rightarrow> disk_frame p ?n t0 t \<and> os_files t p = Some (?bs @ drop ?S ?c) \<and> (\<exists>d'. os_fds t fd = Some d' \<and> fd_path d' = p)
      | Fail e t \<Rightarrow> disk_frame p ?n t0 t \<and> (os_resp t0 = [] \<longrightarrow> e = ETIMEDOUT) | _ \<Rightarrow> False"
      using fsyncer_write_loop_disk [OF fd'(2) _ _ fc _ fd'(4), where seen = seen and k = 0 and bs = ?bs] bs(2)
      by (simp cong: outcome.case_cong)
    have run: "fsyncer_sync_one_segment_to_disk pm seen ?i w =
        (case fsyncer_write_loop seen 0 fd ?bs t0 of
           Fail e s \<Rightarrow> Fail e (set_segment ?i (\<lambda>g. g\<lparr>sg_fsync_error := Some e\<rparr>) (set_os (snd (sys_close fd s)) ?w0))
         | Abort \<Rightarrow> Abort | Spin s \<Rightarrow> Spin (set_os s ?w0)
         | Ok _ s \<Rightarrow>
             and_then (ignore_error (lift_outcome set_os (nvwal_open_and_fsync ?root (snd (sys_close fd (snd (sys_fsync fd s))))) ?w0)) (\<lambda>_ w.
               let w = set_segment ?i (\<lambda>g. g\<lparr>sg_fsync_completed := True\<rparr>) w
               in with_cblock w (\<lambda>p cb. c_assert (of_nat (Suc ?L) > sp_last_synced_dsid (cb_fsyncer_progress cb))
                    (Ok () (set_os (store_last_synced_dsid pm p (of_nat (Suc ?L)) (w_os w)) w)))))"
      using i(2,5) d dn o Inr p0 base fd'(3) m0 b(2)
      unfolding fsyncer_sync_one_segment_to_disk_def Let_def
      by (simp add: world_simps seg_size_def del: of_nat_Suc cong: outcome.case_cong)
    show thesis
    proof (cases "fsyncer_write_loop seen 0 fd ?bs t0")
      case (Ok a t1)
      then obtain d' where t1: "disk_frame p ?n t0 t1" "os_files t1 p = Some (?bs @ drop ?S ?c)" "os_fds t1 fd = Some d'" "fd_path d' = p"
        using wl by auto
      have g1: "disk_frame p ?n (w_os w) t1" by (rule disk_frame_trans [OF f0(1) t1(1)])
      then have g1': "os_dirs t1 p = None" "?n \<le> os_next_fd t1" "0 < os_next_fd t1" "os_dirs t1 ?root \<noteq> None"
        using rd by (auto simp: disk_frame_def)
      obtain t where t: "ignore_error (lift_outcome set_os (nvwal_open_and_fsync ?root (snd (sys_close fd (snd (sys_fsync fd t1))))) ?w0) = Ok () (?w0\<lparr>w_os := t\<rparr>)"
        "disk_frame p ?n t1 t" "os_files t p = Some (?bs @ drop ?S ?c)" "os_resp t1 = [] \<longrightarrow> os_durable t p = Some (?bs @ drop ?S ?c)"
        using sync_tail [OF t1(3,4) g1'(1) fd'(4) g1'(2,3,4) t1(2)] by blast
      have ft: "disk_frame p ?n (w_os w) t" by (rule disk_frame_trans [OF g1 t(2)])
      have ls: "sp_last_synced_dsid (cb_fsyncer_progress (os_cblock t cb)) < of_nat (Suc ?L)"
      proof -
        have "unat (of_nat (Suc ?L) :: u64) = Suc ?L" using i(3) d by simp
        then show ?thesis using ft cb by (simp add: word_less_nat_alt last_synced_def disk_frame_def del: of_nat_Suc)
      qed
      have "fsyncer_sync_one_segment_to_disk pm seen ?i w = Ok () (synced pm cb ?i t w)"
        using run Ok t(1) ls cb i(2) d
        by (simp add: with_cblock_def world_simps synced_def del: of_nat_Suc) (simp add: set_segment_def Let_def del: of_nat_Suc)
      moreover have "os_resp (w_os w) = [] \<longrightarrow> os_resp t1 = []" using g1 by (simp add: disk_frame_def)
      ultimately show thesis using that(1) [OF p _ ft] t(3,4) bs by auto
    next
      case (Fail e t1)
      have "disk_frame p ?n (w_os w) (snd (sys_close fd t1))"
        using disk_frame_trans [OF f0(1)] disk_frame_trans wl Fail sys_close_disk [OF fd'(4)] by auto
      moreover have "fsyncer_sync_one_segment_to_disk pm seen ?i w = Fail e (sync_failed ?i e (snd (sys_close fd t1)) w)"
        using run Fail i(2) by (simp add: sync_failed_def set_segment_def Let_def)
      ultimately show thesis using that(2) p by blast
    qed (use wl in simp_all)
  qed
qed

section \<open>The log after a sync\<close>

text \<open>Only flags of a full segment and files other than the segments' memory change.\<close>

definition flagged :: "nat \<Rightarrow> errno option \<Rightarrow> bool \<Rightarrow> os \<Rightarrow> world \<Rightarrow> world" where
  "flagged i e c t w = set_segment i (\<lambda>g. g\<lparr>sg_fsync_error := e, sg_fsync_completed := c\<rparr>) (w\<lparr>w_os := t\<rparr>)"

lemma flagged_fields [world_simps]:
  "w_os (flagged i e c t w) = t" "wal_config (w_wal (flagged i e c t w)) = wal_config (w_wal w)"
  "wal_segment_count (w_wal (flagged i e c t w)) = wal_segment_count (w_wal w)"
  "wal_writers (w_wal (flagged i e c t w)) = wal_writers (w_wal w)" "wal_mds (w_wal (flagged i e c t w)) = wal_mds (w_wal w)"
  "wal_nv_control_block (w_wal (flagged i e c t w)) = wal_nv_control_block (w_wal w)"
  "wal_durable_epoch (w_wal (flagged i e c t w)) = wal_durable_epoch (w_wal w)"
  "wal_stable_epoch (w_wal (flagged i e c t w)) = wal_stable_epoch (w_wal w)"
  "wal_flusher_current_epoch_head_dsid (w_wal (flagged i e c t w)) = wal_flusher_current_epoch_head_dsid (w_wal w)"
  "wal_flusher_current_epoch_head_offset (w_wal (flagged i e c t w)) = wal_flusher_current_epoch_head_offset (w_wal w)"
  "seg_size (flagged i e c t w) = seg_size w" "seg_count (flagged i e c t w) = seg_count w" "cur_dsid (flagged i e c t w) = cur_dsid w"
  "cur_index (flagged i e c t w) = cur_index w"
  "length (wal_segments (w_wal (flagged i e c t w))) = length (wal_segments (w_wal w))"
  by (simp_all add: flagged_def set_segment_def Let_def seg_size_def seg_count_def cur_dsid_def cur_index_def)

lemma flagged_seg:
  assumes "i < length (wal_segments (w_wal w))"
  shows "wal_segments (w_wal (flagged i e c t w)) ! j =
           (if j = i then (wal_segments (w_wal w) ! i)\<lparr>sg_fsync_error := e, sg_fsync_completed := c\<rparr> else wal_segments (w_wal w) ! j)"
    "sg_nv_baseaddr (wal_segments (w_wal (flagged i e c t w)) ! j) = sg_nv_baseaddr (wal_segments (w_wal w) ! j)"
    "sg_dsid (wal_segments (w_wal (flagged i e c t w)) ! j) = sg_dsid (wal_segments (w_wal w) ! j)"
    "seg_bases (flagged i e c t w) = seg_bases w" "cur_written (flagged i e c t w) = cur_written w"
proof -
  show a: "wal_segments (w_wal (flagged i e c t w)) ! j =
           (if j = i then (wal_segments (w_wal w) ! i)\<lparr>sg_fsync_error := e, sg_fsync_completed := c\<rparr> else wal_segments (w_wal w) ! j)" for j
    using assms by (simp add: flagged_def set_segment_def Let_def nth_list_update)
  show b: "sg_nv_baseaddr (wal_segments (w_wal (flagged i e c t w)) ! j) = sg_nv_baseaddr (wal_segments (w_wal w) ! j)" for j by (simp add: a)
  show "sg_dsid (wal_segments (w_wal (flagged i e c t w)) ! j) = sg_dsid (wal_segments (w_wal w) ! j)" by (simp add: a)
  show "seg_bases (flagged i e c t w) = seg_bases w" by (simp add: seg_bases_def world_simps b)
  show "cur_written (flagged i e c t w) = cur_written w" by (simp add: cur_written_def world_simps a)
qed

lemma base_in: "sg_nv_baseaddr (wal_segments (w_wal w) ! j) = Some p \<Longrightarrow> j < seg_count w \<Longrightarrow> p \<in> seg_bases w"
  by (auto simp: seg_bases_def)

lemma seg_ok_flags:
  "unat (sg_dsid g) < cur \<Longrightarrow> seg_ok S N cur t s j (g\<lparr>sg_fsync_error := e, sg_fsync_completed := c\<rparr>) = seg_ok S N cur t s j g"
  by (simp add: seg_ok_def Let_def cong: option.case_cong)

lemma flagged_repr:
  assumes l: "log_repr w s" and i: "i < seg_count w" "unat (sg_dsid (wal_segments (w_wal w) ! i)) < cur_dsid w"
    and f: "\<And>p. p \<in> seg_bases w \<Longrightarrow> os_files t p = os_files (w_os w) p"
  shows "log_repr (flagged i e c t w) s"
proof -
  let ?w = "flagged i e c t w"
  have il: "i < length (wal_segments (w_wal w))" using i(1) l by (simp add: log_repr_def)
  note fs = flagged_seg [OF il]
  have "seg_ok (seg_size w) (seg_count w) (cur_dsid w) t s j (wal_segments (w_wal ?w) ! j)" if j: "j < seg_count w" for j
  proof -
    have "seg_ok (seg_size w) (seg_count w) (cur_dsid w) t s j (wal_segments (w_wal w) ! j)"
      by (rule seg_ok_os [OF seg_okD [OF l j]]) (simp add: mapped_def f [OF base_in [OF _ j]])
    then show ?thesis using i(2) unfolding fs(1) by (cases "j = i") (simp_all add: seg_ok_flags)
  qed
  then show ?thesis using l unfolding log_repr_def world_simps fs(2) by blast
qed

lemma disk_base_frame:
  assumes "disk_names_ok w" "disk_frame p n (w_os w) t" "nvwal_construct_disk_segment_path (w_wal w) d = Some p" "q \<in> seg_bases w"
  shows "os_files t q = os_files (w_os w) q" "q \<noteq> p"
proof -
  show "q \<noteq> p" using assms(1,3,4) by (metis disk_names_ok_def image_eqI)
  then show "os_files t q = os_files (w_os w) q" using assms(2) by (simp add: disk_frame_def)
qed

text \<open>Segments synced earlier are in other files.\<close>

lemma on_disk_keep:
  assumes r: "log_safe view w s" and view: "view = os_files \<or> view = os_durable"
    and p: "nvwal_construct_disk_segment_path (w_wal w) (of_nat (Suc (last_synced w))) = Some p"
    and f: "disk_frame p n (w_os w) t" and d: "0 < d" "d \<le> last_synced w"
    and w': "wal_config (w_wal w') = wal_config (w_wal w)" "w_os w' = t"
  shows "on_disk view w' s d"
proof -
  have names: "disk_names_ok w" and o: "on_disk view w s d" using r d by (simp_all add: log_safe_def)
  have lim: "cur_dsid w < 2 ^ 32" "last_synced w < cur_dsid w" using r by (simp_all add: log_safe_def log_repr_def)
  have u: "unat (of_nat d :: u64) = d" "unat (of_nat (Suc (last_synced w)) :: u64) = Suc (last_synced w)"
    using lim d(2) by (simp_all del: of_nat_Suc add: unat_of_nat_small)
  obtain q c where q: "nvwal_construct_disk_segment_path (w_wal w) (of_nat d) = Some q" "view (w_os w) q = Some c"
    "take (seg_size w) c = log_slice (seg_size w) d s" using o by (auto simp: on_disk_def split: option.splits)
  have "q \<noteq> p"
  proof
    assume "q = p"
    then have "(of_nat d :: u64) = of_nat (Suc (last_synced w))"
      using names u lim d(2) p q(1) by (intro disk_segment_path_inj [of "w_wal w"]) (auto simp: disk_names_ok_def simp del: of_nat_Suc)
    then show False using u d(2) by (metis Suc_n_not_le_n)
  qed
  then have "view t q = Some c" using f q(2) view by (auto simp: disk_frame_def)
  with q w' show ?thesis by (simp add: on_disk_def seg_size_def disk_path_cong [of "w_wal w'" "w_wal w"])
qed

lemma synced_safe:
  assumes r: "log_safe view w s" and view: "view = os_files \<or> view = os_durable" and cb: "wal_nv_control_block (w_wal w) = Some cb"
    and req: "sg_fsync_requested (wal_segments (w_wal w) ! sync_index w)"
    and p: "nvwal_construct_disk_segment_path (w_wal w) (of_nat (Suc (last_synced w))) = Some p"
    and f: "disk_frame p n (w_os w) t" and c: "view t p = Some c" "take (seg_size w) c = log_slice (seg_size w) (Suc (last_synced w)) s"
  shows "log_safe view (synced pm cb (sync_index w) t w) s" "last_synced (synced pm cb (sync_index w) t w) = Suc (last_synced w)"
proof -
  let ?i = "sync_index w" and ?L = "last_synced w"
  let ?t = "store_last_synced_dsid pm cb (sg_dsid (wal_segments (w_wal w) ! ?i)) t"
  note i = sync_segment [OF r req]
  have eq: "synced pm cb ?i t w = flagged ?i None True ?t w" by (simp add: synced_def flagged_def)
  let ?w = "flagged ?i None True ?t w"
  note fs = flagged_seg [OF i(2)]
  have ft: "disk_frame p n (w_os w) (?t\<lparr>os_cblock := os_cblock (w_os w), os_cblock_durable := os_cblock_durable (w_os w)\<rparr>)"
    using f by (simp add: disk_frame_def store_last_synced_dsid_def)
  have vt: "view ?t = view t" using view by (auto simp: store_last_synced_dsid_def)
  have L: "last_synced ?w = Suc ?L"
    using cb i(3) by (simp add: last_synced_def world_simps store_last_synced_dsid_def)
  have repr: "log_repr ?w s"
    using i(1,3,4) disk_base_frame [OF log_safeD(2) [OF r] f p]
    by (intro flagged_repr [OF log_safeD(1) [OF r]]) (simp_all add: store_last_synced_dsid_def)
  have names: "disk_names_ok ?w" using log_safeD(2) [OF r] disk_names_cong [of ?w w] fs(4) by (simp add: world_simps)
  have flags: "sg_fsync_completed (wal_segments (w_wal ?w) ! j) = (unat (sg_dsid (wal_segments (w_wal ?w) ! j)) \<le> Suc ?L)"
    if j: "j < seg_count w" for j
  proof (cases "j = ?i")
    case True
    then show ?thesis using i(3) by (simp add: fs(1))
  next
    case False
    have "unat (sg_dsid (wal_segments (w_wal w) ! j)) \<noteq> Suc ?L"
      using seg_okD [OF log_safeD(1) [OF r] j] False by (auto simp: seg_ok_def Let_def sync_index_def)
    moreover have "sg_fsync_completed (wal_segments (w_wal w) ! j) = (unat (sg_dsid (wal_segments (w_wal w) ! j)) \<le> ?L)"
      using r j by (simp add: log_safe_def)
    ultimately show ?thesis using False by (auto simp: fs(1))
  qed
  have new: "on_disk view ?w s (Suc ?L)"
    using p c vt by (simp add: on_disk_def world_simps disk_path_cong [of "w_wal ?w" "w_wal w"] del: of_nat_Suc)
  have old: "on_disk view ?w s d" if "0 < d" "d \<le> ?L" for d
  proof -
    have "on_disk view (flagged ?i None True (?t\<lparr>os_cblock := os_cblock (w_os w), os_cblock_durable := os_cblock_durable (w_os w)\<rparr>) w) s d"
      by (rule on_disk_keep [OF r view p ft that]) (simp_all add: world_simps)
    then show ?thesis using view by (auto simp: on_disk_def world_simps disk_path_cong [of "w_wal (flagged _ _ _ _ w)" "w_wal w"] split: option.splits)
  qed
  have dsids: "unat (sg_dsid (wal_segments (w_wal ?w) ! j)) \<le> Suc ?L + seg_count w" if "j < seg_count w" for j
    using r that fs(3) by (simp add: log_safe_def le_SucI)
  show "last_synced (synced pm cb ?i t w) = Suc ?L" unfolding eq by (rule L)
  show "log_safe view (synced pm cb ?i t w) s"
    unfolding eq log_safe_def L using repr names i(4) flags new old dsids by (auto simp: world_simps le_Suc_eq)
qed

lemma set_segment_cong:
  "f (wal_segments (w_wal w) ! i) = g (wal_segments (w_wal w) ! i) \<Longrightarrow> set_segment i f w = set_segment i g w"
  by (simp add: set_segment_def Let_def)

lemma sync_failed_flagged:
  "\<not> sg_fsync_completed (wal_segments (w_wal w) ! i) \<Longrightarrow> sync_failed i e t w = flagged i (Some e) False t w"
  unfolding sync_failed_def flagged_def
  by (rule set_segment_cong) (cases "wal_segments (w_wal w) ! i"; simp)

lemma failed_safe:
  assumes r: "log_safe view w s" and view: "view = os_files \<or> view = os_durable"
    and req: "sg_fsync_requested (wal_segments (w_wal w) ! sync_index w)"
    and p: "nvwal_construct_disk_segment_path (w_wal w) (of_nat (Suc (last_synced w))) = Some p" and f: "disk_frame p n (w_os w) t"
  shows "log_safe view (sync_failed (sync_index w) e t w) s" "last_synced (sync_failed (sync_index w) e t w) = last_synced w"
proof -
  let ?i = "sync_index w"
  note i = sync_segment [OF r req]
  have eq: "sync_failed ?i e t w = flagged ?i (Some e) False t w" by (rule sync_failed_flagged [OF i(5)])
  let ?w = "flagged ?i (Some e) False t w"
  note fs = flagged_seg [OF i(2)]
  have L: "last_synced ?w = last_synced w" using f by (simp add: last_synced_def world_simps disk_frame_def cong: option.case_cong)
  have repr: "log_repr ?w s"
    using i(1,3,4) disk_base_frame [OF log_safeD(2) [OF r] f p] by (intro flagged_repr [OF log_safeD(1) [OF r]]) simp_all
  have names: "disk_names_ok ?w" using log_safeD(2) [OF r] disk_names_cong [of ?w w] fs(4) by (simp add: world_simps)
  have old: "on_disk view ?w s d" if "0 < d" "d \<le> last_synced w" for d
    by (rule on_disk_keep [OF r view p f that]) (simp_all add: world_simps)
  have flags: "sg_fsync_completed (wal_segments (w_wal ?w) ! j) = sg_fsync_completed (wal_segments (w_wal w) ! j)" for j
    using i(5) by (simp add: fs(1))
  show "last_synced (sync_failed ?i e t w) = last_synced w" unfolding eq by (rule L)
  show "log_safe view (sync_failed ?i e t w) s"
    using r unfolding eq log_safe_def L world_simps flags fs(3) using repr names old by simp
qed

section \<open>The whole state after a sync\<close>

text \<open>The operating system after a sync, without the fsyncer's own word of the control block.\<close>

definition disk_step :: "addr \<Rightarrow> world \<Rightarrow> os \<Rightarrow> bool" where
  "disk_step p w t \<longleftrightarrow>
     disk_frame p (os_next_fd (w_os w)) (w_os w) (t\<lparr>os_cblock := os_cblock (w_os w), os_cblock_durable := os_cblock_durable (w_os w)\<rparr>) \<and>
     (\<forall>cb. cb_flusher_progress (os_cblock t cb) = cb_flusher_progress (os_cblock (w_os w) cb) \<and>
        cb_flusher_progress (os_cblock_durable t cb) = cb_flusher_progress (os_cblock_durable (w_os w) cb) \<and>
        (cb_fsyncer_progress (os_cblock_durable (w_os w) cb) = cb_fsyncer_progress (os_cblock (w_os w) cb) \<longrightarrow>
         cb_fsyncer_progress (os_cblock_durable t cb) = cb_fsyncer_progress (os_cblock t cb)))"

lemma disk_step_os:
  assumes "disk_step p w t"
  shows "q \<noteq> p \<Longrightarrow> os_files t q = os_files (w_os w) q" "q \<noteq> p \<Longrightarrow> os_durable (w_os w) q = Some c \<Longrightarrow> os_durable t q = Some c"
    "os_dirs t q = None \<longleftrightarrow> os_dirs (w_os w) q = None" "fd < os_next_fd (w_os w) \<Longrightarrow> os_fds t fd = os_fds (w_os w) fd"
    "os_next_fd (w_os w) \<le> os_next_fd t" "os_resp (w_os w) = [] \<Longrightarrow> os_resp t = []"
  using assms by (simp_all add: disk_step_def disk_frame_def)

lemma disk_frame_step:
  assumes "disk_frame p (os_next_fd (w_os w)) (w_os w) t"
  shows "disk_step p w t" "pmem_persist_spec pm \<Longrightarrow> disk_step p w (store_last_synced_dsid pm cb d t)"
  using assms by (simp_all add: disk_step_def disk_frame_def store_last_synced_dsid_def)

lemma mds_files_durable:
  assumes "mds_repr w h"
  shows "\<exists>c. os_durable (w_os w) (mds_page_file_path (w_wal w) 0) = Some c" "\<exists>c. os_durable (w_os w) (mds_buffer_path (w_wal w) 0) = Some c"
    "os_resp (w_os w) = []"
proof -
  obtain q pe pf d b p cb where "mds_core w h q pe pf d b p cb" using assms by (auto simp: mds_repr_def split: if_splits)
  then show "\<exists>c. os_durable (w_os w) (mds_page_file_path (w_wal w) 0) = Some c" "\<exists>c. os_durable (w_os w) (mds_buffer_path (w_wal w) 0) = Some c"
    "os_resp (w_os w) = []"
    by (auto simp: mds_core_def mds_at_def mds_paths_def buffer_holds_def split: option.splits)
qed

lemma disk_step_mds:
  assumes e: "wal_env w" and m: "mds_repr w h" and p: "nvwal_construct_disk_segment_path (w_wal w) d = Some p" and f: "disk_step p w t"
  shows "mds_repr (flagged i x c t w) h"
proof (rule mds_repr_transfer [OF _ m])
  let ?w = "flagged i x c t w"
  note o = disk_step_os [OF f] and md = mds_files_durable [OF m]
  have ne: "mds_page_file_path (w_wal w) 0 \<noteq> p" "mds_buffer_path (w_wal w) 0 \<noteq> p"
    using wal_env_names(1) [OF e] p by (auto simp: mds_names_ok_def)
  have "os_fds t (pf_fd pf) = os_fds (w_os w) (pf_fd pf)" if "pf \<in> set (io_files (mds_io (wal_mds (w_wal w))))" for pf
    using o(4) e that by (simp add: wal_env_def)
  then show "same_mds w ?w"
    using ne o(1,2,3) o(6) md f unfolding same_mds_def world_simps by (auto simp: disk_step_def)
qed

lemma disk_step_durable:
  assumes d: "log_durable w s n" and N: "0 < seg_count w" and names: "disk_names_ok w" and i: "i < length (wal_segments (w_wal w))"
    and p: "nvwal_construct_disk_segment_path (w_wal w) e = Some p" and f: "disk_step p w t"
    and L: "last_synced w \<le> last_synced (flagged i x c t w)"
  shows "log_durable (flagged i x c t w) s n"
proof -
  let ?w = "flagged i x c t w"
  note fs = flagged_seg [OF i]
  have keep: "os_durable t q = Some b" if "q \<in> seg_bases w" "os_durable (w_os w) q = Some b" for q b
  proof -
    have "q \<noteq> p" using names p that(1) by (metis disk_names_ok_def image_eqI)
    then show ?thesis using disk_step_os(2) [OF f] that(2) by blast
  qed
  have "seg_backed ?w"
    unfolding seg_backed_def world_simps fs(2)
  proof (intro allI impI)
    fix j
    assume j: "j < seg_count w"
    obtain q b where q: "sg_nv_baseaddr (wal_segments (w_wal w) ! j) = Some q" "os_durable (w_os w) q = Some b" "length b = seg_size w"
      by (rule seg_backedE [OF _ j]) (use d in \<open>auto simp: log_durable_def\<close>)
    then show "case sg_nv_baseaddr (wal_segments (w_wal w) ! j) of None \<Rightarrow> False
        | Some p \<Rightarrow> (case os_durable t p of None \<Rightarrow> False | Some c \<Rightarrow> length c = seg_size w)"
      using keep [OF base_in [OF q(1) j] q(2)] by simp
  qed
  moreover have "nv_durable ?w s y" if nd: "nv_durable w s y" for y
  proof -
    let ?j = "y div seg_size w mod seg_count w"
    obtain q b where q: "sg_nv_baseaddr (wal_segments (w_wal w) ! ?j) = Some q" "os_durable (w_os w) q = Some b"
      "y mod seg_size w < length b" "b ! (y mod seg_size w) = s ! y" using nd by (auto simp: nv_durable_def split: option.splits)
    have "os_durable t q = Some b" using keep [OF base_in [OF q(1)] q(2)] N by simp
    with q show ?thesis by (simp add: nv_durable_def world_simps fs(2))
  qed
  ultimately show ?thesis
    using d L unfolding log_durable_def durable_upto_def world_simps by (meson less_le_trans)
qed

lemma disk_step_repr:
  assumes r: "wal_repr w s ps h n" and i: "i < length (wal_segments (w_wal w))"
    and p: "nvwal_construct_disk_segment_path (w_wal w) d = Some p" and f: "disk_step p w t"
    and safe: "log_safe os_durable (flagged i x c t w) s" "log_safe os_files (flagged i x c t w) s"
    and L: "last_synced w \<le> last_synced (flagged i x c t w)"
  shows "wal_repr (flagged i x c t w) s ps h n"
proof -
  let ?w = "flagged i x c t w"
  have parts: "flush_open os_durable w s" "writers_repr w ps" "mds_repr w h" "log_durable w s n" "head_at w n" "wal_env w"
    using r by (simp_all add: wal_repr_def)
  have l: "log_repr w s" "disk_names_ok w" using parts(1) by (auto simp: flush_open_def log_safe_def)
  note fs = flagged_seg [OF i]
  have "env_frame w ?w" using disk_step_os [OF f] fs(4) by (simp add: env_frame_def world_simps)
  then have "wal_env ?w" by (rule wal_env_keep [OF _ parts(6)]) (use f in \<open>simp add: disk_step_def world_simps\<close>)
  moreover have "mds_repr ?w h" by (rule disk_step_mds [OF parts(6,3) p f])
  moreover have "log_durable ?w s n" by (rule disk_step_durable [OF parts(4) _ l(2) i p f L]) (use l(1) in \<open>simp add: log_repr_def\<close>)
  moreover have "writers_repr ?w ps"
    using parts(2) writer_repr_cong [of "w_wal ?w" "w_wal w"] by (simp add: writers_repr_def world_simps)
  moreover have "pins_ok ?w" using r fs(1) by (simp add: wal_repr_def pins_ok_def world_simps)
  ultimately show ?thesis
    using r safe parts(1,5) fs(5) by (simp add: wal_repr_def flush_open_def head_at_def world_simps)
qed

section \<open>One round of the fsyncer\<close>

lemma fsyncer_cur_segment_index:
  assumes r: "log_safe view w s" and cb: "wal_nv_control_block (w_wal w) = Some cb"
  shows "fsyncer_cur_segment w = Some (sync_index w)"
proof -
  let ?L = "sp_last_synced_dsid (cb_fsyncer_progress (os_cblock (w_os w) cb))"
  have L: "last_synced w = unat ?L" using cb by (simp add: last_synced_def)
  have N: "0 < seg_count w" using log_safeD(1) [OF r] by (simp add: log_repr_def)
  have m: "unat (?L mod ucast (wal_segment_count (w_wal w))) = unat ?L mod seg_count w" by (simp add: unat_mod seg_count_def)
  moreover have "unat ?L mod seg_count w < 4294967296"
    using N unat_u32_less [of "wal_segment_count (w_wal w)"] by (simp add: seg_count_def) (meson less_trans mod_less_divisor)
  ultimately have "unat (ucast (?L mod ucast (wal_segment_count (w_wal w))) :: u32) = unat ?L mod seg_count w"
    by (simp add: unat_ucast_down)
  then show ?thesis using cb L by (simp add: fsyncer_cur_segment_def sync_index_def Let_def)
qed

text \<open>
  A round does nothing, or syncs the next segment, or records the error of the attempt; the state is a
  good one in each case, for the next round of any thread.
\<close>

lemma fsyncer_round_repr:
  assumes r: "wal_repr w s ps h n" and pm: "pmem_persist_spec pm"
  obtains "fsyncer_round pm seen w = Ok () w" "\<not> sg_fsync_requested (wal_segments (w_wal w) ! sync_index w)"
    | w' where "fsyncer_round pm seen w = Ok () w'" "wal_repr w' s ps h n" "last_synced w' = Suc (last_synced w)"
      "wal_stable_epoch (w_wal w') = wal_stable_epoch (w_wal w)" "wal_config (w_wal w') = wal_config (w_wal w)"
    | e w' where "fsyncer_round pm seen w = Fail e w'" "wal_repr w' s ps h n" "last_synced w' = last_synced w"
      "sg_fsync_error (wal_segments (w_wal w') ! sync_index w') = Some e"
      "\<not> sg_fsync_completed (wal_segments (w_wal w') ! sync_index w')"
      "wal_stable_epoch (w_wal w') = wal_stable_epoch (w_wal w)" "wal_config (w_wal w') = wal_config (w_wal w)"
proof -
  have safe: "log_safe os_durable w s" "log_safe os_files w s" and env: "wal_env w" and m: "mds_repr w h"
    using r by (simp_all add: wal_repr_def flush_open_def)
  obtain cb where cb: "wal_nv_control_block (w_wal w) = Some cb" using wal_env_names(3) [OF env] by blast
  note ci = fsyncer_cur_segment_index [OF safe(1) cb]
  have il: "sync_index w < length (wal_segments (w_wal w))" "sync_index w < seg_count w"
    using log_safeD(1) [OF safe(1)] by (auto simp: log_repr_def sync_index_def intro: less_le_trans [OF mod_less_divisor])
  have calm: "os_resp (w_os w) = []" by (rule mds_files_durable(3) [OF m])
  show thesis
  proof (cases "sg_fsync_requested (wal_segments (w_wal w) ! sync_index w)")
    case False
    then show thesis using that(1) ci il by (simp add: fsyncer_round_def)
  next
    case True
    note i = sync_segment [OF safe(1) True]
    have run: "fsyncer_round pm seen w = fsyncer_sync_one_segment_to_disk pm seen (sync_index w) w"
      using ci il True i(5) by (simp add: fsyncer_round_def)
    show thesis
    proof (cases rule: sync_one [OF safe(2) wal_env_names(2) [OF env] cb True, of pm seen])
      case (1 p t)
      obtain c where c: "os_files t p = Some c" "take (seg_size w) c = log_slice (seg_size w) (Suc (last_synced w)) s" "os_durable t p = Some c"
        using 1(4) calm by blast
      let ?t = "store_last_synced_dsid pm cb (sg_dsid (wal_segments (w_wal w) ! sync_index w)) t"
      have eq: "synced pm cb (sync_index w) t w = flagged (sync_index w) None True ?t w" by (simp add: synced_def flagged_def)
      note sd = synced_safe [OF safe(1) _ cb True 1(1,3) c(3,2), of pm] and sf = synced_safe [OF safe(2) _ cb True 1(1,3) c(1,2), of pm]
      have "wal_repr (synced pm cb (sync_index w) t w) s ps h n"
        unfolding eq by (rule disk_step_repr [OF r il(1) 1(1) disk_frame_step(2) [OF 1(3) pm]]) (use sd sf in \<open>simp_all add: eq\<close>)
      moreover have "wal_stable_epoch (w_wal (synced pm cb (sync_index w) t w)) = wal_stable_epoch (w_wal w)"
        "wal_config (w_wal (synced pm cb (sync_index w) t w)) = wal_config (w_wal w)"
        unfolding eq by (simp_all add: world_simps)
      ultimately show thesis using that(2) [OF _ _ sf(2)] run 1(2) by simp
    next
      case (2 p t e)
      note fd = failed_safe [OF safe(1) _ True 2(1,3), of e] and ff = failed_safe [OF safe(2) _ True 2(1,3), of e]
      have eq: "sync_failed (sync_index w) e t w = flagged (sync_index w) (Some e) False t w" by (rule sync_failed_flagged [OF i(5)])
      have "wal_repr (sync_failed (sync_index w) e t w) s ps h n"
        unfolding eq by (rule disk_step_repr [OF r il(1) 2(1) disk_frame_step(1) [OF 2(3)]]) (use fd ff in \<open>simp_all add: eq\<close>)
      moreover have "sync_index (sync_failed (sync_index w) e t w) = sync_index w"
        using ff(2) eq by (simp add: sync_index_def world_simps)
      moreover have "sg_fsync_error (wal_segments (w_wal (sync_failed (sync_index w) e t w)) ! sync_index w) = Some e"
        "\<not> sg_fsync_completed (wal_segments (w_wal (sync_failed (sync_index w) e t w)) ! sync_index w)"
        "wal_stable_epoch (w_wal (sync_failed (sync_index w) e t w)) = wal_stable_epoch (w_wal w)"
        "wal_config (w_wal (sync_failed (sync_index w) e t w)) = wal_config (w_wal w)"
        unfolding eq using flagged_seg(1) [OF il(1)] by (simp_all add: world_simps)
      ultimately show thesis using that(3) [OF _ _ ff(2)] run 2(2) by simp
    qed
  qed
qed

end
