(* ===== verification/Client.thy ===== *)
theory Client
  imports Consume
begin

text \<open>
  A client that follows the documented protocol of \<^verbatim>\<open>nvwal_api.h\<close>: it asks
  \<open>nvwal_has_enough_writer_space\<close> first and then stores and announces less than half a buffer. Shown is that
  it never overwrites a byte that is not flushed and that exactly its bytes are added to what the writer
  has for the epoch.
\<close>

section \<open>Room in the buffer\<close>

text \<open>
  Pieces follow each other without gaps, except that the flusher has moved the beginning of those up to
  the epoch after the durable one.
\<close>

definition contiguous :: "nat \<Rightarrow> piece list \<Rightarrow> bool" where
  "contiguous de vs \<longleftrightarrow> successively (\<lambda>u v. Suc de < pc_rank v \<longrightarrow> pc_head v = pc_tail u) vs"

lemma chain_unflushed:
  assumes "successively (\<lambda>u v. pc_head v = pc_tail u) (v # vs)" "\<forall>u \<in> set (v # vs). pc_head u \<le> pc_tail u"
  shows "pc_tail (last (v # vs)) = pc_head v + unflushed (v # vs)"
  using assms
proof (induction vs arbitrary: v)
  case (Cons u vs)
  then have "pc_tail (last (u # vs)) = pc_head u + unflushed (u # vs)" "pc_head u = pc_tail v" "pc_head v \<le> pc_tail v" by simp_all
  then show ?case by (simp add: unflushed_def)
qed (simp add: unflushed_def)

lemma tl_subset: "set (tl xs) \<subseteq> set xs"
  by (cases xs) auto

lemma unflushed_append: "unflushed (us @ vs) = unflushed us + unflushed vs"
  by (simp add: unflushed_def)

lemma successively_weaken:
  "successively P xs \<Longrightarrow> (\<And>x y. x \<in> set xs \<Longrightarrow> y \<in> set (tl xs) \<Longrightarrow> P x y \<Longrightarrow> Q x y) \<Longrightarrow> successively Q xs"
proof (induction xs)
  case (Cons x xs)
  then show ?case by (cases xs) (auto simp: successively_Cons)
qed simp

lemma unflushed_span:
  assumes ok: "pieces_ok B sent vs" and "flushed_upto de vs" "contiguous de vs" and v: "v \<in> set vs" "pc_head v < pc_tail v"
  shows "length sent \<le> pc_head v + unflushed vs"
proof -
  obtain us ws where vs: "vs = us @ v # ws" using split_list [OF v(1)] by blast
  have "de < pc_rank v" using assms(2) v by (auto simp: flushed_upto_def not_less [symmetric])
  then have r: "\<forall>u \<in> set ws. Suc de < pc_rank u"
    using ok by (auto simp: pieces_ok_def vs sorted_wrt_append)
  have "successively (\<lambda>u v. Suc de < pc_rank v \<longrightarrow> pc_head v = pc_tail u) (v # ws)"
    using assms(3) by (simp add: contiguous_def vs successively_append_iff)
  then have "successively (\<lambda>u v. pc_head v = pc_tail u) (v # ws)"
    by (rule successively_weaken) (use r in auto)
  from chain_unflushed [OF this] have "pc_tail (last vs) = pc_head v + unflushed (v # ws)"
    using ok by (simp add: pieces_ok_def vs)
  moreover have "pc_tail (last vs) = length sent" using ok by (rule pieces_last) (simp add: vs)
  ultimately show ?thesis by (simp add: vs unflushed_append)
qed

lemma raise_low:
  assumes "writer_repr wal wr sent vs lo" "lo \<le> lo'" "lo' \<le> length sent" "\<forall>v \<in> set vs. pc_head v < pc_tail v \<longrightarrow> lo' \<le> pc_head v"
  shows "writer_repr wal wr sent vs lo'"
  using assms by (auto simp: writer_repr_def ring_holds_def)

section \<open>The bytes of an epoch\<close>

lemma piece_bytes_append: "pc_tail v \<le> length sent \<Longrightarrow> piece_bytes (sent @ bs) v = piece_bytes sent v"
  by (cases "pc_head v \<le> pc_tail v") (simp_all add: piece_bytes_def)

lemma epoch_bytes_append:
  "\<forall>v \<in> set vs. pc_tail v \<le> length sent \<Longrightarrow> epoch_bytes f (sent @ bs) vs = epoch_bytes f sent vs"
  by (auto simp: epoch_bytes_def piece_bytes_append intro!: arg_cong [where f = concat])

lemma epoch_bytes_simps [simp]:
  "epoch_bytes f sent [] = []"
  "epoch_bytes f sent (v # vs) = (if pc_rank v = f then piece_bytes sent v else []) @ epoch_bytes f sent vs"
  "epoch_bytes f sent (us @ vs) = epoch_bytes f sent us @ epoch_bytes f sent vs"
  by (simp_all add: epoch_bytes_def)

lemma epoch_bytes_flushed: "flushed_upto de vs \<Longrightarrow> f \<le> de \<Longrightarrow> epoch_bytes f sent vs = []"
  by (auto simp: epoch_bytes_def flushed_upto_def piece_bytes_def)

lemma epoch_bytes_consume: "epoch_bytes f sent (consume e vs) = (if f = e then [] else epoch_bytes f sent vs)"
  by (induction vs) (auto simp: consume_def piece_bytes_def)

text \<open>The oldest piece is flushed when its frame is taken for a new epoch.\<close>

lemma dropped_flushed:
  assumes "pieces_ok B sent vs" "flushed_upto de vs" "length vs = 5" "pc_rank (last vs) < e" "e < de + 5"
  shows "pc_rank (hd vs) \<le> de" "piece_bytes sent (hd vs) = []"
proof -
  show r: "pc_rank (hd vs) \<le> de" using five_ranks [OF assms(1,3)] assms(4,5) by simp
  have "hd vs \<in> set vs" using assms(3) by (cases vs) auto
  then show "piece_bytes sent (hd vs) = []" using r assms(2) by (auto simp: flushed_upto_def piece_bytes_def)
qed

lemma epoch_bytes_log_piece:
  assumes ok: "pieces_ok B sent vs" and fl: "flushed_upto de vs" and e: "vs \<noteq> [] \<Longrightarrow> pc_rank (last vs) \<le> e" "e < de + 5"
  shows "epoch_bytes f (sent @ bs) (log_piece e (length sent) (length bs) vs)
         = epoch_bytes f sent vs @ (if f = e then bs else [])"
proof -
  have t: "\<forall>v \<in> set vs. pc_tail v \<le> length sent" using ok by (simp add: pieces_ok_def)
  show ?thesis
  proof (cases "vs \<noteq> [] \<and> pc_rank (last vs) = e")
    case True
    then obtain us v where vs: "vs = us @ [v]" by (metis rev_exhaust)
    have "pc_tail v = length sent" "pc_head v \<le> length sent" using pieces_last [OF ok] vs by simp_all
    then have "piece_bytes (sent @ bs) (v\<lparr>pc_tail := length sent + length bs\<rparr>) = piece_bytes sent v @ bs"
      by (simp add: piece_bytes_def)
    then show ?thesis using True t by (simp add: log_piece_def vs epoch_bytes_append)
  next
    case False
    then have lt: "vs \<noteq> [] \<Longrightarrow> pc_rank (last vs) < e" using e(1) by fastforce
    have "epoch_bytes f sent (tl vs) = epoch_bytes f sent vs" if "length vs = 5"
    proof -
      have ne: "vs \<noteq> []" using that by auto
      show ?thesis using dropped_flushed(2) [OF ok fl that lt [OF ne] e(2)] ne by (cases vs) simp_all
    qed
    moreover have "epoch_bytes f (sent @ bs) (tl vs) = epoch_bytes f sent (tl vs)"
      using t by (intro epoch_bytes_append) (use tl_subset in fastforce)
    ultimately show ?thesis using False t by (auto simp: log_piece_def epoch_bytes_append piece_bytes_def)
  qed
qed

section \<open>The protocol\<close>

text \<open>What a writer satisfies between calls, for durable epoch of rank \<open>de\<close>.\<close>

definition pieces_inv :: "nat \<Rightarrow> piece list \<Rightarrow> bool" where
  "pieces_inv de vs \<longleftrightarrow> flushed_upto de vs \<and> contiguous de vs \<and> (\<forall>v \<in> set vs. pc_rank v < de + kNvwalEpochFrameCount)"

lemma pieces_inv_log:
  assumes ok: "pieces_ok B sent vs" and inv: "pieces_inv de vs" and e: "vs \<noteq> [] \<Longrightarrow> pc_rank (last vs) \<le> e" "de < e" "e < de + 5"
  shows "pieces_inv de (log_piece e (length sent) n vs)"
proof -
  have fl: "flushed_upto de vs" "contiguous de vs" "\<forall>v \<in> set vs. pc_rank v < de + 5" using inv by (simp_all add: pieces_inv_def)
  show ?thesis
  proof (cases "vs \<noteq> [] \<and> pc_rank (last vs) = e")
    case True
    then obtain us v where vs: "vs = us @ [v]" by (metis rev_exhaust)
    show ?thesis using True fl e by (auto simp: pieces_inv_def log_piece_def vs flushed_upto_def contiguous_def successively_append_iff)
  next
    case False
    let ?us = "if length vs = 5 then tl vs else vs"
    have "contiguous de ?us" using fl(2) by (cases vs) (auto simp: contiguous_def successively_Cons)
    moreover have "?us \<noteq> [] \<longrightarrow> pc_tail (last ?us) = length sent"
      using pieces_last(1) [OF ok] by (cases vs) (auto split: if_splits)
    moreover have "set ?us \<subseteq> set vs" by (simp add: tl_subset)
    ultimately show ?thesis
      using False fl e by (auto simp: pieces_inv_def log_piece_def flushed_upto_def contiguous_def successively_append_iff)
  qed
qed

lemma contiguous_consume: "contiguous de vs \<Longrightarrow> contiguous de (consume (Suc de) vs)"
  by (auto simp: contiguous_def consume_def successively_map elim!: successively_weaken)

lemma pieces_inv_early: "pieces_inv de vs \<Longrightarrow> pieces_inv de (consume (Suc de) vs)"
  using contiguous_consume [of de vs] by (auto simp: pieces_inv_def flushed_upto_def consume_def)

lemma pieces_inv_durable: "pieces_inv de vs \<Longrightarrow> pieces_inv (Suc de) (consume (Suc de) vs)"
  using contiguous_consume [of de vs]
  by (auto simp: pieces_inv_def flushed_upto_def contiguous_def consume_def elim!: successively_weaken)

lemma client_write:
  assumes r: "writer_repr wal wr sent vs lo" and inv: "pieces_inv de vs" and de: "wal_durable_epoch wal = epoch_at de" "de < 2 ^ 61"
    and se: "wal_stable_epoch wal = epoch_at se" "de \<le> se" and e: "se < e" "e < de + kNvwalEpochFrameCount" "vs \<noteq> [] \<Longrightarrow> pc_rank (last vs) \<le> e"
    and room: "nvwal_has_enough_writer_space wal wr" "2 * length bs < buffer_size wal" "length bs = unat k"
  shows "\<exists>buf wr' lo'. nvwal_circular_dest_memcpy (wr_buffer wr) (cf_writer_buffer_size (wal_config wal))
             (wr_last_tail_offset wr) bs k = Some buf \<and>
           nvwal_on_wal_write wal k (epoch_at e) (wr\<lparr>wr_buffer := buf\<rparr>) = Ok () wr' \<and>
           writer_repr wal wr' (sent @ bs) (log_piece e (length sent) (length bs) vs) lo' \<and>
           pieces_inv de (log_piece e (length sent) (length bs) vs)"
proof -
  let ?B = "buffer_size wal" and ?lo = "length sent - unflushed vs"
  have ok: "pieces_ok ?B sent vs" and ring: "ring_holds (wr_buffer wr) lo sent" using r by (simp_all add: writer_repr_def)
  have fl: "flushed_upto de vs" "contiguous de vs" "\<forall>v \<in> set vs. pc_rank v < de + 5" using inv by (simp_all add: pieces_inv_def)
  have half: "2 * unflushed vs \<le> ?B" using space_exact [OF r fl(1) de(1)] fl(3) de(2) room(1) by simp
  have span: "v \<in> set vs \<Longrightarrow> pc_head v < pc_tail v \<Longrightarrow> length sent \<le> pc_head v + unflushed vs" for v
    by (rule unflushed_span [OF ok fl(1,2)])
  have "lo \<le> ?lo" using repr_unflushed_le [OF r] ring by (auto simp: ring_holds_def)
  then have r': "writer_repr wal wr sent vs ?lo" using span by (intro raise_low [OF r]) fastforce+
  have "length sent + length bs < pc_head (last vs) + ?B" if "vs \<noteq> []"
    using span [of "last vs"] pieces_last [OF ok that] half room(2) that
    by (cases "pc_head (last vs) < pc_tail (last vs)") auto
  then have "\<exists>buf wr'. nvwal_circular_dest_memcpy (wr_buffer wr) (cf_writer_buffer_size (wal_config wal)) (wr_last_tail_offset wr) bs k = Some buf \<and>
           nvwal_on_wal_write wal k (epoch_at e) (wr\<lparr>wr_buffer := buf\<rparr>) = Ok () wr' \<and>
           writer_repr wal wr' (sent @ bs) (log_piece e (length sent) (length bs) vs) ?lo"
    using e se(2) de(2) half room(2) by (intro writer_appends [OF r' se(1) _ _ _ _ _ room(3)]) auto
  moreover have "pieces_inv de (log_piece e (length sent) (length bs) vs)"
    using e se(2) by (intro pieces_inv_log [OF ok inv]) simp_all
  ultimately show ?thesis by blast
qed

end
