(* ===== verification/System.thy ===== *)
theory System
  imports Fsyncer_Correct Client
begin

text \<open>
  The composed system: clients that log and tag, the call that advances the stable epoch, the rounds of
  the flusher and of the fsyncer, in any order. Each call is one step. The invariant relates the state to
  what the clients announced: which bytes are in the log, in which order, which record covers them.
\<close>

section \<open>Bytes by writer and epoch\<close>

record chunk =
  ck_writer :: nat
  ck_epoch :: nat
  ck_bytes :: "byte list"

definition chunk_bytes :: "chunk list \<Rightarrow> byte list" where
  "chunk_bytes cs = concat (map ck_bytes cs)"

definition of_writer :: "nat \<Rightarrow> nat \<Rightarrow> chunk list \<Rightarrow> byte list" where
  "of_writer i e cs = chunk_bytes (filter (\<lambda>c. ck_writer c = i \<and> ck_epoch c = e) cs)"

definition upto_epoch :: "nat \<Rightarrow> chunk list \<Rightarrow> nat" where
  "upto_epoch e cs = length (chunk_bytes (filter (\<lambda>c. ck_epoch c \<le> e) cs))"

lemma chunk_bytes_simps [simp]:
  "chunk_bytes [] = []" "chunk_bytes (c # cs) = ck_bytes c @ chunk_bytes cs" "chunk_bytes (cs @ ds) = chunk_bytes cs @ chunk_bytes ds"
  by (simp_all add: chunk_bytes_def)

lemma of_writer_simps [simp]:
  "of_writer i e [] = []" "of_writer i e (cs @ ds) = of_writer i e cs @ of_writer i e ds"
  "of_writer i e (c # cs) = (if ck_writer c = i \<and> ck_epoch c = e then ck_bytes c else []) @ of_writer i e cs"
  by (simp_all add: of_writer_def)

lemma upto_epoch_simps [simp]:
  "upto_epoch e [] = 0" "upto_epoch e (cs @ ds) = upto_epoch e cs + upto_epoch e ds"
  by (simp_all add: upto_epoch_def)

lemma upto_epoch_all: "\<forall>c \<in> set cs. ck_epoch c \<le> e \<Longrightarrow> upto_epoch e cs = length (chunk_bytes cs)"
  by (simp add: upto_epoch_def)

lemma upto_epoch_none: "\<forall>c \<in> set cs. e < ck_epoch c \<Longrightarrow> upto_epoch e cs = 0"
  by (induction cs) (simp_all add: upto_epoch_def)

lemma upto_epoch_le: "upto_epoch e cs \<le> length (chunk_bytes cs)"
  by (induction cs) (simp_all add: upto_epoch_def)

text \<open>In a log sorted by epoch, the epochs up to \<open>e\<close> are a prefix, and a range of epochs is a slice.\<close>

lemma sorted_filter_prefix:
  assumes "sorted (map ck_epoch cs)"
  shows "take (upto_epoch e cs) (chunk_bytes cs) = chunk_bytes (filter (\<lambda>c. ck_epoch c \<le> e) cs)"
  using assms
proof (induction cs)
  case (Cons c cs)
  show ?case
  proof (cases "ck_epoch c \<le> e")
    case True
    then have "upto_epoch e (c # cs) = length (ck_bytes c) + upto_epoch e cs" by (simp add: upto_epoch_def)
    then show ?thesis using Cons True by simp
  next
    case False
    then have "\<forall>d \<in> set (c # cs). e < ck_epoch d" using Cons.prems by auto
    then show ?thesis using upto_epoch_none [of "c # cs" e] by (simp add: filter_empty_conv not_le [symmetric] del: not_le)
  qed
qed simp

lemma sorted_epoch_slice:
  assumes "sorted (map ck_epoch cs)" "d \<le> e"
  shows "take (upto_epoch e cs - upto_epoch d cs) (drop (upto_epoch d cs) (chunk_bytes cs))
         = chunk_bytes (filter (\<lambda>c. d < ck_epoch c \<and> ck_epoch c \<le> e) cs)"
proof -
  let ?mid = "filter (\<lambda>c. d < ck_epoch c \<and> ck_epoch c \<le> e) cs"
  have split: "filter (\<lambda>c. ck_epoch c \<le> e) cs = filter (\<lambda>c. ck_epoch c \<le> d) cs @ ?mid"
    using assms
  proof (induction cs)
    case (Cons c cs)
    moreover have "filter (\<lambda>c. ck_epoch c \<le> d) cs = []" if "d < ck_epoch c"
      using Cons.prems that by (auto simp: filter_empty_conv)
    ultimately show ?case by auto
  qed simp
  have "take (upto_epoch e cs) (chunk_bytes cs) = take (upto_epoch d cs) (chunk_bytes cs) @ chunk_bytes ?mid"
    using sorted_filter_prefix [OF assms(1), of e] sorted_filter_prefix [OF assms(1), of d] split by simp
  then have "drop (upto_epoch d cs) (take (upto_epoch e cs) (chunk_bytes cs)) = chunk_bytes ?mid"
    using upto_epoch_le [of d cs] by simp
  then show ?thesis by (simp add: drop_take)
qed

text \<open>What one round of the flusher adds.\<close>

definition round_chunks :: "nat \<Rightarrow> wstate list \<Rightarrow> chunk list" where
  "round_chunks e ps = map (\<lambda>i. \<lparr>ck_writer = i, ck_epoch = e, ck_bytes = epoch_bytes e (ws_sent (ps ! i)) (ws_pieces (ps ! i))\<rparr>) [0..<length ps]"

lemma filter_upt_eq: "filter (\<lambda>j. j = i) [0..<n] = (if i < n then [i] else [])"
  by (induction n) auto

lemma round_chunks_bytes:
  "chunk_bytes (round_chunks e ps) = bytes_of_epoch e ps [0..<length ps]"
  "of_writer i f (round_chunks e ps) = (if f = e \<and> i < length ps then epoch_bytes e (ws_sent (ps ! i)) (ws_pieces (ps ! i)) else [])"
  "\<forall>c \<in> set (round_chunks e ps). ck_epoch c = e"
proof -
  show "chunk_bytes (round_chunks e ps) = bytes_of_epoch e ps [0..<length ps]"
    by (simp add: round_chunks_def chunk_bytes_def bytes_of_epoch_def o_def)
  show "of_writer i f (round_chunks e ps) = (if f = e \<and> i < length ps then epoch_bytes e (ws_sent (ps ! i)) (ws_pieces (ps ! i)) else [])"
    by (cases "f = e") (simp_all add: round_chunks_def of_writer_def filter_map o_def chunk_bytes_def filter_upt_eq)
  show "\<forall>c \<in> set (round_chunks e ps). ck_epoch c = e" by (simp add: round_chunks_def)
qed

section \<open>The invariant\<close>

text \<open>
  \<open>xs\<close> is what the clients announced, \<open>cs\<close> the log as chunks, \<open>ps\<close> the writers, \<open>h\<close> the records of the
  concluded epochs. Every announced byte is in the log or still in the writer's buffer, in the order in
  which it was announced; epochs follow each other in the log; the record of an epoch covers its bytes.
\<close>

definition sys_state :: "world \<Rightarrow> chunk list \<Rightarrow> chunk list \<Rightarrow> wstate list \<Rightarrow> MdsEpochMetadata list \<Rightarrow> bool" where
  "sys_state w xs cs ps h \<longleftrightarrow>
     wal_repr w (chunk_bytes cs) ps h (upto_epoch (length h) cs) \<and> length h < 2 ^ 56 \<and>
     (wal_stable_epoch (w_wal w) = of_nat (length h) \<or> wal_stable_epoch (w_wal w) = of_nat (Suc (length h))) \<and>
     unat (cf_writer_count (wal_config (w_wal w))) = length ps \<and>
     (\<forall>p \<in> set ps. pieces_inv (length h) (ws_pieces p)) \<and>
     (\<forall>i < length ps. \<forall>e. of_writer i e xs = of_writer i e cs @ epoch_bytes e (ws_sent (ps ! i)) (ws_pieces (ps ! i))) \<and>
     sorted (map ck_epoch cs) \<and> (\<forall>c \<in> set cs. 0 < ck_epoch c \<and> ck_epoch c \<le> Suc (length h) \<and> ck_writer c < length ps) \<and>
     (\<forall>j < length h. record_covers (seg_size w) (h ! j) (upto_epoch j cs) (upto_epoch (Suc j) cs))"

definition sys_inv :: "world \<Rightarrow> chunk list \<Rightarrow> bool" where
  "sys_inv w xs \<longleftrightarrow> (\<exists>cs ps h. sys_state w xs cs ps h)"

section \<open>Steps\<close>

text \<open>
  The numbers of disk segments and of epochs stay in the range in which they tell segments and epochs
  apart: paths have eight hexadecimal digits, an epoch number is eight bytes.
\<close>

definition flush_range :: "world \<Rightarrow> bool" where
  "flush_range w \<longleftrightarrow> unat (wal_durable_epoch (w_wal w)) + 1 < 2 ^ 56 \<and>
     cur_dsid w * seg_size w + unat (cf_writer_count (wal_config (w_wal w))) * buffer_size (w_wal w) < (2 ^ 32 - 2) * seg_size w"

text \<open>A client logs in an epoch below the horizon of the space check, and never goes back to an older one.\<close>

definition client_epoch :: "NvwalContext \<Rightarrow> NvwalWriterContext \<Rightarrow> nat \<Rightarrow> bool" where
  "client_epoch wal wr e \<longleftrightarrow> e < 2 ^ 57 \<and>
     nvwal_is_epoch_after (nvwal_add_epoch (wal_durable_epoch wal) (of_nat kNvwalEpochFrameCount)) (of_nat e) \<and>
     (\<forall>f \<in> set (wr_epoch_frames wr). fr_log_epoch f = kNvwalInvalidEpoch \<or> nvwal_is_epoch_equal_or_after (of_nat e) (fr_log_epoch f))"

text \<open>
  A reader pins and unpins segments and opens and closes files: it changes the pins of a segment, up to the limit of the
  counter, and descriptors other than those of the metadata store.
\<close>

definition set_pins :: "nat \<Rightarrow> u32 \<Rightarrow> world \<Rightarrow> world" where
  "set_pins i p w = set_segment i (\<lambda>g. g\<lparr>sg_nv_reader_pins := p\<rparr>) w"

definition reader_os :: "world \<Rightarrow> os \<Rightarrow> bool" where
  "reader_os w t \<longleftrightarrow> os_files t = os_files (w_os w) \<and> os_durable t = os_durable (w_os w) \<and> os_dirs t = os_dirs (w_os w) \<and>
     os_cblock t = os_cblock (w_os w) \<and> os_cblock_durable t = os_cblock_durable (w_os w) \<and> os_resp t = os_resp (w_os w) \<and>
     os_next_fd (w_os w) \<le> os_next_fd t \<and>
     (\<forall>pf \<in> set (io_files (mds_io (wal_mds (w_wal w)))). os_fds t (pf_fd pf) = os_fds (w_os w) (pf_fd pf))"

inductive wal_step :: "pmem \<Rightarrow> world \<times> chunk list \<Rightarrow> world \<times> chunk list \<Rightarrow> bool" for pm where
  client_logs: "i < unat (cf_writer_count (wal_config (w_wal w))) \<Longrightarrow> wr = wal_writers (w_wal w) ! i \<Longrightarrow>
    nvwal_has_enough_writer_space (w_wal w) wr \<Longrightarrow> 2 * length bs < buffer_size (w_wal w) \<Longrightarrow> client_epoch (w_wal w) wr e \<Longrightarrow>
    nvwal_circular_dest_memcpy (wr_buffer wr) (cf_writer_buffer_size (wal_config (w_wal w))) (wr_last_tail_offset wr) bs (of_nat (length bs)) = Some buf \<Longrightarrow>
    nvwal_on_wal_write (w_wal w) (of_nat (length bs)) (of_nat e) (wr\<lparr>wr_buffer := buf\<rparr>) = Ok () wr' \<Longrightarrow>
    wal_step pm (w, xs) (set_writer i (\<lambda>_. wr') w, xs @ [\<lparr>ck_writer = i, ck_epoch = e, ck_bytes = bs\<rparr>])"
| client_tags: "i < unat (cf_writer_count (wal_config (w_wal w))) \<Longrightarrow>
    nvwal_tag_epoch target m0 m1 (wal_writers (w_wal w) ! i) = Ok () wr' \<Longrightarrow>
    wal_step pm (w, xs) (set_writer i (\<lambda>_. wr') w, xs)"
| stable_advances: "nvwal_advance_stable_epoch new (w_wal w) = Ok () wal' \<Longrightarrow>
    wal_step pm (w, xs) (w\<lparr>w_wal := wal'\<rparr>, xs)"
| flusher_runs: "flush_range w \<Longrightarrow> (\<And>i. seen i \<noteq> kNvwalThreadStateRunningAndRequestedStop) \<Longrightarrow>
    flusher_main_loop pm seen w = Ok () w' \<Longrightarrow> wal_step pm (w, xs) (w', xs)"
| fsyncer_runs: "fsyncer_round pm seen w = Ok () w' \<or> fsyncer_round pm seen w = Fail err w' \<Longrightarrow>
    wal_step pm (w, xs) (w', xs)"
| reader_moves: "i < seg_count w \<Longrightarrow> unat p + 1 < 2 ^ 31 \<Longrightarrow> reader_os w t \<Longrightarrow> wal_step pm (w, xs) (set_pins i p (w\<lparr>w_os := t\<rparr>), xs)"

section \<open>Every step keeps the invariant\<close>

text \<open>Changes of the writers and of the stable epoch only.\<close>

lemma wal_repr_client:
  assumes r: "wal_repr w s ps h n" and os: "w_os w' = w_os w"
    and rest: "(w_wal w')\<lparr>wal_writers := [], wal_stable_epoch := 0\<rparr> = (w_wal w)\<lparr>wal_writers := [], wal_stable_epoch := 0\<rparr>"
    and wr: "writers_repr w' qs"
  shows "wal_repr w' s qs h n"
proof -
  have f: "wal_config (w_wal w') = wal_config (w_wal w)" "wal_segments (w_wal w') = wal_segments (w_wal w)"
    "wal_segment_count (w_wal w') = wal_segment_count (w_wal w)" "wal_mds (w_wal w') = wal_mds (w_wal w)"
    "wal_flusher_current_nv_segment_dsid (w_wal w') = wal_flusher_current_nv_segment_dsid (w_wal w)"
    "wal_nv_control_block (w_wal w') = wal_nv_control_block (w_wal w)" "wal_durable_epoch (w_wal w') = wal_durable_epoch (w_wal w)"
    "wal_flusher_current_epoch_head_dsid (w_wal w') = wal_flusher_current_epoch_head_dsid (w_wal w)"
    "wal_flusher_current_epoch_head_offset (w_wal w') = wal_flusher_current_epoch_head_offset (w_wal w)"
    using arg_cong [OF rest, of wal_config]
      arg_cong [OF rest, of wal_segments]
      arg_cong [OF rest, of wal_segment_count]
      arg_cong [OF rest, of wal_mds]
      arg_cong [OF rest, of wal_flusher_current_nv_segment_dsid]
      arg_cong [OF rest, of wal_nv_control_block]
      arg_cong [OF rest, of wal_durable_epoch]
      arg_cong [OF rest, of wal_flusher_current_epoch_head_dsid]
      arg_cong [OF rest, of wal_flusher_current_epoch_head_offset]
    by simp_all
  have same: "same_log w w'" "same_mds w w'" "last_synced w' = last_synced w"
    using f os by (simp_all add: same_log_def same_mds_def last_synced_def cong: option.case_cong)
  note sf = same_log_fields [OF same(1)]
  have parts: "flush_open os_durable w s" "log_safe os_files w s" "mds_repr w h" "log_durable w s n" "head_at w n" "n \<le> length s" "wal_env w"
    "wal_durable_epoch (w_wal w) = of_nat (length h)" using r by (simp_all add: wal_repr_def)
  have safe: "log_safe os_durable w s" using parts(1) by (simp add: flush_open_def)
  have "env_frame w w'" using f os sf(4) by (simp add: env_frame_def)
  then have "wal_env w'" by (rule wal_env_keep [OF _ parts(7)]) (simp add: os)
  moreover have "log_durable w' s n" using same_log_durable [OF same(1,3) _ log_safeD(1) [OF safe]] parts(4) os by simp
  moreover have "flush_open os_durable w' s" "log_safe os_files w' s"
    using log_safe_transfer [OF same(1,3) safe] log_safe_transfer [OF same(1,3) parts(2)] parts(1) os sf by (simp_all add: flush_open_def)
  moreover have "head_at w' n" using parts(5) sf(1) f by (simp add: head_at_def)
  ultimately show ?thesis
    using mds_repr_transfer [OF same(2) parts(3)] parts(6,8) wr f(7) r pins_ok_cong [OF sf(6,2)] by (simp add: wal_repr_def)
qed

lemma writers_repr_update:
  assumes "writers_repr w ps" "i < length ps" "writer_repr (w_wal w) wr' (ws_sent q) (ws_pieces q) (ws_low q)"
  shows "writers_repr (set_writer i (\<lambda>_. wr') w) (ps[i := q])"
proof -
  have c: "wal_config (w_wal (set_writer i (\<lambda>_. wr') w)) = wal_config (w_wal w)" by (simp add: world_simps)
  show ?thesis using assms by (simp add: writers_repr_def writer_repr_cong [OF c] world_simps nth_list_update)
qed

lemma set_writer_repr:
  assumes "wal_repr w s ps h n" "i < length ps" "writer_repr (w_wal w) wr' (ws_sent q) (ws_pieces q) (ws_low q)"
  shows "wal_repr (set_writer i (\<lambda>_. wr') w) s (ps[i := q]) h n"
proof (rule wal_repr_client [OF assms(1)])
  show "writers_repr (set_writer i (\<lambda>_. wr') w) (ps[i := q])"
    using assms by (intro writers_repr_update) (simp_all add: wal_repr_def)
qed (simp_all add: world_simps set_writer_def Let_def)

subsection \<open>Clients\<close>

lemma sys_epochs:
  assumes "sys_state w xs cs ps h"
  obtains se where "wal_durable_epoch (w_wal w) = epoch_at (length h)" "wal_stable_epoch (w_wal w) = epoch_at se"
    "se = length h \<or> se = Suc (length h)"
proof -
  have "length h < 2 ^ 56" "wal_durable_epoch (w_wal w) = of_nat (length h)"
    "wal_stable_epoch (w_wal w) = of_nat (length h) \<or> wal_stable_epoch (w_wal w) = of_nat (Suc (length h))"
    using assms by (simp_all add: sys_state_def wal_repr_def)
  then show thesis using that [of "length h"] that [of "Suc (length h)"] by (auto simp: epoch_at_small simp del: of_nat_Suc)
qed

lemma on_wal_write_after: "nvwal_on_wal_write wal k e wr = Ok () wr' \<Longrightarrow> nvwal_is_epoch_after e (wal_stable_epoch wal)"
  by (simp add: nvwal_on_wal_write_def Let_def c_assert_def split: if_splits)

lemma client_epoch_ranks:
  assumes st: "sys_state w xs cs ps h" and i: "i < length ps" and ce: "client_epoch (w_wal w) (wal_writers (w_wal w) ! i) e"
    and af: "nvwal_is_epoch_after (of_nat e) (wal_stable_epoch (w_wal w))" and se: "wal_stable_epoch (w_wal w) = epoch_at se" "se = length h \<or> se = Suc (length h)"
  shows "epoch_at e = of_nat e" "se < e" "e < length h + 5" "ws_pieces (ps ! i) \<noteq> [] \<Longrightarrow> pc_rank (last (ws_pieces (ps ! i))) \<le> e"
proof -
  let ?vs = "ws_pieces (ps ! i)" and ?wr = "wal_writers (w_wal w) ! i"
  have len: "length h < 2 ^ 56" using st by (simp add: sys_state_def)
  have de: "wal_durable_epoch (w_wal w) = epoch_at (length h)" by (rule sys_epochs [OF st])
  have e: "e < 2 ^ 57" using ce by (simp add: client_epoch_def)
  then show eq: "epoch_at e = of_nat e" by (simp add: epoch_at_small)
  show "se < e" using af se len e unfolding eq [symmetric] by (auto simp: epoch_at_after)
  show "e < length h + 5"
    using ce len e add_epoch_at [of 5 "length h"] epoch_at_after [of "length h + 5" e]
    unfolding client_epoch_def eq [symmetric] de by simp
  assume ne: "?vs \<noteq> []"
  have wr: "writer_repr (w_wal w) ?wr (ws_sent (ps ! i)) ?vs (ws_low (ps ! i))" and pi: "pieces_inv (length h) ?vs"
    using st i by (simp_all add: sys_state_def wal_repr_def writers_repr_def)
  then have mk: "frame_marks (buffer_size (w_wal w)) (last ?vs) (last (frames_by_age ?wr))"
    by (intro frames_mark_last [OF _ ne]) (simp add: writer_repr_def)
  have "0 < pc_rank (last ?vs)" "pc_rank (last ?vs) < length h + 5"
    using wr pi ne by (simp_all add: writer_repr_def pieces_ok_def pieces_inv_def)
  moreover have "last (frames_by_age ?wr) \<in> set (wr_epoch_frames ?wr)"
  proof -
    have "frames_by_age ?wr \<noteq> []" using wr by (auto simp: writer_repr_def frames_shape_def frames_by_age_def)
    then show ?thesis using last_in_set [of "frames_by_age ?wr"] by (simp add: frames_by_age_def del: rotate_Suc)
  qed
  ultimately show "pc_rank (last ?vs) \<le> e"
    using ce mk len e epoch_at_neq_0 [of "pc_rank (last ?vs)"] unfolding client_epoch_def eq [symmetric]
    by (auto simp: frame_marks_def epoch_at_equal_or_after)
qed

text \<open>A client that follows the protocol is not stopped by an assertion.\<close>

lemma client_can_log:
  assumes st: "sys_state w xs cs ps h" and i: "i < unat (cf_writer_count (wal_config (w_wal w)))" and wr: "wr = wal_writers (w_wal w) ! i"
    and room: "nvwal_has_enough_writer_space (w_wal w) wr" "2 * length bs < buffer_size (w_wal w)" and ce: "client_epoch (w_wal w) wr e"
    and af: "nvwal_is_epoch_after (of_nat e) (wal_stable_epoch (w_wal w))"
  obtains buf wr' lo where
    "nvwal_circular_dest_memcpy (wr_buffer wr) (cf_writer_buffer_size (wal_config (w_wal w))) (wr_last_tail_offset wr) bs (of_nat (length bs)) = Some buf"
    "nvwal_on_wal_write (w_wal w) (of_nat (length bs)) (of_nat e) (wr\<lparr>wr_buffer := buf\<rparr>) = Ok () wr'"
    "writer_repr (w_wal w) wr' (ws_sent (ps ! i) @ bs) (log_piece e (length (ws_sent (ps ! i))) (length bs) (ws_pieces (ps ! i))) lo"
    "pieces_inv (length h) (log_piece e (length (ws_sent (ps ! i))) (length bs) (ws_pieces (ps ! i)))"
    "e < length h + 5" "ws_pieces (ps ! i) \<noteq> [] \<Longrightarrow> pc_rank (last (ws_pieces (ps ! i))) \<le> e"
proof -
  let ?p = "ps ! i" and ?de = "length h"
  have il: "i < length ps" and rw: "writer_repr (w_wal w) wr (ws_sent ?p) (ws_pieces ?p) (ws_low ?p)" and pi: "pieces_inv ?de (ws_pieces ?p)" and len: "?de < 2 ^ 56"
    using i wr st by (simp_all add: wal_repr_def writers_repr_def sys_state_def)
  obtain se where se: "wal_durable_epoch (w_wal w) = epoch_at ?de" "wal_stable_epoch (w_wal w) = epoch_at se" "se = ?de \<or> se = Suc ?de"
    by (rule sys_epochs [OF st])
  note e = client_epoch_ranks [OF st il ce [unfolded wr] af se(2,3)]
  have B: "buffer_size (w_wal w) < 2 ^ 62" using rw by (simp add: writer_repr_def)
  have "length bs = unat (of_nat (length bs) :: u64)" using room(2) B by (simp add: unat_of_nat_small)
  with client_write [OF rw pi se(1) _ se(2) _ e(2) _ e(4) room] len se(3) e(3)
  show thesis using that e(1,3,4) by fastforce
qed

lemma client_logs_inv:
  assumes st: "sys_state w xs cs ps h" and i: "i < unat (cf_writer_count (wal_config (w_wal w)))" and wr: "wr = wal_writers (w_wal w) ! i"
    and room: "nvwal_has_enough_writer_space (w_wal w) wr" "2 * length bs < buffer_size (w_wal w)" and ce: "client_epoch (w_wal w) wr e"
    and buf: "nvwal_circular_dest_memcpy (wr_buffer wr) (cf_writer_buffer_size (wal_config (w_wal w))) (wr_last_tail_offset wr) bs (of_nat (length bs)) = Some buf"
    and run: "nvwal_on_wal_write (w_wal w) (of_nat (length bs)) (of_nat e) (wr\<lparr>wr_buffer := buf\<rparr>) = Ok () wr'"
  shows "sys_inv (set_writer i (\<lambda>_. wr') w) (xs @ [\<lparr>ck_writer = i, ck_epoch = e, ck_bytes = bs\<rparr>])"
proof -
  let ?p = "ps ! i" and ?de = "length h" and ?w = "set_writer i (\<lambda>_. wr') w"
  let ?vs = "log_piece e (length (ws_sent ?p)) (length bs) (ws_pieces ?p)"
  have r: "wal_repr w (chunk_bytes cs) ps h (upto_epoch ?de cs)" using st by (simp add: sys_state_def)
  have il: "i < length ps" and ok: "pieces_ok (buffer_size (w_wal w)) (ws_sent ?p) (ws_pieces ?p)" and pi: "pieces_inv ?de (ws_pieces ?p)"
    using i st by (simp_all add: wal_repr_def writers_repr_def sys_state_def writer_repr_def)
  obtain lo where lo: "writer_repr (w_wal w) wr' (ws_sent ?p @ bs) ?vs lo" "pieces_inv ?de ?vs" "e < ?de + 5" "ws_pieces ?p \<noteq> [] \<Longrightarrow> pc_rank (last (ws_pieces ?p)) \<le> e"
  proof (rule client_can_log [OF st i wr room ce on_wal_write_after [OF run]])
    fix buf' wr'' lo
    assume c: "nvwal_circular_dest_memcpy (wr_buffer wr) (cf_writer_buffer_size (wal_config (w_wal w))) (wr_last_tail_offset wr) bs (of_nat (length bs)) = Some buf'"
      "nvwal_on_wal_write (w_wal w) (of_nat (length bs)) (of_nat e) (wr\<lparr>wr_buffer := buf'\<rparr>) = Ok () wr''"
      "writer_repr (w_wal w) wr'' (ws_sent ?p @ bs) ?vs lo" "pieces_inv ?de ?vs" "e < ?de + 5" "ws_pieces ?p \<noteq> [] \<Longrightarrow> pc_rank (last (ws_pieces ?p)) \<le> e"
    then show thesis using that [of lo] buf run by simp
  qed
  have "wal_repr ?w (chunk_bytes cs) (ps[i := \<lparr>ws_sent = ws_sent ?p @ bs, ws_pieces = ?vs, ws_low = lo\<rparr>]) h (upto_epoch ?de cs)"
    using lo(1) by (intro set_writer_repr [OF r il]) simp
  moreover have "epoch_bytes f (ws_sent ?p @ bs) ?vs = epoch_bytes f (ws_sent ?p) (ws_pieces ?p) @ (if f = e then bs else [])" for f
    using epoch_bytes_log_piece [OF ok _ lo(4,3), where f = f and bs = bs] pi by (simp add: pieces_inv_def)
  ultimately have "sys_state ?w (xs @ [\<lparr>ck_writer = i, ck_epoch = e, ck_bytes = bs\<rparr>]) cs (ps[i := \<lparr>ws_sent = ws_sent ?p @ bs, ws_pieces = ?vs, ws_low = lo\<rparr>]) h"
    using st il lo(2) by (auto simp: sys_state_def world_simps nth_list_update set_writer_def seg_size_def Let_def dest: set_update_subset_insert [THEN subsetD])
  then show ?thesis by (auto simp: sys_inv_def)
qed

text \<open>A tag leaves what a frame marks.\<close>

lemma frames_mark_core:
  assumes "list_all2 (\<lambda>f g. fr_log_epoch f = fr_log_epoch g \<and> fr_head_offset f = fr_head_offset g \<and> fr_tail_offset f = fr_tail_offset g) fs gs"
  shows "frames_mark B vs fs \<longleftrightarrow> frames_mark B vs gs"
  using assms by (auto simp: frames_mark_def frame_marks_def list_all2_conv_all_nth all_set_conv_all_nth)

lemma tag_repr:
  assumes r: "writer_repr wal wr sent vs lo" and t: "nvwal_tag_epoch target m0 m1 wr = Ok () wr'"
  shows "writer_repr wal wr' sent vs lo"
proof (cases "wr' = wr")
  case False
  obtain i where i: "i < length (wr_epoch_frames wr)" "wr' = set_frame i (\<lambda>f. f\<lparr>fr_user_metadata_0 := m0, fr_user_metadata_1 := m1\<rparr>) wr"
    using t False by (auto simp: nvwal_tag_epoch_def Let_def elem_at_def c_assert_def split: if_splits)
  have "frames_mark (buffer_size wal) vs (frames_by_age wr) \<longleftrightarrow> frames_mark (buffer_size wal) vs (frames_by_age wr')"
    unfolding frames_by_age_def i(2) set_frame_def
    by (rule frames_mark_core) (use i(1) in \<open>simp add: list_all2_conv_all_nth nth_rotate nth_list_update del: rotate_Suc\<close>)
  then show ?thesis using r i(2) by (simp add: writer_repr_def)
qed (use r in simp)

lemma client_tags_inv:
  assumes st: "sys_state w xs cs ps h" and i: "i < unat (cf_writer_count (wal_config (w_wal w)))"
    and run: "nvwal_tag_epoch target m0 m1 (wal_writers (w_wal w) ! i) = Ok () wr'"
  shows "sys_inv (set_writer i (\<lambda>_. wr') w) xs"
proof -
  have r: "wal_repr w (chunk_bytes cs) ps h (upto_epoch (length h) cs)" using st by (simp add: sys_state_def)
  then have il: "i < length ps" "writer_repr (w_wal w) (wal_writers (w_wal w) ! i) (ws_sent (ps ! i)) (ws_pieces (ps ! i)) (ws_low (ps ! i))"
    using i st by (simp_all add: sys_state_def wal_repr_def writers_repr_def)
  have "wal_repr (set_writer i (\<lambda>_. wr') w) (chunk_bytes cs) ps h (upto_epoch (length h) cs)"
    using set_writer_repr [OF r il(1) tag_repr [OF il(2) run]] by simp
  then have "sys_state (set_writer i (\<lambda>_. wr') w) xs cs ps h"
    using st by (simp add: sys_state_def world_simps set_writer_def seg_size_def Let_def)
  then show ?thesis by (auto simp: sys_inv_def)
qed

lemma stable_advances_inv:
  assumes st: "sys_state w xs cs ps h" and run: "nvwal_advance_stable_epoch new (w_wal w) = Ok () wal'"
  shows "sys_inv (w\<lparr>w_wal := wal'\<rparr>) xs"
proof -
  have r: "wal_repr w (chunk_bytes cs) ps h (upto_epoch (length h) cs)" and len: "length h < 2 ^ 56" using st by (simp_all add: sys_state_def)
  have new: "wal' = w_wal w \<or> new = nvwal_increment_epoch (wal_durable_epoch (w_wal w)) \<and> wal' = (w_wal w)\<lparr>wal_stable_epoch := new\<rparr>"
    using run by (auto simp: nvwal_advance_stable_epoch_def Let_def c_assert_def split: if_splits)
  have "wal_durable_epoch (w_wal w) = epoch_at (length h)" by (rule sys_epochs [OF st])
  then have inc: "nvwal_increment_epoch (wal_durable_epoch (w_wal w)) = of_nat (Suc (length h))"
    using len increment_epoch_at [of "length h"] by (simp add: epoch_at_small del: of_nat_Suc)
  have c: "wal_config wal' = wal_config (w_wal w)" "wal_writers wal' = wal_writers (w_wal w)" using new by auto
  have "wal_repr (w\<lparr>w_wal := wal'\<rparr>) (chunk_bytes cs) ps h (upto_epoch (length h) cs)"
  proof (rule wal_repr_client [OF r])
    show "(w_wal (w\<lparr>w_wal := wal'\<rparr>))\<lparr>wal_writers := [], wal_stable_epoch := 0\<rparr> = (w_wal w)\<lparr>wal_writers := [], wal_stable_epoch := 0\<rparr>"
      using new by auto
    show "writers_repr (w\<lparr>w_wal := wal'\<rparr>) ps"
      using r c writer_repr_cong [OF c(1)] by (simp add: wal_repr_def writers_repr_def)
  qed simp
  then have "sys_state (w\<lparr>w_wal := wal'\<rparr>) xs cs ps h"
    using st new inc c(1) by (auto simp: sys_state_def seg_size_def simp del: of_nat_Suc)
  then show ?thesis by (auto simp: sys_inv_def)
qed

subsection \<open>Readers\<close>

lemma set_pins_fields:
  assumes "i < length (wal_segments (w_wal w))"
  shows "wal_segments (w_wal (set_pins i p (w\<lparr>w_os := t\<rparr>))) ! j =
           (if j = i then (wal_segments (w_wal w) ! i)\<lparr>sg_nv_reader_pins := p\<rparr> else wal_segments (w_wal w) ! j)"
    "w_os (set_pins i p (w\<lparr>w_os := t\<rparr>)) = t" "seg_size (set_pins i p (w\<lparr>w_os := t\<rparr>)) = seg_size w" "seg_count (set_pins i p (w\<lparr>w_os := t\<rparr>)) = seg_count w"
    "cur_dsid (set_pins i p (w\<lparr>w_os := t\<rparr>)) = cur_dsid w" "wal_config (w_wal (set_pins i p (w\<lparr>w_os := t\<rparr>))) = wal_config (w_wal w)"
    "length (wal_segments (w_wal (set_pins i p (w\<lparr>w_os := t\<rparr>)))) = length (wal_segments (w_wal w))"
  using assms by (simp_all add: set_pins_def world_simps set_segment_def Let_def seg_size_def seg_count_def cur_dsid_def)

lemma reader_log_safe:
  assumes r: "log_safe view w s" and view: "view t = view (w_os w)" and i: "i < seg_count w" and t: "reader_os w t"
  shows "log_safe view (set_pins i p (w\<lparr>w_os := t\<rparr>)) s" "cur_written (set_pins i p (w\<lparr>w_os := t\<rparr>)) = cur_written w"
    "seg_bases (set_pins i p (w\<lparr>w_os := t\<rparr>)) = seg_bases w" "last_synced (set_pins i p (w\<lparr>w_os := t\<rparr>)) = last_synced w"
proof -
  let ?w = "set_pins i p (w\<lparr>w_os := t\<rparr>)"
  note l = log_safeD(1) [OF r]
  have il: "i < length (wal_segments (w_wal w))" using i l by (simp add: log_repr_def)
  note f = set_pins_fields [OF il]
  have g: "sg_nv_baseaddr (wal_segments (w_wal ?w) ! j) = sg_nv_baseaddr (wal_segments (w_wal w) ! j)" "sg_dsid (wal_segments (w_wal ?w) ! j) = sg_dsid (wal_segments (w_wal w) ! j)"
    "sg_fsync_completed (wal_segments (w_wal ?w) ! j) = sg_fsync_completed (wal_segments (w_wal w) ! j)"
    "sg_written_bytes (wal_segments (w_wal ?w) ! j) = sg_written_bytes (wal_segments (w_wal w) ! j)" for j by (simp_all add: f(1))
  show bases: "seg_bases ?w = seg_bases w" by (simp add: seg_bases_def f(4) g)
  show "cur_written ?w = cur_written w" by (simp add: cur_written_def cur_index_def f(4,5) g)
  have "mapped q t = mapped q (w_os w)" for q using t by (simp add: mapped_def reader_os_def)
  then have ok: "seg_ok S N cur t s j (wal_segments (w_wal ?w) ! j) = seg_ok S N cur (w_os w) s j (wal_segments (w_wal w) ! j)" for S N cur j
    by (simp add: f(1) seg_ok_def Let_def cong: option.case_cong)
  have "log_repr ?w s" using l unfolding log_repr_def f(2-5,7) g ok .
  moreover show "last_synced ?w = last_synced w"
    using t by (simp add: last_synced_def f reader_os_def set_pins_def set_segment_def Let_def cong: option.case_cong)
  moreover have "disk_names_ok ?w" using log_safeD(2) [OF r] disk_names_cong [OF f(6) bases] by simp
  moreover have "on_disk view ?w s d = on_disk view w s d" for d
    unfolding on_disk_def disk_path_cong [OF f(6)] f(2,3) view ..
  ultimately show "log_safe view ?w s" using r unfolding log_safe_def f(4,5) g by simp
qed

lemma reader_moves_inv:
  assumes st: "sys_state w xs cs ps h" and i: "i < seg_count w" and p: "unat p + 1 < 2 ^ 31" and t: "reader_os w t"
  shows "sys_inv (set_pins i p (w\<lparr>w_os := t\<rparr>)) xs"
proof -
  let ?w = "set_pins i p (w\<lparr>w_os := t\<rparr>)" and ?s = "chunk_bytes cs" and ?n = "upto_epoch (length h) cs"
  have r: "wal_repr w ?s ps h ?n" using st by (simp add: sys_state_def)
  then have parts: "log_safe os_durable w ?s" "log_safe os_files w ?s" "cur_written w < seg_size w" "mds_repr w h" "log_durable w ?s ?n" "head_at w ?n" "wal_env w" "pins_ok w" "writers_repr w ps"
    by (simp_all add: wal_repr_def flush_open_def)
  note d = reader_log_safe [OF parts(1) _ i t, of p] and l = log_safeD(1) [OF parts(1)]
  have il: "i < length (wal_segments (w_wal w))" using i l by (simp add: log_repr_def)
  note f = set_pins_fields [OF il, of p t]
  have views: "os_durable t = os_durable (w_os w)" "os_files t = os_files (w_os w)" using t by (simp_all add: reader_os_def)
  note safe = d(1) [OF views(1)] reader_log_safe(1) [OF parts(2) views(2) i t, of p]
  have fields: "wal_mds (w_wal ?w) = wal_mds (w_wal w)" "wal_nv_control_block (w_wal ?w) = wal_nv_control_block (w_wal w)" "wal_writers (w_wal ?w) = wal_writers (w_wal w)"
    "wal_durable_epoch (w_wal ?w) = wal_durable_epoch (w_wal w)" "wal_stable_epoch (w_wal ?w) = wal_stable_epoch (w_wal w)"
    "wal_flusher_current_epoch_head_dsid (w_wal ?w) = wal_flusher_current_epoch_head_dsid (w_wal w)"
    "wal_flusher_current_epoch_head_offset (w_wal ?w) = wal_flusher_current_epoch_head_offset (w_wal w)"
    by (simp_all add: set_pins_def set_segment_def Let_def)
  have "same_mds w ?w" using t f(2,6) fields(1,2) by (simp add: same_mds_def reader_os_def)
  then have "mds_repr ?w h" by (rule mds_repr_transfer) (rule parts(4))
  moreover have "env_frame w ?w" using t f(2,6) fields(1,2) d(3) [OF views(1)] by (simp add: env_frame_def reader_os_def)
  then have "wal_env ?w" by (rule wal_env_keep [OF _ parts(7)]) (use t f(2) in \<open>simp add: reader_os_def\<close>)
  moreover have "sg_nv_baseaddr (wal_segments (w_wal ?w) ! j) = sg_nv_baseaddr (wal_segments (w_wal w) ! j)" for j by (simp add: f(1))
  then have "log_durable ?w ?s ?n = log_durable w ?s ?n"
    using l d(4) [OF views(1)] f(2,3,4) views(1) by (intro log_durable_cong) (simp_all add: log_repr_def)
  moreover have "writers_repr ?w ps" using parts(9) writer_repr_cong [OF f(6)] fields(3) by (simp add: writers_repr_def)
  moreover have "pins_ok ?w" using parts(8) p by (simp add: pins_ok_def f(1,4))
  moreover have "head_at ?w ?n" using parts(6) fields(6,7) f(3) by (simp add: head_at_def)
  ultimately have "wal_repr ?w ?s ps h ?n"
    using r safe d(2) [OF views(1)] f(3) fields(4) by (simp add: wal_repr_def flush_open_def)
  then have "sys_state ?w xs cs ps h" using st f(3,6) fields(5) by (simp add: sys_state_def)
  then show ?thesis by (auto simp: sys_inv_def)
qed

subsection \<open>Threads\<close>

lemma epoch_bytes_length: "length (epoch_bytes e sent vs) \<le> unflushed vs"
  by (induction vs) (auto simp: unflushed_def piece_bytes_def)

lemma bytes_of_epoch_length:
  assumes "writers_repr w ps" "\<forall>i \<in> set is. i < length ps"
  shows "length (bytes_of_epoch e ps is) \<le> length is * buffer_size (w_wal w)"
  using assms(2)
proof (induction "is")
  case (Cons i "is")
  let ?p = "ps ! i"
  have r: "writer_repr (w_wal w) (wal_writers (w_wal w) ! i) (ws_sent ?p) (ws_pieces ?p) (ws_low ?p)"
    using assms(1) Cons.prems by (simp add: writers_repr_def)
  then have "unflushed (ws_pieces ?p) \<le> buffer_size (w_wal w)"
    using repr_unflushed_le [OF r] by (auto simp: writer_repr_def ring_holds_def)
  then show ?case using Cons epoch_bytes_length [of e "ws_sent ?p" "ws_pieces ?p"] by (simp add: bytes_of_epoch_def)
qed (simp add: bytes_of_epoch_def)

lemma drain_all: "drain e [0..<length ps] ps = map (\<lambda>p. p\<lparr>ws_pieces := consume e (ws_pieces p)\<rparr>) ps"
  by (rule nth_equalityI) (simp_all add: drain_nth)

lemma sys_round_ready:
  assumes st: "sys_state w xs cs ps h" and fr: "flush_range w"
  shows "round_ready w (chunk_bytes cs) ps h (upto_epoch (length h) cs)"
proof -
  have r: "wal_repr w (chunk_bytes cs) ps h (upto_epoch (length h) cs)" and n: "unat (cf_writer_count (wal_config (w_wal w))) = length ps"
    and inv: "\<forall>p \<in> set ps. pieces_inv (length h) (ws_pieces p)" and len: "length h < 2 ^ 56" using st by (simp_all add: sys_state_def)
  have o: "log_repr w (chunk_bytes cs)" "cur_written w < seg_size w" "writers_repr w ps" "wal_durable_epoch (w_wal w) = of_nat (length h)"
    using r log_safeD(1) by (auto simp: wal_repr_def flush_open_def)
  have "unat (wal_durable_epoch (w_wal w)) = length h" using o(4) len by (simp add: unat_of_nat_small)
  then have l: "Suc (length h) < 2 ^ 56" using fr by (simp add: flush_range_def)
  have "0 < cur_dsid w" using o(1) by (simp add: log_repr_def)
  then have "length (chunk_bytes cs) \<le> cur_dsid w * seg_size w" using log_length [OF o(1)] o(2) by (cases "cur_dsid w") simp_all
  moreover have "length (bytes_of_epoch (Suc (length h)) ps [0..<length ps]) \<le> length ps * buffer_size (w_wal w)"
    using bytes_of_epoch_length [OF o(3), of "[0..<length ps]"] by simp
  ultimately have "length (chunk_bytes cs) + length (bytes_of_epoch (Suc (length h)) ps [0..<length ps]) \<le> cur_dsid w * seg_size w + length ps * buffer_size (w_wal w)"
    by (rule add_mono)
  also have "\<dots> < (2 ^ 32 - 2) * seg_size w" using fr unfolding flush_range_def n by blast
  finally have b: "length (chunk_bytes cs) + length (bytes_of_epoch (Suc (length h)) ps [0..<length ps]) < (2 ^ 32 - 2) * seg_size w" .
  have "near_rank (Suc (length h)) (ws_pieces p)" if "p \<in> set ps" for p
    using inv that l by (fastforce simp: near_rank_def pieces_inv_def)
  with r l n b show ?thesis unfolding round_ready_def by blast
qed

text \<open>The bookkeeping of a round, for one that concludes the epoch and for one that does not.\<close>

lemma round_accounts:
  assumes st: "sys_state w xs cs ps h"
  defines "e \<equiv> Suc (length h)" and "qs \<equiv> map (\<lambda>p. p\<lparr>ws_pieces := consume (Suc (length h)) (ws_pieces p)\<rparr>) ps"
  defines "ds \<equiv> cs @ round_chunks e ps"
  shows "chunk_bytes ds = chunk_bytes cs @ bytes_of_epoch e ps [0..<length ps]" "sorted (map ck_epoch ds)" "\<forall>c \<in> set ds. 0 < ck_epoch c \<and> ck_epoch c \<le> e \<and> ck_writer c < length ps"
    "j \<le> length h \<Longrightarrow> upto_epoch j ds = upto_epoch j cs" "upto_epoch e ds = length (chunk_bytes ds)" "length qs = length ps"
    "i < length ps \<Longrightarrow> of_writer i f xs = of_writer i f ds @ epoch_bytes f (ws_sent (qs ! i)) (ws_pieces (qs ! i))"
    "\<forall>p \<in> set qs. pieces_inv (length h) (ws_pieces p)" "\<forall>p \<in> set qs. pieces_inv (Suc (length h)) (ws_pieces p)"
proof -
  note rc = round_chunks_bytes [where e = e and ps = ps]
  have so: "sorted (map ck_epoch cs)" "\<forall>c \<in> set cs. 0 < ck_epoch c \<and> ck_epoch c \<le> e \<and> ck_writer c < length ps" and inv: "\<forall>p \<in> set ps. pieces_inv (length h) (ws_pieces p)"
    and acc: "i < length ps \<Longrightarrow> of_writer i f xs = of_writer i f cs @ epoch_bytes f (ws_sent (ps ! i)) (ws_pieces (ps ! i))"
    using st by (simp_all add: sys_state_def e_def)
  show "chunk_bytes ds = chunk_bytes cs @ bytes_of_epoch e ps [0..<length ps]" by (simp add: ds_def rc(1))
  have "map ck_epoch (round_chunks e ps) = replicate (length ps) e" by (simp add: round_chunks_def o_def map_replicate_const)
  then show "sorted (map ck_epoch ds)" using so by (auto simp: ds_def sorted_append)
  show le: "\<forall>c \<in> set ds. 0 < ck_epoch c \<and> ck_epoch c \<le> e \<and> ck_writer c < length ps"
    using so rc(3) by (auto simp: ds_def e_def round_chunks_def)
  show "j \<le> length h \<Longrightarrow> upto_epoch j ds = upto_epoch j cs" using rc(3) by (simp add: ds_def upto_epoch_none e_def)
  show "upto_epoch e ds = length (chunk_bytes ds)" by (rule upto_epoch_all) (use le in blast)
  show "length qs = length ps" by (simp add: qs_def)
  show "i < length ps \<Longrightarrow> of_writer i f xs = of_writer i f ds @ epoch_bytes f (ws_sent (qs ! i)) (ws_pieces (qs ! i))"
    using acc rc(2) by (simp add: ds_def qs_def epoch_bytes_consume e_def)
  show "\<forall>p \<in> set qs. pieces_inv (length h) (ws_pieces p)" using inv by (auto simp: qs_def pieces_inv_early)
  show "\<forall>p \<in> set qs. pieces_inv (Suc (length h)) (ws_pieces p)" using inv by (auto simp: qs_def pieces_inv_durable)
qed

text \<open>Only a round that fills a segment can have to wait.\<close>

lemma blocked_fills:
  assumes "flush_blocked view w w0 s' e w'"
  shows "cur_dsid w * seg_size w \<le> length s'"
proof -
  have b: "log_repr w0 s'" "cur_written w0 = seg_size w0" "flush_frame w w0" using assms log_safeD(1) unfolding flush_blocked_def by blast+
  have "0 < cur_dsid w0" using b(1) by (simp add: log_repr_def)
  then have "length s' = cur_dsid w0 * seg_size w0" using log_length [OF b(1)] b(2) by (cases "cur_dsid w0") simp_all
  moreover have "cur_dsid w \<le> cur_dsid w0" using b(3) unfolding flush_frame_def by blast
  moreover have "seg_size w0 = seg_size w" by (rule flush_frame_size(1) [OF b(3)])
  ultimately show ?thesis by simp
qed

lemma flusher_runs_inv:
  assumes st: "sys_state w xs cs ps h" and pm: "pmem_persist_spec pm" and fr: "flush_range w"
    and go: "\<And>i. seen i \<noteq> kNvwalThreadStateRunningAndRequestedStop" and run: "flusher_main_loop pm seen w = Ok () w'"
  shows "sys_inv w' xs"
proof -
  let ?e = "Suc (length h)" and ?is = "[0..<length ps]"
  define qs where "qs = map (\<lambda>p. p\<lparr>ws_pieces := consume ?e (ws_pieces p)\<rparr>) ps"
  define ds where "ds = cs @ round_chunks ?e ps"
  note rd = sys_round_ready [OF st fr] and acc = round_accounts [OF st, folded qs_def ds_def]
  have all: "served seen ?is = ?is" "drain ?e ?is ps = qs" using go by (simp_all add: served_all drain_all qs_def)
  have le: "\<forall>c \<in> set ds. 0 < ck_epoch c \<and> ck_epoch c \<le> Suc ?e \<and> ck_writer c < length ps" using acc(3) by (simp add: le_SucI)
  have cov: "record_covers (seg_size w) (h ! j) (upto_epoch j cs) (upto_epoch (Suc j) cs)" if "j < length h" for j
    using st that by (simp add: sys_state_def)
  have n: "unat (cf_writer_count (wal_config (w_wal w))) = length ps" using st by (simp add: sys_state_def)
  have l: "?e < 2 ^ 56" using rd by (simp add: round_ready_def)
  show ?thesis
  proof (cases "wal_stable_epoch (w_wal w) = of_nat ?e")
    case True
    show ?thesis
    proof (cases rule: main_loop_stable [OF rd True pm, of seen, unfolded all])
      case (1 v em)
      have w: "w' = v" using 1(1) run by simp
      have "record_covers (seg_size w) ((h @ [em]) ! j) (upto_epoch j ds) (upto_epoch (Suc j) ds)" if "j < ?e" for j
        using that cov 1(4) acc(1,4,5) by (cases "j = length h") (simp_all add: nth_append)
      moreover have "seg_size w' = seg_size w" using 1(6) w by (simp add: seg_size_def)
      ultimately have "sys_state w' xs ds qs (h @ [em])"
        using 1(2,5,6) w l n acc le by (simp add: sys_state_def del: of_nat_Suc)
      then show ?thesis by (auto simp: sys_inv_def)
    next
      case (2 err w'' k w0)
      then show ?thesis using run by (cases err) (simp_all add: blocked_outcome_def)
    qed
  next
    case False
    show ?thesis
    proof (cases rule: main_loop_early [OF rd False, of pm seen, unfolded all])
      case (1 v)
      have w: "w' = v" using 1(1) run by simp
      have "seg_size w' = seg_size w" using 1(4) w by (simp add: seg_size_def)
      then have "sys_state w' xs ds qs h"
        using 1(2,3,4) w st cov acc by (simp add: sys_state_def del: of_nat_Suc)
      then show ?thesis by (auto simp: sys_inv_def)
    next
      case (2 err w'' k w0)
      then show ?thesis using run by (cases err) (simp_all add: blocked_outcome_def)
    qed
  qed
qed

lemma fsyncer_keeps:
  assumes st: "sys_state w xs cs ps h" and pm: "pmem_persist_spec pm"
    and run: "fsyncer_round pm seen w = Ok () w' \<or> fsyncer_round pm seen w = Fail err w'"
  shows "sys_state w' xs cs ps h"
proof -
  have r: "wal_repr w (chunk_bytes cs) ps h (upto_epoch (length h) cs)" using st by (simp add: sys_state_def)
  have "sys_state v xs cs ps h"
    if "wal_repr v (chunk_bytes cs) ps h (upto_epoch (length h) cs)" "wal_stable_epoch (w_wal v) = wal_stable_epoch (w_wal w)"
      "wal_config (w_wal v) = wal_config (w_wal w)" for v
    using st that by (simp add: sys_state_def seg_size_def)
  then show ?thesis
    using run st by (cases rule: fsyncer_round_repr [OF r pm, of seen]) auto
qed

lemma fsyncer_runs_inv:
  assumes "sys_state w xs cs ps h" "pmem_persist_spec pm"
    and "fsyncer_round pm seen w = Ok () w' \<or> fsyncer_round pm seen w = Fail err w'"
  shows "sys_inv w' xs"
  using fsyncer_keeps [OF assms] by (auto simp: sys_inv_def)

lemma wal_step_inv:
  assumes "wal_step pm (w, xs) (w', xs')" and pm: "pmem_persist_spec pm" and "sys_inv w xs"
  shows "sys_inv w' xs'"
proof -
  obtain cs ps h where st: "sys_state w xs cs ps h" using assms(3) by (auto simp: sys_inv_def)
  from assms(1) show ?thesis
  proof (cases rule: wal_step.cases)
    case client_logs
    then show ?thesis using client_logs_inv [OF st] by simp
  next
    case client_tags
    then show ?thesis using client_tags_inv [OF st] by simp
  next
    case stable_advances
    then show ?thesis using stable_advances_inv [OF st] by simp
  next
    case flusher_runs
    then show ?thesis by (auto intro: flusher_runs_inv [OF st pm])
  next
    case fsyncer_runs
    then show ?thesis by (auto intro: fsyncer_runs_inv [OF st pm])
  next
    case reader_moves
    then show ?thesis using reader_moves_inv [OF st] by simp
  qed
qed

section \<open>Runs\<close>

text \<open>
  What a transition system and its invariant owe each other, and what follows for every run. The laws are
  discharged for the steps of the log below; the states a start satisfies are added in a second contract.
\<close>

locale transition_invariant =
  fixes step :: "'s \<Rightarrow> 's \<Rightarrow> bool" and inv :: "'s \<Rightarrow> bool"
  assumes step_keeps: "inv s \<Longrightarrow> step s t \<Longrightarrow> inv t"
begin

lemma run_keeps: "step\<^sup>*\<^sup>* s t \<Longrightarrow> inv s \<Longrightarrow> inv t"
  by (induction rule: rtranclp_induct) (auto intro: step_keeps)

end

locale started_invariant = transition_invariant +
  fixes start :: "'a \<Rightarrow> bool"
  assumes start_inv: "start s \<Longrightarrow> inv s"
begin

lemma reached: "start s \<Longrightarrow> step\<^sup>*\<^sup>* s t \<Longrightarrow> inv t"
  using run_keeps start_inv by blast

end

definition wal_step_on :: "pmem \<Rightarrow> world \<times> chunk list \<Rightarrow> world \<times> chunk list \<Rightarrow> bool" where
  "wal_step_on pm a b \<longleftrightarrow> pmem_persist_spec pm \<and> wal_step pm a b"

definition sys_inv_at :: "world \<times> chunk list \<Rightarrow> bool" where
  "sys_inv_at a \<longleftrightarrow> sys_inv (fst a) (snd a)"

interpretation wal_run: transition_invariant "wal_step_on pm" sys_inv_at for pm
proof
  fix a b
  assume "sys_inv_at a" "wal_step_on pm a b"
  then show "sys_inv_at b"
    using wal_step_inv [of pm "fst a" "snd a" "fst b" "snd b"] by (simp add: sys_inv_at_def wal_step_on_def)
qed

lemma wal_step_on_run: "pmem_persist_spec pm \<Longrightarrow> (wal_step_on pm)\<^sup>*\<^sup>* = (wal_step pm)\<^sup>*\<^sup>*"
  by (simp add: wal_step_on_def [abs_def])

section \<open>What is left after a crash\<close>

text \<open>
  A byte of the log as a reader finds it: a segment that is synced is read from its file on disk, any
  other from its file in NVDIMM.
\<close>

definition byte_at :: "byte list option \<Rightarrow> nat \<Rightarrow> byte option" where
  "byte_at c j = (case c of None \<Rightarrow> None | Some c \<Rightarrow> if j < length c then Some (c ! j) else None)"

definition log_byte :: "world \<Rightarrow> nat \<Rightarrow> byte option" where
  "log_byte w x =
     (let S = seg_size w; j = x mod S
      in case (if x div S < last_synced w then nvwal_construct_disk_segment_path (w_wal w) (of_nat (Suc (x div S)))
               else sg_nv_baseaddr (wal_segments (w_wal w) ! (x div S mod seg_count w))) of
           None \<Rightarrow> None
         | Some p \<Rightarrow> byte_at (os_files (w_os w) p) j)"

definition crashed :: "world \<Rightarrow> world" where
  "crashed w = w\<lparr>w_os := crash_os (w_os w)\<rparr>"

lemma crash_readable:
  assumes r: "wal_repr w s ps h n" and x: "x < n"
  shows "log_byte (crashed w) x = Some (s ! x)"
proof -
  let ?S = "seg_size w"
  have parts: "log_safe os_durable w s" "durable_upto w s n" "n \<le> length s" "wal_env w"
    using r by (simp_all add: wal_repr_def flush_open_def log_durable_def)
  have S: "0 < ?S" using log_safeD(1) [OF parts(1)] by (simp add: log_repr_def)
  obtain cb where cb: "wal_nv_control_block (w_wal w) = Some cb" using wal_env_names(3) [OF parts(4)] by blast
  have L: "last_synced (crashed w) = last_synced w"
    using parts(4) cb by (simp add: last_synced_def crashed_def crash_os_def wal_env_def)
  have f: "seg_size (crashed w) = ?S" "seg_count (crashed w) = seg_count w" "w_wal (crashed w) = w_wal w" "os_files (w_os (crashed w)) = os_durable (w_os w)"
    by (simp_all add: crashed_def crash_os_def seg_size_def seg_count_def)
  show ?thesis
  proof (cases "x div ?S < last_synced w")
    case True
    then have "on_disk os_durable w s (Suc (x div ?S))" using parts(1) by (simp add: log_safe_def)
    then obtain p c where p: "nvwal_construct_disk_segment_path (w_wal w) (of_nat (Suc (x div ?S))) = Some p"
      "os_durable (w_os w) p = Some c" "take ?S c = log_slice ?S (Suc (x div ?S)) s" by (auto simp: on_disk_def split: option.splits)
    have d: "x div ?S * ?S + x mod ?S = x" "x mod ?S < ?S" using S by simp_all
    have xl: "x < length s" using x parts(3) by simp
    have "x div ?S * ?S \<le> length s" using d(1) xl by linarith
    then have "take ?S c ! (x mod ?S) = s ! x"
      unfolding p(3) log_slice_def using d by simp
    moreover have "x mod ?S < length (take ?S c)"
      unfolding p(3) log_slice_def using d xl by (simp add: less_diff_conv)
    ultimately show ?thesis
      unfolding log_byte_def f L Let_def using True p(1,2) by (simp add: byte_at_def)
  next
    case False
    then have "nv_durable w s x" using parts(2) x by (auto simp: durable_upto_def)
    then show ?thesis
      unfolding log_byte_def f L Let_def using False by (auto simp: nv_durable_def byte_at_def split: option.splits)
  qed
qed

text \<open>Before a crash every byte of the log can be read, durable or not.\<close>

lemma log_readable:
  assumes r: "log_safe os_files w s" and x: "x < length s"
  shows "log_byte w x = Some (s ! x)"
proof -
  let ?S = "seg_size w" and ?d = "Suc (x div seg_size w)"
  note l = log_safeD(1) [OF r]
  have S: "0 < ?S" "0 < cur_dsid w" using l by (simp_all add: log_repr_def)
  have xs: "x div ?S * ?S + x mod ?S = x" "x mod ?S < ?S" using S by simp_all
  show ?thesis
  proof (cases "x div ?S < last_synced w")
    case True
    then have "on_disk os_files w s ?d" using r by (simp add: log_safe_def)
    then obtain p c where p: "nvwal_construct_disk_segment_path (w_wal w) (of_nat ?d) = Some p"
      "os_files (w_os w) p = Some c" "take ?S c = log_slice ?S ?d s" by (auto simp: on_disk_def split: option.splits)
    have "x div ?S * ?S \<le> length s" using xs(1) x by linarith
    then have "take ?S c ! (x mod ?S) = s ! x"
      unfolding p(3) log_slice_def using xs by simp
    moreover have "x mod ?S < length (take ?S c)"
      unfolding p(3) log_slice_def using xs x by (simp add: less_diff_conv)
    ultimately show ?thesis unfolding log_byte_def Let_def using True p(1,2) by (simp add: byte_at_def)
  next
    case False
    have len: "length s = (cur_dsid w - 1) * ?S + cur_written w" by (rule log_length [OF l])
    have w: "cur_written w \<le> ?S" using seg_okD [OF l cur_segment_index(2) [OF l]] by (simp add: seg_ok_def Let_def cur_written_def)
    have "x div ?S < cur_dsid w"
    proof -
      have "x < cur_dsid w * ?S" using x len w S(2) by (cases "cur_dsid w") simp_all
      then show ?thesis using S(1) by (simp add: div_less_iff_less_mult)
    qed
    then have d: "last_synced w < ?d" "?d \<le> cur_dsid w" using False by simp_all
    have k: "x mod ?S < seg_fill w ?d"
    proof (cases "?d = cur_dsid w")
      case True
      then have "x div ?S = cur_dsid w - 1" by simp
      then show ?thesis using True xs(1) x len by (simp add: seg_fill_def)
    qed (use xs(2) in \<open>simp add: seg_fill_def\<close>)
    show ?thesis
    proof (rule segment_content [OF r d])
      fix p
      assume "sg_nv_baseaddr (wal_segments (w_wal w) ! ((?d - 1) mod seg_count w)) = Some p" "length (mapped p (w_os w)) = ?S" "seg_fill w ?d \<le> ?S"
        "\<And>k. k < seg_fill w ?d \<Longrightarrow> mapped p (w_os w) ! k = s ! ((?d - 1) * ?S + k)"
      moreover from this(1-3) k obtain m where "os_files (w_os w) p = Some m" "mapped p (w_os w) = m"
        using S(1) by (auto simp: mapped_def split: option.splits)
      ultimately show ?thesis
        using False k xs unfolding log_byte_def Let_def by (simp add: byte_at_def)
    qed
  qed
qed

end
