(* ===== verification/Cursor_Correct.thy ===== *)
theory Cursor_Correct
  imports Cursor System
begin

text \<open>
  What a cursor reads while the other threads rest: the bytes of its epochs, region by region. A region ends
  where its segment or its epoch ends.
\<close>

section \<open>Fetching metadata\<close>

lemma of_nat_epochs:
  assumes "a < 2 ^ 60" "b < 2 ^ 60"
  shows "nvwal_is_epoch_after (of_nat a) (of_nat b) \<longleftrightarrow> b < a" "nvwal_is_epoch_equal_or_after (of_nat a) (of_nat b) \<longleftrightarrow> b \<le> a"
    "nvwal_increment_epoch (of_nat a) = of_nat (Suc a)" "nvwal_add_epoch (of_nat a) 2 = of_nat (a + 2)" "(of_nat a :: u64) = of_nat b \<longleftrightarrow> a = b"
proof -
  have e: "epoch_at a = of_nat a" "epoch_at b = of_nat b" "epoch_at (Suc a) = of_nat (Suc a)" "epoch_at (a + 2) = of_nat (a + 2)"
    using assms by (simp_all add: epoch_at_small del: of_nat_Suc of_nat_add)
  have r: "a < b + 2 ^ 62" "b < a + 2 ^ 62" using assms by simp_all
  show "nvwal_is_epoch_after (of_nat a) (of_nat b) \<longleftrightarrow> b < a" using epoch_at_after [OF r] by (simp only: e)
  show "nvwal_is_epoch_equal_or_after (of_nat a) (of_nat b) \<longleftrightarrow> b \<le> a" using epoch_at_equal_or_after [OF r] by (simp only: e)
  show "nvwal_increment_epoch (of_nat a) = of_nat (Suc a)" using increment_epoch_at [of a] by (simp only: e)
  show "nvwal_add_epoch (of_nat a) 2 = of_nat (a + 2)" using add_epoch_at [of 2 a] by (simp only: e) simp
  show "(of_nat a :: u64) = of_nat b \<longleftrightarrow> a = b" using epoch_at_eq [OF r] by (simp only: e)
qed

text \<open>The entries of a cursor from the current one on are those of the epochs after the first \<open>i\<close>, up to \<open>m\<close>.\<close>

definition fetched :: "MdsEpochMetadata list \<Rightarrow> nat \<Rightarrow> nat \<Rightarrow> NvwalLogCursor \<Rightarrow> bool" where
  "fetched h i m cu \<longleftrightarrow>
     (\<exists>c n. cu_fetched_epochs_current cu = of_nat c \<and> cu_fetched_epochs_count cu = of_nat n \<and> c \<le> n \<and> n \<le> kNvwalCursorEpochPrefetches \<and>
        length (cu_fetched_epochs cu) = kNvwalCursorEpochPrefetches \<and> n - c = m - i \<and> i \<le> m \<and>
        (\<forall>k < m - i. cu_fetched_epochs cu ! (c + k) = cursor_epoch_of (of_nat (Suc (i + k))) (h ! (i + k))))"

text \<open>How far a fetch from the epoch after the first \<open>i\<close> reaches.\<close>

definition fetch_end :: "nat \<Rightarrow> nat \<Rightarrow> nat \<Rightarrow> nat" where
  "fetch_end i e l = min (i + kNvwalCursorEpochPrefetches) (min (e - 1) l)"

lemma to_epoch_end:
  assumes "i < e" "i \<le> l" "e < 2 ^ 57" "l < 2 ^ 56"
  shows "cursor_to_epoch (of_nat (Suc i)) (of_nat e) (of_nat l) = of_nat (Suc (fetch_end i e l))"
proof -
  have le: "Suc i < 2 ^ 60" "e < 2 ^ 60" "l < 2 ^ 60" "i + 3 < 2 ^ 60" using assms by simp_all
  have a: "nvwal_add_epoch (of_nat (Suc i)) (of_nat kNvwalCursorEpochPrefetches) = of_nat (i + 3)"
    using of_nat_epochs(4) [OF le(1,1)] by (simp add: numeral_3_eq_3)
  have b: "(if nvwal_is_epoch_after (of_nat (i + 3)) (of_nat e) then of_nat e else of_nat (i + 3) :: u64) = of_nat (min (i + 3) e)"
    unfolding of_nat_epochs(1) [OF le(4,2)] by (simp add: min_def)
  have c: "(if nvwal_is_epoch_after (of_nat x) (of_nat l) then nvwal_increment_epoch (of_nat l) else of_nat x :: u64) = of_nat (min x (Suc l))"
    if "x < 2 ^ 60" for x unfolding of_nat_epochs(1) [OF that le(3)] of_nat_epochs(3) [OF le(3,3)]
    by (cases "l < x") (simp_all add: min_absorb1 min_absorb2 Suc_le_eq del: of_nat_Suc)
  have m: "min (min (i + 3) e) (Suc l) = Suc (fetch_end i e l)" using assms by (auto simp: fetch_end_def)
  have "min (i + 3) e < 2 ^ 60" using le(2) by simp
  from c [OF this] show ?thesis unfolding cursor_to_epoch_def Let_def a b m .
qed

lemma iterator_next_at:
  assumes "mds_repr w h" "iter_at h i (Suc n) it" "i < n" "n \<le> length h"
  shows "\<exists>it'. mds_epoch_iterator_next it w = Ok it' w \<and> (Suc i < n \<longrightarrow> iter_at h (Suc i) (Suc n) it' \<and> it_entry it' = h ! Suc i)"
proof -
  have l: "length h < 2 ^ 56" using mds.repr_history [OF assms(1)] by (simp add: history_ok_def)
  have cur: "it_cur_epoch_id it = of_nat (Suc i)" "it_end_epoch_id it = of_nat (Suc n)" "iter_ok h it"
    using assms(2) by (auto simp: iter_at_def)
  let ?it = "it\<lparr>it_cur_epoch_id := of_nat (Suc (Suc i))\<rparr>"
  have nx: "mds_epoch_iterator_next it w = (if Suc i < n then mds_epoch_iterator_prefetch ?it w else Ok ?it w)"
    using assms(3,4) l cur u64_le_of_nat [of "Suc n" "Suc (Suc i)"] by (simp add: mds_epoch_iterator_next_def Let_def not_le [symmetric])
  show ?thesis
  proof (cases "Suc i < n")
    case True
    have "iter_at h (Suc i) (Suc n) ?it" using assms(2-4) True cur l by (auto simp: iter_at_def iter_ok_def)
    from prefetch_reads [OF assms(1) this] show ?thesis using nx True by auto
  qed (use nx in auto)
qed

lemma fetch_loop_step:
  assumes "mds_repr w h" "iter_at h i (Suc n) it" "it_entry it = h ! i" "i < n" "n \<le> length h" "k < kNvwalCursorEpochPrefetches"
  obtains it' where "cursor_fetch_loop (Suc k) (of_nat (Suc i)) (of_nat (Suc n)) it (cu, w) =
      (let cu' = cu\<lparr>cu_fetched_epochs := (cu_fetched_epochs cu)[kNvwalCursorEpochPrefetches - Suc k := cursor_epoch_of (of_nat (Suc i)) (h ! i)],
                    cu_fetched_epochs_count := cu_fetched_epochs_count cu + 1\<rparr>
       in if n \<le> Suc i then Ok (of_nat (Suc (Suc i))) (cu', w) else cursor_fetch_loop k (of_nat (Suc (Suc i))) (of_nat (Suc n)) it' (cu', w))"
    "Suc i < n \<longrightarrow> iter_at h (Suc i) (Suc n) it' \<and> it_entry it' = h ! Suc i"
proof -
  have l: "length h < 2 ^ 56" and ep: "em_epoch_id (h ! i) = of_nat (Suc i)"
    using mds.repr_history [OF assms(1)] assms(4,5) by (simp_all add: history_ok_def)
  obtain it' where it': "mds_epoch_iterator_next it w = Ok it' w" "Suc i < n \<longrightarrow> iter_at h (Suc i) (Suc n) it' \<and> it_entry it' = h ! Suc i"
    using iterator_next_at [OF assms(1,2,4,5)] by blast
  have nd: "\<not> mds_epoch_iterator_done it"
    using assms(2,4,5) l by (simp add: mds_epoch_iterator_done_def u64_le_of_nat iter_at_def del: of_nat_Suc)
  have e: "nvwal_increment_epoch (of_nat (Suc i)) = of_nat (Suc (Suc i))"
    "nvwal_is_epoch_equal_or_after (of_nat (Suc (Suc i))) (of_nat (Suc n)) \<longleftrightarrow> n \<le> Suc i"
    using of_nat_epochs(3) [of "Suc i" 0] of_nat_epochs(2) [of "Suc (Suc i)" "Suc n"] assms(4,5) l by simp_all
  show thesis
    by (rule that [OF _ it'(2)]) (use nd assms(3) ep e it'(1) in \<open>simp_all add: Let_def del: of_nat_Suc kNvwalCursorEpochPrefetches_def\<close>)
qed

lemma fetch_loop:
  assumes m: "mds_repr w h" and n: "n \<le> length h"
  shows "iter_at h i (Suc n) it \<Longrightarrow> it_entry it = h ! i \<Longrightarrow> i < n \<Longrightarrow> n - i \<le> k \<Longrightarrow> k \<le> kNvwalCursorEpochPrefetches \<Longrightarrow>
     length (cu_fetched_epochs cu) = kNvwalCursorEpochPrefetches \<Longrightarrow> cu_fetched_epochs_count cu = of_nat (kNvwalCursorEpochPrefetches - k) \<Longrightarrow>
     \<exists>es. cursor_fetch_loop k (of_nat (Suc i)) (of_nat (Suc n)) it (cu, w) =
            Ok (of_nat (Suc n)) (cu\<lparr>cu_fetched_epochs := es, cu_fetched_epochs_count := of_nat (kNvwalCursorEpochPrefetches - k + (n - i))\<rparr>, w) \<and>
          length es = kNvwalCursorEpochPrefetches \<and> (\<forall>j < kNvwalCursorEpochPrefetches - k. es ! j = cu_fetched_epochs cu ! j) \<and>
          (\<forall>j < n - i. es ! (kNvwalCursorEpochPrefetches - k + j) = cursor_epoch_of (of_nat (Suc (i + j))) (h ! (i + j)))"
proof (induction k arbitrary: i it cu)
  case 0
  have False using 0(3,4) by linarith
  then show ?case ..
next
  case (Suc k)
  let ?K = kNvwalCursorEpochPrefetches
  let ?cu = "cu\<lparr>cu_fetched_epochs := (cu_fetched_epochs cu)[?K - Suc k := cursor_epoch_of (of_nat (Suc i)) (h ! i)], cu_fetched_epochs_count := of_nat (?K - k)\<rparr>"
  have k: "k < ?K" "?K - k = Suc (?K - Suc k)" using Suc.prems(5) by simp_all
  have "cu_fetched_epochs_count cu + 1 = of_nat (?K - k)" unfolding Suc.prems(7) k(2) by simp
  then obtain it' where r: "cursor_fetch_loop (Suc k) (of_nat (Suc i)) (of_nat (Suc n)) it (cu, w) =
      (if n \<le> Suc i then Ok (of_nat (Suc (Suc i))) (?cu, w) else cursor_fetch_loop k (of_nat (Suc (Suc i))) (of_nat (Suc n)) it' (?cu, w))"
    "Suc i < n \<longrightarrow> iter_at h (Suc i) (Suc n) it' \<and> it_entry it' = h ! Suc i"
    using fetch_loop_step [OF m Suc.prems(1-3) n k(1), of cu] unfolding Let_def by metis
  show ?case
  proof (cases "Suc i < n")
    case False
    then have "n = Suc i" using Suc.prems(3) by simp
    then show ?thesis
      using r(1) Suc.prems(6) k by (intro exI [of _ "cu_fetched_epochs ?cu"]) (simp del: of_nat_Suc kNvwalCursorEpochPrefetches_def)
  next
    case True
    have c: "iter_at h (Suc i) (Suc n) it'" "it_entry it' = h ! Suc i" using r(2) True by simp_all
    have d: "n - Suc i \<le> k" "k \<le> ?K" using Suc.prems(4,5) by linarith+
    have f: "length (cu_fetched_epochs ?cu) = ?K" "cu_fetched_epochs_count ?cu = of_nat (?K - k)" using Suc.prems(6) by simp_all
    obtain es where es: "cursor_fetch_loop k (of_nat (Suc (Suc i))) (of_nat (Suc n)) it' (?cu, w) =
        Ok (of_nat (Suc n)) (?cu\<lparr>cu_fetched_epochs := es, cu_fetched_epochs_count := of_nat (?K - k + (n - Suc i))\<rparr>, w)"
      "length es = ?K" "\<forall>j < ?K - k. es ! j = cu_fetched_epochs ?cu ! j"
      "\<forall>j < n - Suc i. es ! (?K - k + j) = cursor_epoch_of (of_nat (Suc (Suc i + j))) (h ! (Suc i + j))"
      using Suc.IH [OF c True d f] by blast
    have z: "es ! (?K - Suc k) = cursor_epoch_of (of_nat (Suc i)) (h ! i)" using es(3) k Suc.prems(6) by (simp del: of_nat_Suc kNvwalCursorEpochPrefetches_def)
    have "es ! (?K - Suc k + j) = cursor_epoch_of (of_nat (Suc (i + j))) (h ! (i + j))" if "j < n - i" for j
    proof (cases j)
      case 0
      then show ?thesis using z by simp
    next
      case (Suc j')
      then show ?thesis using es(4) [rule_format, of j'] that k(2) by (simp del: of_nat_Suc kNvwalCursorEpochPrefetches_def)
    qed
    moreover have eq: "?K - k + (n - Suc i) = ?K - Suc k + (n - i)" using k(2) True by linarith
    have "cursor_fetch_loop (Suc k) (of_nat (Suc i)) (of_nat (Suc n)) it (cu, w) =
        Ok (of_nat (Suc n)) (cu\<lparr>cu_fetched_epochs := es, cu_fetched_epochs_count := of_nat (?K - Suc k + (n - i))\<rparr>, w)"
      unfolding r(1) es(1) eq using True by (simp only: not_le [symmetric] if_False) simp
    moreover have "es ! j = cu_fetched_epochs cu ! j" if "j < ?K - Suc k" for j
      using es(3) [rule_format, of j] that k(2) by (simp del: kNvwalCursorEpochPrefetches_def)
    ultimately show ?thesis using es(2) by blast
  qed
qed

text \<open>A fetch from the epoch after the first \<open>i\<close>, when these are durable.\<close>

lemma fetch_epochs:
  assumes m: "mds_repr w h" and d: "wal_durable_epoch (w_wal w) = of_nat (length h)" and i: "i \<le> length h" "i < e" "e < 2 ^ 57"
    and cu: "length (cu_fetched_epochs cu) = kNvwalCursorEpochPrefetches" "cu_end_epoch cu = of_nat e"
  defines "n \<equiv> fetch_end i e (length h)"
  shows "\<exists>es. cursor_fetch_epoch_metadata (of_nat (Suc i)) (cu, w) =
       Ok () (cu\<lparr>cu_fetched_epochs := es, cu_fetched_epochs_count := of_nat (n - i), cu_fetched_epochs_current := 0\<rparr>, w) \<and>
     length es = kNvwalCursorEpochPrefetches \<and> (\<forall>j < n - i. es ! j = cursor_epoch_of (of_nat (Suc (i + j))) (h ! (i + j)))"
proof -
  let ?cu = "cu\<lparr>cu_fetched_epochs_current := 0, cu_fetched_epochs_count := 0\<rparr>" and ?K = kNvwalCursorEpochPrefetches
  have l: "length h < 2 ^ 56" using mds.repr_history [OF m] by (simp add: history_ok_def)
  have n: "i \<le> n" "n \<le> i + ?K" "n \<le> length h" using i by (auto simp: fetch_end_def n_def)
  have b: "Suc i < 2 ^ 60" "Suc n < 2 ^ 60" "0 < (2 ^ 60 :: nat)" using n(3) l i(1) by simp_all
  have nz: "(of_nat (Suc i) :: u64) \<noteq> 0" using of_nat_epochs(5) [OF b(1,3)] by simp
  have eq: "(of_nat (Suc n) :: u64) = of_nat (Suc i) \<longleftrightarrow> n = i" "nvwal_is_epoch_after (of_nat (Suc n)) (of_nat (Suc i)) \<longleftrightarrow> i < n"
    using of_nat_epochs(5,1) [OF b(2,1)] by simp_all
  have te: "cursor_to_epoch (of_nat (Suc i)) (cu_end_epoch cu) (wal_durable_epoch (w_wal w)) = of_nat (Suc n)"
    unfolding cu(2) d n_def by (rule to_epoch_end [OF i(2,1,3) l])
  note run = cursor_fetch_epoch_metadata_def [of "of_nat (Suc i)" "(cu, w)"]
  show ?thesis
  proof (cases "n = i")
    case True
    then show ?thesis using nz eq(1) te cu(1) by (intro exI [of _ "cu_fetched_epochs cu"]) (simp add: run Let_def del: of_nat_Suc)
  next
    case False
    then have lt: "i < n" "i < length h" using n by simp_all
    obtain it where it: "mds_epoch_iterator_init (of_nat (Suc i)) (of_nat (Suc n)) w = Ok it w" "iter_at h i (Suc n) it" "it_entry it = h ! i"
      using iterator_init_at [OF m lt(2), of "Suc n"] lt n l by auto
    have k: "n - i \<le> ?K" "length (cu_fetched_epochs ?cu) = ?K" "cu_fetched_epochs_count ?cu = of_nat (?K - ?K)" using n(2) cu(1) by simp_all
    obtain es where es: "cursor_fetch_loop ?K (of_nat (Suc i)) (of_nat (Suc n)) it (?cu, w) =
        Ok (of_nat (Suc n)) (?cu\<lparr>cu_fetched_epochs := es, cu_fetched_epochs_count := of_nat (?K - ?K + (n - i))\<rparr>, w)"
      "length es = ?K" "\<forall>j < n - i. es ! (?K - ?K + j) = cursor_epoch_of (of_nat (Suc (i + j))) (h ! (i + j))"
      using fetch_loop [OF m n(3) it(2,3) lt(1) k(1) order_refl k(2,3)] by blast
    have "(of_nat (n - i) :: u32) \<le> of_nat ?K" using k(1) by (simp add: word_le_nat_alt unsigned_of_nat take_bit_eq_mod)
    then show ?thesis
      using es nz eq te it(1) False lt(1) by (intro exI [of _ es]) (simp add: run Let_def del: of_nat_Suc kNvwalCursorEpochPrefetches_def of_nat_diff)
  qed
qed

section \<open>Segments\<close>

text \<open>Where the bytes of a segment are, and what a read of a part of it gives.\<close>

definition segment_addr :: "world \<Rightarrow> nat \<Rightarrow> addr option" where
  "segment_addr w d = (if d \<le> last_synced w then nvwal_construct_disk_segment_path (w_wal w) (of_nat d)
                       else sg_nv_baseaddr (wal_segments (w_wal w) ! ((d - 1) mod seg_count w)))"

lemma segment_region:
  assumes r: "log_safe os_files w s" and d: "0 < d" "d \<le> cur_dsid w" and len: "off + len \<le> seg_fill w d"
  obtains p where "segment_addr w d = Some p" "mem_read (mapped p (w_os w)) off len = take len (drop ((d - 1) * seg_size w + off) s)"
    "os_files (w_os w) p \<noteq> None \<or> last_synced w < d"
proof -
  let ?S = "seg_size w"
  have l: "log_repr w s" and lt: "last_synced w < cur_dsid w" using r log_safeD(1) by (simp_all add: log_safe_def)
  show thesis
  proof (cases "d \<le> last_synced w")
    case True
    then have "on_disk os_files w s d" using r d by (simp add: log_safe_def)
    then obtain p c where p: "nvwal_construct_disk_segment_path (w_wal w) (of_nat d) = Some p" "os_files (w_os w) p = Some c" "take ?S c = log_slice ?S d s"
      by (auto simp: on_disk_def split: option.splits)
    have "off + len \<le> ?S" using len True lt by (simp add: seg_fill_def)
    then have "take len (drop off c) = take len (drop off (take ?S c))" by (simp add: drop_take)
    also have "\<dots> = take len (drop ((d - 1) * ?S + off) s)"
      unfolding p(3) log_slice_def using \<open>off + len \<le> ?S\<close> by (simp add: drop_take add.commute)
    finally show thesis using that [of p] p(1,2) True by (simp add: segment_addr_def mem_read_def mapped_def)
  next
    case False
    then have ls: "last_synced w < d" by simp
    show thesis
    proof (rule segment_content [OF r ls d(2)])
      fix p
      assume p: "sg_nv_baseaddr (wal_segments (w_wal w) ! ((d - 1) mod seg_count w)) = Some p" "length (mapped p (w_os w)) = ?S" "seg_fill w d \<le> ?S"
        "(d - 1) * ?S + seg_fill w d \<le> length s" "\<And>k. k < seg_fill w d \<Longrightarrow> mapped p (w_os w) ! k = s ! ((d - 1) * ?S + k)"
      have "take len (drop off (mapped p (w_os w))) = take len (drop ((d - 1) * ?S + off) s)"
        using p len by (intro nth_equalityI) (auto simp: add.assoc)
      then show thesis using that [of p] p(1) False ls by (simp add: segment_addr_def mem_read_def)
    qed
  qed
qed

text \<open>An operating system that differs in new file descriptors only.\<close>

definition new_fds :: "os \<Rightarrow> os \<Rightarrow> bool" where
  "new_fds s t \<longleftrightarrow> os_files t = os_files s \<and> os_durable t = os_durable s \<and> os_dirs t = os_dirs s \<and> os_cblock t = os_cblock s \<and>
     os_cblock_durable t = os_cblock_durable s \<and> os_resp t = os_resp s \<and> os_next_fd s \<le> os_next_fd t \<and> (\<forall>fd < os_next_fd s. os_fds t fd = os_fds s fd)"

definition pinned :: "nat \<Rightarrow> NvwalContext \<Rightarrow> NvwalContext" where
  "pinned i wal = wal\<lparr>wal_segments := (wal_segments wal)[i := (wal_segments wal ! i)\<lparr>sg_nv_reader_pins := sg_nv_reader_pins (wal_segments wal ! i) + 1\<rparr>]\<rparr>"

text \<open>
  The world \<open>w\<close> while a cursor holds segment \<open>d\<close>, or none, in a world that was \<open>v\<close> before: a segment on disk is open
  and mapped, one in NVDIMM is pinned.
\<close>

definition holding :: "world \<Rightarrow> nat \<Rightarrow> NvwalLogCursor \<Rightarrow> world \<Rightarrow> bool" where
  "holding v d cu w \<longleftrightarrow> cu_cur_segment_id cu = of_nat d \<and> 0 < d \<and> d \<le> cur_dsid v \<and> new_fds (w_os v) (w_os w) \<and>
     cu_cur_segment_data cu = segment_addr v d \<and>
     (if d \<le> last_synced v
      then w_wal w = w_wal v \<and> \<not> cu_cur_segment_from_nv_segment cu \<and> os_next_fd (w_os v) \<le> cu_cur_segment_disk_fd cu
      else w_wal w = pinned ((d - 1) mod seg_count v) (w_wal v) \<and> cu_cur_segment_from_nv_segment cu \<and> cu_cur_segment_disk_fd cu = 0)"

definition holding_none :: "world \<Rightarrow> NvwalLogCursor \<Rightarrow> world \<Rightarrow> bool" where
  "holding_none v cu w \<longleftrightarrow> w_wal w = w_wal v \<and> new_fds (w_os v) (w_os w) \<and> cu_cur_segment_data cu = None \<and>
     \<not> cu_cur_segment_from_nv_segment cu \<and> cu_cur_segment_disk_fd cu = 0"

text \<open>A world a cursor can read: no segment is held by the flusher, and the pins are far from their limit.\<close>

definition quiet :: "world \<Rightarrow> byte list \<Rightarrow> MdsEpochMetadata list \<Rightarrow> bool" where
  "quiet v s h \<longleftrightarrow> log_safe os_files v s \<and> cur_written v < seg_size v \<and> mds_repr v h \<and> wal_env v \<and> wal_durable_epoch (w_wal v) = of_nat (length h) \<and> pins_ok v"

text \<open>Changes of the segment a cursor holds.\<close>

definition set_held :: "addr option \<Rightarrow> int \<Rightarrow> bool \<Rightarrow> u64 \<Rightarrow> NvwalLogCursor \<Rightarrow> NvwalLogCursor" where
  "set_held a fd b d cu = cu\<lparr>cu_cur_segment_data := a, cu_cur_segment_disk_fd := fd, cu_cur_segment_from_nv_segment := b, cu_cur_segment_id := d\<rparr>"

lemma quietD:
  assumes "quiet v s h"
  shows "log_safe os_files v s" "mds_repr v h" "wal_env v" "os_resp (w_os v) = []" "0 < os_next_fd (w_os v)" "seg_count v \<le> length (wal_segments (w_wal v))"
    "0 < seg_count v" "cur_dsid v < 2 ^ 32" "last_synced v < cur_dsid v" "length h < 2 ^ 56"
proof -
  show q: "log_safe os_files v s" "mds_repr v h" "wal_env v" using assms by (simp_all add: quiet_def)
  show "os_resp (w_os v) = []" by (rule mds_files_durable(3) [OF q(2)])
  show "0 < os_next_fd (w_os v)" using wal_env_names(2) [OF q(3)] by (simp add: disk_ready_def)
  show "seg_count v \<le> length (wal_segments (w_wal v))" "0 < seg_count v" "cur_dsid v < 2 ^ 32" using log_safeD(1) [OF q(1)] by (simp_all add: log_repr_def)
  show "last_synced v < cur_dsid v" using q(1) by (simp add: log_safe_def)
  show "length h < 2 ^ 56" using mds.repr_history [OF q(2)] by (simp add: history_ok_def)
qed

lemma unpin:
  assumes "i < length (wal_segments wal)" "unat (sg_nv_reader_pins (wal_segments wal ! i)) + 1 < 2 ^ 31"
  shows "nvwal_pin_read_unlock (sg_nv_reader_pins (wal_segments (pinned i wal) ! i)) = Ok () (sg_nv_reader_pins (wal_segments wal ! i))"
    "(pinned i wal)\<lparr>wal_segments := (wal_segments (pinned i wal))[i := (wal_segments (pinned i wal) ! i)\<lparr>sg_nv_reader_pins := sg_nv_reader_pins (wal_segments wal ! i)\<rparr>]\<rparr> = wal"
proof -
  let ?p = "sg_nv_reader_pins (wal_segments wal ! i)"
  have "unat (?p + 1) = unat ?p + 1" using assms(2) unat_add_lem [of ?p 1] by simp
  then have "0 < sint (?p + 1)" using assms(2) by (simp add: sint_u32_alt add_pos_nonneg)
  then show "nvwal_pin_read_unlock (sg_nv_reader_pins (wal_segments (pinned i wal) ! i)) = Ok () ?p"
    using assms(1) by (simp add: pinned_def nvwal_pin_read_unlock_def)
  have "(wal_segments wal ! i)\<lparr>sg_nv_reader_pins := ?p\<rparr> = wal_segments wal ! i" by (cases "wal_segments wal ! i") simp
  then show "(pinned i wal)\<lparr>wal_segments := (wal_segments (pinned i wal))[i := (wal_segments (pinned i wal) ! i)\<lparr>sg_nv_reader_pins := ?p\<rparr>]\<rparr> = wal"
    using assms(1) by (cases wal) (simp add: pinned_def)
qed

lemma pins_of:
  assumes "quiet v s h"
  shows "(d - 1) mod seg_count v < length (wal_segments (w_wal v))"
    "unat (sg_nv_reader_pins (wal_segments (w_wal v) ! ((d - 1) mod seg_count v))) + 1 < 2 ^ 31"
proof -
  have i: "(d - 1) mod seg_count v < seg_count v" using quietD(7) [OF assms] by simp
  then show "(d - 1) mod seg_count v < length (wal_segments (w_wal v))" using quietD(6) [OF assms] by simp
  show "unat (sg_nv_reader_pins (wal_segments (w_wal v) ! ((d - 1) mod seg_count v))) + 1 < 2 ^ 31"
    using assms i by (simp add: quiet_def pins_ok_def)
qed

lemma close_none:
  assumes "holding_none v cu w"
  shows "cursor_close_cur_segment (cu, w) = Ok () (set_held None 0 False 0 cu, w)"
  using assms by (cases cu) (simp add: holding_none_def cursor_close_cur_segment_def set_held_def)

lemma close_held:
  assumes q: "quiet v s h" and hd: "holding v d cu w"
  shows "\<exists>w'. cursor_close_cur_segment (cu, w) = Ok () (set_held None 0 False 0 cu, w') \<and> holding_none v (set_held None 0 False 0 cu) w'"
proof (cases "d \<le> last_synced v")
  case True
  have f: "w_wal w = w_wal v" "\<not> cu_cur_segment_from_nv_segment cu" "os_next_fd (w_os v) \<le> cu_cur_segment_disk_fd cu" "new_fds (w_os v) (w_os w)"
    "cu_cur_segment_data cu = segment_addr v d" "0 < d" "d \<le> cur_dsid v" using hd True by (simp_all add: holding_def)
  have calm: "os_resp (w_os w) = []" using f(4) quietD(4) [OF q] by (simp add: new_fds_def)
  have fd: "cu_cur_segment_disk_fd cu \<noteq> 0" "cu_cur_segment_disk_fd cu \<noteq> - 1" using f(3) quietD(5) [OF q] by linarith+
  obtain p where p: "segment_addr v d = Some p" by (rule segment_region [OF quietD(1) [OF q] f(6,7), of 0 0]) simp_all
  let ?t = "(w_os w)\<lparr>os_fds := (os_fds (w_os w))(cu_cur_segment_disk_fd cu := None)\<rparr>"
  have "cursor_close_cur_segment (cu, w) = Ok () (set_held None 0 False 0 cu, w\<lparr>w_os := ?t\<rparr>)"
    using f(2,5) p fd calm by (cases cu) (simp add: cursor_close_cur_segment_def set_held_def sys_munmap_def sys_close_def os_simps)
  moreover have "new_fds (w_os v) ?t" using f(3,4) by (auto simp: new_fds_def)
  ultimately show ?thesis using f(1) by (intro exI [of _ "w\<lparr>w_os := ?t\<rparr>"]) (simp add: holding_none_def set_held_def)
next
  case False
  let ?i = "(d - 1) mod seg_count v"
  have f: "w_wal w = pinned ?i (w_wal v)" "cu_cur_segment_from_nv_segment cu" "cu_cur_segment_disk_fd cu = 0" "new_fds (w_os v) (w_os w)"
    "cu_cur_segment_id cu = of_nat d" "0 < d" "d \<le> cur_dsid v" using hd False by (simp_all add: holding_def)
  note pn = pins_of [OF q, of d] and un = unpin [OF pins_of [OF q, of d]]
  have "d < 2 ^ 64" using f(7) quietD(8) [OF q] by simp
  then have i: "unat (ucast ((cu_cur_segment_id cu - 1) mod ucast (wal_segment_count (w_wal w))) :: u32) = ?i"
    using segment_index [of d v] f(1,5,6) quietD(7) [OF q] by (simp add: pinned_def)
  have il: "?i < length (wal_segments (w_wal w))" using pn(1) f(1) by (simp add: pinned_def)
  have "cursor_close_cur_segment (cu, w) = Ok () (set_held None 0 False 0 cu, w\<lparr>w_wal := w_wal v\<rparr>)"
    using f(2,3) il un unfolding f(1) [symmetric]
    by (simp add: cursor_close_cur_segment_def Let_def i set_held_def set_segment_def)
  then show ?thesis using f(4) by (intro exI [of _ "w\<lparr>w_wal := w_wal v\<rparr>"]) (simp add: holding_none_def set_held_def)
qed

lemma pin_segment:
  assumes "unat p + 1 < 2 ^ 31"
  shows "nvwal_pin_read_unconditional_lock p = Ok () (p + 1)"
  using assms by (simp add: nvwal_pin_read_unconditional_lock_def nvwal_pin_read_try_lock_def atomic_compare_exchange_def sint_u32_alt)

text \<open>Opening a segment while nobody interferes.\<close>

lemma open_attempt:
  assumes q: "quiet v s h" and cl: "holding_none v cu w" and d: "0 < d" "d \<le> cur_dsid v"
  shows "\<exists>a fd b w'. cursor_open_attempt id (of_nat d) (cu, w) = Ok True (cu\<lparr>cu_cur_segment_data := a, cu_cur_segment_disk_fd := fd, cu_cur_segment_from_nv_segment := b\<rparr>, w') \<and>
           holding v d (set_held a fd b (of_nat d) cu) w'"
proof -
  have f: "w_wal w = w_wal v" "new_fds (w_os v) (w_os w)" "\<not> cu_cur_segment_from_nv_segment cu" "cu_cur_segment_disk_fd cu = 0"
    using cl by (simp_all add: holding_none_def)
  obtain cb where cb: "wal_nv_control_block (w_wal v) = Some cb" using wal_env_names(3) [OF quietD(3) [OF q]] by blast
  let ?L = "sp_last_synced_dsid (cb_fsyncer_progress (os_cblock (w_os w) cb))"
  have L: "unat ?L = last_synced v" using cb f(2) by (simp add: last_synced_def new_fds_def)
  have ud: "unat (of_nat d :: u64) = d" using d(2) quietD(8) [OF q] by (intro unat_of_nat_small) simp
  have le: "(of_nat d :: u64) \<le> ?L \<longleftrightarrow> d \<le> last_synced v" by (simp add: word_le_nat_alt ud L)
  have calm: "os_resp (w_os w) = []" using f(2) quietD(4) [OF q] by (simp add: new_fds_def)
  obtain p where p: "segment_addr v d = Some p" "os_files (w_os v) p \<noteq> None \<or> last_synced v < d"
    by (rule segment_region [OF quietD(1) [OF q] d, of 0 0]) simp_all
  show ?thesis
  proof (cases "d \<le> last_synced v")
    case True
    then have L0: "?L \<noteq> 0" using L d(1) by auto
    have path: "nvwal_construct_disk_segment_path (w_wal v) (of_nat d) = Some p" using p(1) True by (simp add: segment_addr_def)
    obtain c where c: "os_files (w_os w) p = Some c" using p(2) True f(2) by (auto simp: new_fds_def)
    have nd: "os_dirs (w_os w) p = None" using wal_env_names(2) [OF quietD(3) [OF q]] path f(2) by (auto simp: disk_ready_def new_fds_def)
    let ?n = "os_next_fd (w_os w)"
    let ?t = "(w_os w)\<lparr>os_fds := (os_fds (w_os w))(?n \<mapsto> \<lparr>fd_path = p, fd_append = False, fd_pos = 0\<rparr>), os_next_fd := ?n + 1\<rparr>"
    have n: "0 < ?n" "os_next_fd (w_os v) \<le> ?n" using f(2) quietD(5) [OF q] by (simp_all add: new_fds_def)
    have "cursor_open_attempt id (of_nat d) (cu, w) = Ok True (cu\<lparr>cu_cur_segment_data := Some p, cu_cur_segment_disk_fd := ?n, cu_cur_segment_from_nv_segment := False\<rparr>, w\<lparr>w_os := ?t\<rparr>)"
      using cb L0 le True path c nd n calm f
      by (cases cu) (simp add: cursor_open_attempt_def Let_def sys_open_def new_fd_def sys_mmap_def fd_file_def os_simps)
    moreover have "new_fds (w_os v) ?t" using f(2) by (auto simp: new_fds_def)
    ultimately show ?thesis using True d p(1) n f(1)
      by (intro exI [of _ "Some p"] exI [of _ ?n] exI [of _ False] exI [of _ "w\<lparr>w_os := ?t\<rparr>"]) (simp add: holding_def set_held_def)
  next
    case False
    let ?i = "(d - 1) mod seg_count v"
    note pn = pins_of [OF q, of d]
    have "d < 2 ^ 64" using d(2) quietD(8) [OF q] by simp
    then have i: "unat (ucast ((of_nat d - 1 :: u64) mod ucast (wal_segment_count (w_wal v))) :: u32) = ?i"
      using segment_index [of d v] d quietD(7) [OF q] by simp
    have "unat (sg_dsid (wal_segments (w_wal v) ! ?i)) = d" using window_segment(2) [OF quietD(1) [OF q] _ d(2)] False by simp
    then have sd: "sg_dsid (wal_segments (w_wal v) ! ?i) = of_nat d" by (metis ud unat_eq_u64)
    have base: "sg_nv_baseaddr (wal_segments (w_wal v) ! ?i) = Some p" using p(1) False by (simp add: segment_addr_def)
    have "cursor_open_attempt id (of_nat d) (cu, w) = Ok True (cu\<lparr>cu_cur_segment_data := Some p, cu_cur_segment_disk_fd := 0, cu_cur_segment_from_nv_segment := True\<rparr>, w\<lparr>w_wal := pinned ?i (w_wal v)\<rparr>)"
      using cb le False i pn(1) pin_segment [OF pn(2)] sd base f
      by (cases cu) (simp add: cursor_open_attempt_def Let_def set_segment_def pinned_def)
    then show ?thesis using False d p(1) f(2)
      by (intro exI [of _ "Some p"] exI [of _ 0] exI [of _ True] exI [of _ "w\<lparr>w_wal := pinned ?i (w_wal v)\<rparr>"]) (simp add: holding_def set_held_def)
  qed
qed

lemma open_segment:
  assumes q: "quiet v s h" and cl: "holding v d0 cu w \<or> holding_none v cu w" and d: "0 < d" "d \<le> cur_dsid v"
  shows "\<exists>a fd b w'. cursor_open_segment [] (of_nat d) (cu, w) = Ok () (set_held a fd b (of_nat d) cu, w') \<and>
           holding v d (set_held a fd b (of_nat d) cu) w'"
proof -
  let ?c = "set_held None 0 False 0 cu"
  have "\<exists>w1. cursor_close_cur_segment (cu, w) = Ok () (?c, w1) \<and> holding_none v ?c w1"
    using cl
  proof
    assume "holding_none v cu w"
    moreover from this have "holding_none v ?c w" by (simp add: holding_none_def set_held_def)
    ultimately show ?thesis using close_none by blast
  qed (rule close_held [OF q])
  then obtain w1 where w1: "cursor_close_cur_segment (cu, w) = Ok () (?c, w1)" "holding_none v ?c w1" by blast
  obtain a fd b w' where o: "cursor_open_attempt id (of_nat d) (?c, w1) = Ok True (?c\<lparr>cu_cur_segment_data := a, cu_cur_segment_disk_fd := fd, cu_cur_segment_from_nv_segment := b\<rparr>, w')"
    "holding v d (set_held a fd b (of_nat d) ?c) w'" using open_attempt [OF q w1(2) d] by blast
  have nz: "(of_nat d :: u64) \<noteq> 0" using of_nat_neq_0_u64 [OF d(1)] d(2) quietD(8) [OF q] by simp
  have "set_held a fd b (of_nat d) ?c = set_held a fd b (of_nat d) cu" by (simp add: set_held_def)
  with o w1(1) nz show ?thesis
    by (intro exI [of _ a] exI [of _ fd] exI [of _ b] exI [of _ w']) (simp add: cursor_open_segment_def set_held_def)
qed

text \<open>The metadata store is as before while a segment is held.\<close>

lemma held_mds:
  assumes q: "quiet v s h" and cl: "holding v d cu w \<or> holding_none v cu w"
  shows "mds_repr w h" "wal_durable_epoch (w_wal w) = of_nat (length h)" "seg_size w = seg_size v" "cf_segment_size (wal_config (w_wal w)) = cf_segment_size (wal_config (w_wal v))"
proof -
  have f: "wal_config (w_wal w) = wal_config (w_wal v)" "wal_mds (w_wal w) = wal_mds (w_wal v)" "wal_nv_control_block (w_wal w) = wal_nv_control_block (w_wal v)"
    "wal_durable_epoch (w_wal w) = wal_durable_epoch (w_wal v)" "new_fds (w_os v) (w_os w)"
    using cl by (auto simp: holding_def holding_none_def pinned_def split: if_splits)
  have "\<forall>pf \<in> set (io_files (mds_io (wal_mds (w_wal v)))). pf_fd pf < os_next_fd (w_os v)" using quietD(3) [OF q] by (simp add: wal_env_def)
  then have "same_mds v w" using f by (auto simp: same_mds_def new_fds_def)
  then show "mds_repr w h" by (rule mds_repr_transfer) (rule quietD(2) [OF q])
  show "wal_durable_epoch (w_wal w) = of_nat (length h)" using f(4) q by (simp add: quiet_def)
  show "seg_size w = seg_size v" "cf_segment_size (wal_config (w_wal w)) = cf_segment_size (wal_config (w_wal v))" using f(1) by (simp_all add: seg_size_def)
qed

section \<open>The position of a cursor\<close>

text \<open>The epochs of the records are consecutive parts of the log; \<open>pos j\<close> is where the epoch after the first \<open>j\<close> begins.\<close>

definition epochs_at :: "nat \<Rightarrow> MdsEpochMetadata list \<Rightarrow> (nat \<Rightarrow> nat) \<Rightarrow> nat \<Rightarrow> bool" where
  "epochs_at S h pos n \<longleftrightarrow> mono pos \<and> pos (length h) \<le> n \<and> (\<forall>j < length h. record_covers S (h ! j) (pos j) (pos (Suc j)))"

abbreviation first_seg :: "MdsEpochMetadata \<Rightarrow> nat" where "first_seg em \<equiv> unat (em_from_seg_id em)"

abbreviation last_seg :: "MdsEpochMetadata \<Rightarrow> nat" where "last_seg em \<equiv> unat (em_to_seg_id em)"

lemma epochs_at_record:
  assumes "epochs_at S h pos n" "j < length h"
  shows "0 < first_seg (h ! j)" "(first_seg (h ! j) - 1) * S + unat (em_from_offset (h ! j)) = pos j" "unat (em_from_offset (h ! j)) < S"
    "0 < last_seg (h ! j)" "(last_seg (h ! j) - 1) * S + unat (em_to_off (h ! j)) = pos (Suc j)" "unat (em_to_off (h ! j)) < S"
    "pos j \<le> pos (Suc j)" "pos (Suc j) \<le> n"
proof -
  have r: "record_covers S (h ! j) (pos j) (pos (Suc j))" and m: "mono pos" and n: "pos (length h) \<le> n"
    using assms by (simp_all add: epochs_at_def)
  show "0 < first_seg (h ! j)" "(first_seg (h ! j) - 1) * S + unat (em_from_offset (h ! j)) = pos j" "unat (em_from_offset (h ! j)) < S"
    "0 < last_seg (h ! j)" "(last_seg (h ! j) - 1) * S + unat (em_to_off (h ! j)) = pos (Suc j)" "unat (em_to_off (h ! j)) < S"
    using r by (simp_all add: record_covers_def)
  show "pos j \<le> pos (Suc j)" using m by (simp add: monoD)
  have "pos (Suc j) \<le> pos (length h)" using m assms(2) by (simp add: monoD)
  then show "pos (Suc j) \<le> n" using n by simp
qed

lemma place_unique:
  fixes a b o1 o2 S :: nat
  assumes "a * S + o1 = b * S + o2" "o1 < S" "o2 < S"
  shows "a = b" "o1 = o2"
proof -
  have "(a * S + o1) div S = a" "(b * S + o2) div S = b" using assms(2,3) by simp_all
  then show "a = b" using assms(1) by simp
  then show "o1 = o2" using assms(1) by simp
qed

text \<open>An epoch ends in the segment in which the next one begins.\<close>

lemma epochs_meet:
  assumes "epochs_at S h pos n" "Suc j < length h"
  shows "first_seg (h ! Suc j) = last_seg (h ! j)" "em_from_offset (h ! Suc j) = em_to_off (h ! j)"
proof -
  note a = epochs_at_record [OF assms(1), of j] and b = epochs_at_record [OF assms(1), of "Suc j"]
  have e: "(first_seg (h ! Suc j) - 1) * S + unat (em_from_offset (h ! Suc j)) = (last_seg (h ! j) - 1) * S + unat (em_to_off (h ! j))"
    using a(5) b(2) assms(2) by simp
  have "first_seg (h ! Suc j) - 1 = last_seg (h ! j) - 1" "unat (em_from_offset (h ! Suc j)) = unat (em_to_off (h ! j))"
    using place_unique [OF e] a(6) b(3) assms(2) by simp_all
  then show "first_seg (h ! Suc j) = last_seg (h ! j)" "em_from_offset (h ! Suc j) = em_to_off (h ! j)"
    using a(4) b(1) assms(2) by (simp_all add: word_unat_eq_iff)
qed

text \<open>All segments of an epoch are in the log.\<close>

lemma epoch_segments:
  assumes e: "epochs_at S h pos n" "j < length h" and S: "S = seg_size v" and l: "log_repr v s" "cur_written v < seg_size v" "n \<le> length s"
  shows "first_seg (h ! j) \<le> last_seg (h ! j)" "last_seg (h ! j) \<le> cur_dsid v"
    "last_seg (h ! j) = cur_dsid v \<Longrightarrow> unat (em_to_off (h ! j)) \<le> cur_written v"
proof -
  note r = epochs_at_record [OF e]
  have "(first_seg (h ! j) - 1) * S \<le> (last_seg (h ! j) - 1) * S + unat (em_to_off (h ! j))" using r(2,5,7) by linarith
  also have "\<dots> < last_seg (h ! j) * S" using r(4,6) by (cases "last_seg (h ! j)") simp_all
  finally have "first_seg (h ! j) - 1 < last_seg (h ! j)" by simp
  then show "first_seg (h ! j) \<le> last_seg (h ! j)" using r(1) by linarith
  have len: "length s = (cur_dsid v - 1) * S + cur_written v" using log_length [OF l(1)] S by simp
  have c: "0 < cur_dsid v" using l(1) by (simp add: log_repr_def)
  have b: "(last_seg (h ! j) - 1) * S + unat (em_to_off (h ! j)) \<le> (cur_dsid v - 1) * S + cur_written v" using r(5,8) l(3) len by linarith
  then have "(last_seg (h ! j) - 1) * S < (cur_dsid v - 1) * S + S" using l(2) S by linarith
  also have "\<dots> = cur_dsid v * S" using c by (cases "cur_dsid v") simp_all
  finally have "last_seg (h ! j) - 1 < cur_dsid v" by simp
  then show "last_seg (h ! j) \<le> cur_dsid v" using r(4) by linarith
  show "last_seg (h ! j) = cur_dsid v \<Longrightarrow> unat (em_to_off (h ! j)) \<le> cur_written v" using b by simp
qed

text \<open>A cursor in segment \<open>d\<close> of the epoch after the first \<open>j\<close>, and one whose region begins at position \<open>x\<close> of the log.\<close>

definition cursor_in :: "world \<Rightarrow> MdsEpochMetadata list \<Rightarrow> nat \<Rightarrow> nat \<Rightarrow> nat \<Rightarrow> cstate \<Rightarrow> bool" where
  "cursor_in v h e j d st \<longleftrightarrow> (case st of (cu, w) \<Rightarrow>
     j < min (e - 1) (length h) \<and> e < 2 ^ 57 \<and> holding v d cu w \<and> cu_current_epoch cu = of_nat (Suc j) \<and> cu_end_epoch cu = of_nat e \<and>
     (\<exists>m. fetched h j m cu \<and> j < m \<and> m \<le> min (e - 1) (length h)) \<and> first_seg (h ! j) \<le> d \<and> d \<le> last_seg (h ! j))"

lemma cursor_upd [simp]:
  "fetched h j m (cu\<lparr>cu_cur_offset := x\<rparr>) = fetched h j m cu" "fetched h j m (cu\<lparr>cu_cur_len := x\<rparr>) = fetched h j m cu"
  "fetched h j m (set_held a fd b y cu) = fetched h j m cu"
  "holding v d (cu\<lparr>cu_cur_offset := x\<rparr>) w = holding v d cu w" "holding v d (cu\<lparr>cu_cur_len := x\<rparr>) w = holding v d cu w"
  by (simp_all add: fetched_def holding_def set_held_def)

lemma cursor_in_upd [simp]:
  "cursor_in v h e j d (cu\<lparr>cu_cur_offset := x\<rparr>, w) = cursor_in v h e j d (cu, w)" "cursor_in v h e j d (cu\<lparr>cu_cur_len := x\<rparr>, w) = cursor_in v h e j d (cu, w)"
  by (simp_all add: cursor_in_def)

definition cursor_at :: "world \<Rightarrow> MdsEpochMetadata list \<Rightarrow> (nat \<Rightarrow> nat) \<Rightarrow> nat \<Rightarrow> nat \<Rightarrow> nat \<Rightarrow> nat \<Rightarrow> cstate \<Rightarrow> bool" where
  "cursor_at v h pos e j d x st \<longleftrightarrow> cursor_in v h e j d st \<and> (d - 1) * seg_size v + unat (cu_cur_offset (fst st)) = x \<and>
     x + unat (cu_cur_len (fst st)) = (if d = last_seg (h ! j) then pos (Suc j) else d * seg_size v)"

lemma cursor_data:
  assumes q: "quiet v s h" and e: "epochs_at (seg_size v) h pos (length s)" and at: "cursor_at v h pos e j d x (cu, w)"
  shows "nvwal_cursor_is_valid cu" "nvwal_cursor_get_data cu (w_os w) = take (unat (cu_cur_len cu)) (drop x s)"
proof -
  let ?S = "seg_size v"
  have j: "j < length h" and hd: "holding v d cu w" and d: "d \<le> last_seg (h ! j)" "first_seg (h ! j) \<le> d"
    and x: "(d - 1) * ?S + unat (cu_cur_offset cu) = x"
    and y: "x + unat (cu_cur_len cu) = (if d = last_seg (h ! j) then pos (Suc j) else d * ?S)"
    using at by (simp_all add: cursor_at_def cursor_in_def)
  have l: "log_repr v s" "cur_written v < ?S" using log_safeD(1) [OF quietD(1) [OF q]] q by (simp_all add: quiet_def)
  note r = epochs_at_record [OF e j] and sg = epoch_segments [OF e j refl l order_refl]
  have d0: "0 < d" "d \<le> cur_dsid v" using r(1) d sg(2) by linarith+
  have "unat (cu_cur_offset cu) + unat (cu_cur_len cu) \<le> seg_fill v d"
  proof (cases "d = last_seg (h ! j)")
    case True
    then have "unat (cu_cur_offset cu) + unat (cu_cur_len cu) = unat (em_to_off (h ! j))" using x y r(5) by simp
    then show ?thesis using True sg(3) r(6) by (simp add: seg_fill_def)
  next
    case False
    then have "d < cur_dsid v" using d(1) sg(2) by linarith
    moreover have "(d - 1) * ?S + ?S = d * ?S" using d0(1) by (cases d) simp_all
    ultimately show ?thesis using False x y by (simp add: seg_fill_def)
  qed
  then obtain p where p: "segment_addr v d = Some p" "mem_read (mapped p (w_os v)) (unat (cu_cur_offset cu)) (unat (cu_cur_len cu)) = take (unat (cu_cur_len cu)) (drop x s)"
    using segment_region [OF quietD(1) [OF q] d0] x by metis
  have f: "cu_cur_segment_data cu = Some p" "mapped p (w_os w) = mapped p (w_os v)"
    using hd p(1) by (simp_all add: holding_def new_fds_def mapped_def)
  then show "nvwal_cursor_is_valid cu" "nvwal_cursor_get_data cu (w_os w) = take (unat (cu_cur_len cu)) (drop x s)"
    using p(2) by (simp_all add: nvwal_cursor_is_valid_def nvwal_cursor_get_data_def nvwal_cursor_get_data_length_def)
qed

text \<open>The region that is set for an offset in a segment of an epoch.\<close>

lemma set_len_at:
  assumes q: "quiet v s h" and e: "epochs_at (seg_size v) h pos (length s)" and c: "cursor_in v h e' j d (cu, w)"
    and off: "unat (cu_cur_offset cu) < seg_size v" "d = last_seg (h ! j) \<Longrightarrow> unat (cu_cur_offset cu) \<le> unat (em_to_off (h ! j))"
  shows "cursor_at v h pos e' j d ((d - 1) * seg_size v + unat (cu_cur_offset cu)) (cursor_set_len (cursor_epoch_of u (h ! j)) (cu, w))"
proof -
  let ?S = "seg_size v" and ?o = "cu_cur_offset cu"
  have j: "j < length h" and hd: "holding v d cu w" using c by (simp_all add: cursor_in_def)
  have id: "cu_cur_segment_id cu = of_nat d" "0 < d" "d \<le> cur_dsid v" using hd by (simp_all add: holding_def)
  have "unat (of_nat d :: u64) = d" using id(3) quietD(8) [OF q] by (intro unat_of_nat_small) simp
  then have eq: "em_to_seg_id (h ! j) = of_nat d \<longleftrightarrow> d = last_seg (h ! j)" by (metis unat_eq_u64)
  have sz: "unat (cf_segment_size (wal_config (w_wal w))) = ?S" using held_mds(4) [OF q disjI1 [OF hd]] by (simp add: seg_size_def)
  note r = epochs_at_record [OF e j]
  have ds: "(d - 1) * ?S + ?S = d * ?S" using id(2) by (cases d) simp_all
  show ?thesis
  proof (cases "d = last_seg (h ! j)")
    case True
    let ?n = "ucast (em_to_off (h ! j)) - ?o"
    have "?o \<le> ucast (em_to_off (h ! j))" using off(2) [OF True] by (simp add: word_le_nat_alt)
    then have "unat ?n = unat (em_to_off (h ! j)) - unat ?o" by (simp add: unat_sub)
    then have "cursor_at v h pos e' j d ((d - 1) * ?S + unat ?o) (cu\<lparr>cu_cur_len := ?n\<rparr>, w)"
      using c off(2) [OF True] r(5) True by (simp add: cursor_at_def)
    then show ?thesis using True eq id(1) by (simp add: cursor_set_len_def cursor_epoch_of_def)
  next
    case False
    let ?n = "cf_segment_size (wal_config (w_wal w)) - ?o"
    have "?o \<le> cf_segment_size (wal_config (w_wal w))" using off(1) sz by (simp add: word_le_nat_alt)
    then have "unat ?n = ?S - unat ?o" using sz by (simp add: unat_sub)
    then have "cursor_at v h pos e' j d ((d - 1) * ?S + unat ?o) (cu\<lparr>cu_cur_len := ?n\<rparr>, w)"
      using c off(1) ds False by (simp add: cursor_at_def)
    then show ?thesis using False eq id(1) by (simp add: cursor_set_len_def cursor_epoch_of_def)
  qed
qed

lemma fetched_current:
  assumes "fetched h j m cu" "j < m"
  obtains c where "cu_fetched_epochs_current cu = of_nat c" "c < kNvwalCursorEpochPrefetches" "c < length (cu_fetched_epochs cu)"
    "cu_fetched_epochs_current cu < cu_fetched_epochs_count cu" "unat (cu_fetched_epochs_current cu) = c"
    "cu_fetched_epochs cu ! c = cursor_epoch_of (of_nat (Suc j)) (h ! j)"
proof -
  obtain c n where f: "cu_fetched_epochs_current cu = of_nat c" "cu_fetched_epochs_count cu = of_nat n" "n \<le> kNvwalCursorEpochPrefetches"
    "length (cu_fetched_epochs cu) = kNvwalCursorEpochPrefetches" "n - c = m - j"
    "\<forall>k < m - j. cu_fetched_epochs cu ! (c + k) = cursor_epoch_of (of_nat (Suc (j + k))) (h ! (j + k))"
    using assms(1) unfolding fetched_def by blast
  have "c < n" using f(5) assms(2) by linarith
  moreover have u: "unat (of_nat c :: u32) = c" "unat (of_nat n :: u32) = n" using \<open>c < n\<close> f(3) by (simp_all add: unsigned_of_nat take_bit_eq_mod)
  ultimately have "cu_fetched_epochs_current cu < cu_fetched_epochs_count cu" using f(1,2) by (simp add: word_less_nat_alt)
  then show thesis using that [of c] f \<open>c < n\<close> u(1) spec [OF f(6), of 0] assms(2) by simp
qed

text \<open>Dropping the current entry.\<close>

lemma fetched_next:
  assumes "fetched h j m cu" "j < m"
  shows "fetched h (Suc j) m (cu\<lparr>cu_current_epoch := u, cu_fetched_epochs_current := cu_fetched_epochs_current cu + 1\<rparr>)"
    "cu_fetched_epochs_current cu + 1 < cu_fetched_epochs_count cu \<longleftrightarrow> Suc j < m"
proof -
  obtain c n where f: "cu_fetched_epochs_current cu = of_nat c" "cu_fetched_epochs_count cu = of_nat n" "n \<le> kNvwalCursorEpochPrefetches"
    "length (cu_fetched_epochs cu) = kNvwalCursorEpochPrefetches" "n - c = m - j"
    "\<forall>k < m - j. cu_fetched_epochs cu ! (c + k) = cursor_epoch_of (of_nat (Suc (j + k))) (h ! (j + k))"
    using assms(1) unfolding fetched_def by blast
  have cn: "c < n" using f(5) assms(2) by linarith
  have s: "cu_fetched_epochs_current cu + 1 = of_nat (Suc c)" using f(1) by simp
  have u: "unat (of_nat (Suc c) :: u32) = Suc c" "unat (of_nat n :: u32) = n" using cn f(3) by (simp_all add: unsigned_of_nat take_bit_eq_mod del: of_nat_Suc)
  show "cu_fetched_epochs_current cu + 1 < cu_fetched_epochs_count cu \<longleftrightarrow> Suc j < m"
    unfolding s f(2) word_less_nat_alt u using f(5) assms(2) cn by linarith
  have "cu_fetched_epochs cu ! (Suc c + k) = cursor_epoch_of (of_nat (Suc (Suc j + k))) (h ! (Suc j + k))" if "k < m - Suc j" for k
    using spec [OF f(6), of "Suc k"] that by simp
  then show "fetched h (Suc j) m (cu\<lparr>cu_current_epoch := u, cu_fetched_epochs_current := cu_fetched_epochs_current cu + 1\<rparr>)"
    unfolding fetched_def using f(2-5) s cn assms(2) by (intro exI [of _ "Suc c"] exI [of _ n]) simp
qed

lemma fetchedI:
  assumes "length es = kNvwalCursorEpochPrefetches" "i \<le> n" "n - i \<le> kNvwalCursorEpochPrefetches"
    and "\<forall>j < n - i. es ! j = cursor_epoch_of (of_nat (Suc (i + j))) (h ! (i + j))"
  shows "fetched h i n (cu\<lparr>cu_fetched_epochs := es, cu_fetched_epochs_count := of_nat (n - i), cu_fetched_epochs_current := 0\<rparr>)"
  unfolding fetched_def using assms by (intro exI [of _ 0] exI [of _ "n - i"]) simp

text \<open>Fetching when the entries are used up, as the next epoch begins.\<close>

lemma refill:
  assumes q: "quiet v s h" and hd: "holding v d cu w" and f: "fetched h i m cu" "i \<le> min (e - 1) (length h)" "m \<le> min (e - 1) (length h)" and e: "0 < e" "e < 2 ^ 57"
    and cu: "cu_end_epoch cu = of_nat e"
  shows "\<exists>cu'. (if i < m then Ok True (cu, w)
      else and_then (cursor_fetch_epoch_metadata (of_nat (Suc i)) (cu, w)) (\<lambda>_ (cu, w).
             c_assert (cu_fetched_epochs_current cu = 0)
               (if cu_fetched_epochs_count cu = 0 then and_then (cursor_close_cur_segment (cu, w)) (\<lambda>_ st. Ok False st) else Ok True (cu, w)))) =
      (if i < min (e - 1) (length h) then Ok True (cu', w) else and_then (cursor_close_cur_segment (cu', w)) (\<lambda>_ st. Ok False st)) \<and>
    holding v d cu' w \<and> cu_current_epoch cu' = cu_current_epoch cu \<and> cu_end_epoch cu' = of_nat e \<and>
    (i < min (e - 1) (length h) \<longrightarrow> (\<exists>m. fetched h i m cu' \<and> i < m \<and> m \<le> min (e - 1) (length h)))"
proof (cases "i < m")
  case True
  then have "i < min (e - 1) (length h)" using f(3) by linarith
  then show ?thesis using True f hd cu by (intro exI [of _ cu]) auto
next
  case False
  let ?n = "fetch_end i e (length h)"
  have i: "i \<le> length h" "i < e" using f(2) e(1) by auto
  have len: "length (cu_fetched_epochs cu) = kNvwalCursorEpochPrefetches" using f(1) by (auto simp: fetched_def)
  obtain es where es: "cursor_fetch_epoch_metadata (of_nat (Suc i)) (cu, w) =
      Ok () (cu\<lparr>cu_fetched_epochs := es, cu_fetched_epochs_count := of_nat (?n - i), cu_fetched_epochs_current := 0\<rparr>, w)"
    "length es = kNvwalCursorEpochPrefetches" "\<forall>j < ?n - i. es ! j = cursor_epoch_of (of_nat (Suc (i + j))) (h ! (i + j))"
    using fetch_epochs [OF held_mds(1,2) [OF q disjI1 [OF hd]] i e(2) len cu] by blast
  let ?cu = "cu\<lparr>cu_fetched_epochs := es, cu_fetched_epochs_count := of_nat (?n - i), cu_fetched_epochs_current := 0\<rparr>"
  have n: "i \<le> ?n" "?n - i \<le> kNvwalCursorEpochPrefetches" "?n \<le> min (e - 1) (length h)" "i < min (e - 1) (length h) \<longleftrightarrow> i < ?n"
    using f(2) by (auto simp: fetch_end_def)
  have "unat (of_nat (?n - i) :: u32) = ?n - i" using n(2) by (simp add: unsigned_of_nat take_bit_eq_mod)
  then have z: "(of_nat (?n - i) :: u32) = 0 \<longleftrightarrow> \<not> i < min (e - 1) (length h)" using n(4) by (metis not_less diff_is_0_eq unat_eq_0)
  have "fetched h i ?n ?cu" by (rule fetchedI [OF es(2) n(1,2) es(3)])
  moreover have "holding v d ?cu w" using hd by (simp add: holding_def)
  ultimately show ?thesis using False es(1) z n(3,4) cu by (intro exI [of _ ?cu]) auto
qed

section \<open>Advancing\<close>

lemma next_epoch:
  assumes q: "quiet v s h" and e: "epochs_at (seg_size v) h pos (length s)" and c: "cursor_in v h e' j d (cu, w)" and d: "d = last_seg (h ! j)"
  shows "\<exists>cu' w'. cursor_next_epoch (cu, w) = Ok () (cu', w') \<and>
     (if Suc j < min (e' - 1) (length h) then cursor_at v h pos e' (Suc j) d (pos (Suc j)) (cu', w') else holding_none v cu' w')"
proof -
  let ?m = "min (e' - 1) (length h)" and ?u = "of_nat (Suc (Suc j)) :: u64"
  let ?cu = "cu\<lparr>cu_current_epoch := ?u, cu_fetched_epochs_current := cu_fetched_epochs_current cu + 1\<rparr>"
  obtain m where c': "j < ?m" "e' < 2 ^ 57" "holding v d cu w" "cu_current_epoch cu = of_nat (Suc j)" "cu_end_epoch cu = of_nat e'" "fetched h j m cu" "j < m" "m \<le> ?m"
    using c by (auto simp: cursor_in_def)
  have j: "j < length h" using c'(1) by simp
  have "Suc j < 2 ^ 60" using j quietD(10) [OF q] by simp
  from of_nat_epochs(3) [OF this this] have inc: "nvwal_increment_epoch (cu_current_epoch cu) = ?u" unfolding c'(4) .
  note fn = fetched_next [OF c'(6,7)]
  have hd: "holding v d ?cu w" using c'(3) by (simp add: holding_def)
  have s1: "Suc j \<le> ?m" and s2: "0 < e'" and s3: "cu_end_epoch ?cu = of_nat e'" and cc: "cu_current_epoch ?cu = ?u" using c'(1,5) by auto
  obtain cu1 where r: "(if Suc j < m then Ok True (?cu, w)
      else and_then (cursor_fetch_epoch_metadata ?u (?cu, w)) (\<lambda>_ (cu, w).
             c_assert (cu_fetched_epochs_current cu = 0)
               (if cu_fetched_epochs_count cu = 0 then and_then (cursor_close_cur_segment (cu, w)) (\<lambda>_ st. Ok False st) else Ok True (cu, w)))) =
      (if Suc j < ?m then Ok True (cu1, w) else and_then (cursor_close_cur_segment (cu1, w)) (\<lambda>_ st. Ok False st))"
    "holding v d cu1 w" "cu_current_epoch cu1 = ?u" "cu_end_epoch cu1 = of_nat e'" "Suc j < ?m \<longrightarrow> (\<exists>m. fetched h (Suc j) m cu1 \<and> Suc j < m \<and> m \<le> ?m)"
    using refill [OF q hd fn(1) [of ?u] s1 c'(8) s2 c'(2) s3, unfolded cc] by blast
  let ?k = "\<lambda>more (cu, w). if \<not> more then Ok () (cu, w)
              else elem_at (cu_fetched_epochs cu) (unat (cu_fetched_epochs_current cu)) (\<lambda>meta.
                c_assert (ce_epoch meta = cu_current_epoch cu)
                  (Ok () (cursor_set_len meta (cu\<lparr>cu_cur_offset := ucast (ce_start_offset meta)\<rparr>, w))))"
  have run: "cursor_next_epoch (cu, w) = and_then (if Suc j < ?m then Ok True (cu1, w) else and_then (cursor_close_cur_segment (cu1, w)) (\<lambda>_ st. Ok False st)) ?k"
    unfolding r(1) [symmetric] using fn(2) inc by (simp add: cursor_next_epoch_def Let_def del: of_nat_Suc)
  show ?thesis
  proof (cases "Suc j < ?m")
    case False
    obtain w' where w': "cursor_close_cur_segment (cu1, w) = Ok () (set_held None 0 False 0 cu1, w')" "holding_none v (set_held None 0 False 0 cu1) w'"
      using close_held [OF q r(2)] by blast
    have "cursor_next_epoch (cu, w) = Ok () (set_held None 0 False 0 cu1, w')" unfolding run if_not_P [OF False] w'(1) by simp
    then show ?thesis unfolding if_not_P [OF False] using w'(2) by blast
  next
    case True
    then obtain m' where m': "fetched h (Suc j) m' cu1" "Suc j < m'" "m' \<le> ?m" using r(5) by blast
    let ?meta = "cursor_epoch_of ?u (h ! Suc j)" and ?cu1 = "cu1\<lparr>cu_cur_offset := ucast (em_from_offset (h ! Suc j))\<rparr>"
    obtain i where i: "unat (cu_fetched_epochs_current cu1) = i" "i < length (cu_fetched_epochs cu1)" "cu_fetched_epochs cu1 ! i = ?meta"
      using fetched_current [OF m'(1,2)] by metis
    have res: "cursor_next_epoch (cu, w) = Ok () (cursor_set_len ?meta (?cu1, w))"
      unfolding run if_P [OF True] using i r(3) by (simp add: cursor_epoch_of_def del: of_nat_Suc)
    have sj: "Suc j < length h" using True by simp
    note mt = epochs_meet [OF e sj] and rec = epochs_at_record [OF e sj]
    have l: "log_repr v s" "cur_written v < seg_size v" using log_safeD(1) [OF quietD(1) [OF q]] q by (simp_all add: quiet_def)
    note sg = epoch_segments [OF e sj refl l order_refl]
    have ci: "cursor_in v h e' (Suc j) d (?cu1, w)"
      using True c'(2) r(2-4) m' mt(1) d sg(1) by (auto simp: cursor_in_def)
    have "unat (em_from_offset (h ! Suc j)) \<le> unat (em_to_off (h ! Suc j))" if l: "d = last_seg (h ! Suc j)"
    proof -
      have "first_seg (h ! Suc j) = last_seg (h ! Suc j)" using l mt(1) d by simp
      then show ?thesis using rec(2,5,7) by simp
    qed
    then have "cursor_at v h pos e' (Suc j) d ((d - 1) * seg_size v + unat (cu_cur_offset ?cu1)) (cursor_set_len ?meta (?cu1, w))"
      using rec(3) by (intro set_len_at [OF q e ci]) simp_all
    moreover have "(d - 1) * seg_size v + unat (cu_cur_offset ?cu1) = pos (Suc j)" using rec(2) mt(1) d by simp
    ultimately show ?thesis unfolding if_P [OF True] using res by (metis surj_pair)
  qed
qed

lemma cursor_epoch_of_fields:
  "ce_epoch (cursor_epoch_of u em) = u" "ce_last_dsid (cursor_epoch_of u em) = em_to_seg_id em" "ce_end_offset (cursor_epoch_of u em) = em_to_off em"
  by (simp_all add: cursor_epoch_of_def)

text \<open>A call on a cursor in segment \<open>d\<close> of an epoch, and the segment it opens next.\<close>

lemma next_unfold:
  assumes q: "quiet v s h" and e: "epochs_at (seg_size v) h pos (length s)" and c: "cursor_in v h e' j d (cu, w)"
  shows "cursor_next_loop (Suc fuel) [] (cu, w) =
      (if d = last_seg (h ! j) then c_assert (ucast (em_to_off (h ! j)) = cu_cur_offset cu + cu_cur_len cu) (cursor_next_epoch (cu, w))
       else and_then (cursor_open_segment [] (of_nat (Suc d)) (cu, w)) (\<lambda>_ (cu, w).
              if em_to_off (h ! j) = 0 then cursor_next_loop fuel [] (cu\<lparr>cu_cur_offset := 0, cu_cur_len := 0\<rparr>, w)
              else Ok () (cursor_set_len (cursor_epoch_of (of_nat (Suc j)) (h ! j)) (cu\<lparr>cu_cur_offset := 0\<rparr>, w))))"
    "nvwal_cursor_next [] (cu, w) = cursor_next_loop (Suc (last_seg (h ! j) - d)) [] (cu, w)"
    "d \<noteq> last_seg (h ! j) \<Longrightarrow> \<exists>cu' w'. cursor_open_segment [] (of_nat (Suc d)) (cu, w) = Ok () (cu', w') \<and> cursor_in v h e' j (Suc d) (cu', w')"
proof -
  obtain m where c': "j < min (e' - 1) (length h)" "e' < 2 ^ 57" "holding v d cu w" "cu_current_epoch cu = of_nat (Suc j)" "cu_end_epoch cu = of_nat e'" "fetched h j m cu" "j < m"
    "m \<le> min (e' - 1) (length h)" "first_seg (h ! j) \<le> d" "d \<le> last_seg (h ! j)" using c by (auto simp: cursor_in_def)
  have j: "j < length h" using c'(1) by simp
  have l: "log_repr v s" "cur_written v < seg_size v" using log_safeD(1) [OF quietD(1) [OF q]] q by (simp_all add: quiet_def)
  note sg = epoch_segments [OF e j refl l order_refl]
  have id: "cu_cur_segment_id cu = of_nat d" "0 < d" using c'(3) by (simp_all add: holding_def)
  have u: "unat (of_nat d :: u64) = d" using c'(10) sg(2) quietD(8) [OF q] by (auto intro!: unat_of_nat_small)
  have eq: "em_to_seg_id (h ! j) = of_nat d \<longleftrightarrow> d = last_seg (h ! j)" using u by (metis unat_eq_u64)
  obtain i where i: "unat (cu_fetched_epochs_current cu) = i" "i < length (cu_fetched_epochs cu)" "cu_fetched_epochs cu ! i = cursor_epoch_of (of_nat (Suc j)) (h ! j)"
    "cu_fetched_epochs_current cu < cu_fetched_epochs_count cu" using fetched_current [OF c'(6,7)] by metis
  have valid: "nvwal_cursor_is_valid cu"
    using c'(3) segment_region [OF quietD(1) [OF q], of d 0 0] id(2) c'(10) sg(2) by (fastforce simp: nvwal_cursor_is_valid_def holding_def)
  have sd: "of_nat d + 1 = (of_nat (Suc d) :: u64)" by simp
  show "cursor_next_loop (Suc fuel) [] (cu, w) =
      (if d = last_seg (h ! j) then c_assert (ucast (em_to_off (h ! j)) = cu_cur_offset cu + cu_cur_len cu) (cursor_next_epoch (cu, w))
       else and_then (cursor_open_segment [] (of_nat (Suc d)) (cu, w)) (\<lambda>_ (cu, w).
              if em_to_off (h ! j) = 0 then cursor_next_loop fuel [] (cu\<lparr>cu_cur_offset := 0, cu_cur_len := 0\<rparr>, w)
              else Ok () (cursor_set_len (cursor_epoch_of (of_nat (Suc j)) (h ! j)) (cu\<lparr>cu_cur_offset := 0\<rparr>, w))))"
    using valid i c'(4) eq id(1) sd by (simp add: cursor_epoch_of_fields Let_def del: of_nat_Suc cong: if_cong)
  have "of_nat d \<le> em_to_seg_id (h ! j)" using c'(10) u by (simp add: word_le_nat_alt)
  then have "unat (em_to_seg_id (h ! j) - of_nat d) = last_seg (h ! j) - d" using u by (simp add: unat_sub)
  then show "nvwal_cursor_next [] (cu, w) = cursor_next_loop (Suc (last_seg (h ! j) - d)) [] (cu, w)"
    using i(1,3) id(1) by (simp only: nvwal_cursor_next_def prod.case Let_def) (simp only: cursor_epoch_of_def NvwalCursorEpochMetadata.select_convs Suc_eq_plus1)
  assume "d \<noteq> last_seg (h ! j)"
  then have d1: "Suc d \<le> last_seg (h ! j)" "Suc d \<le> cur_dsid v" using c'(10) sg(2) by linarith+
  obtain a fd b w1 where o: "cursor_open_segment [] (of_nat (Suc d)) (cu, w) = Ok () (set_held a fd b (of_nat (Suc d)) cu, w1)"
    "holding v (Suc d) (set_held a fd b (of_nat (Suc d)) cu) w1" using open_segment [OF q disjI1 [OF c'(3)] zero_less_Suc d1(2)] by blast
  have "cursor_in v h e' j (Suc d) (set_held a fd b (of_nat (Suc d)) cu, w1)"
    using c' d1(1) o(2) by (auto simp: cursor_in_def) (auto simp: set_held_def)
  with o(1) show "\<exists>cu' w'. cursor_open_segment [] (of_nat (Suc d)) (cu, w) = Ok () (cu', w') \<and> cursor_in v h e' j (Suc d) (cu', w')" by blast
qed

declare cursor_next_loop.simps(2) [simp del]

text \<open>
  A call when the epoch ends at the beginning of its last segment: it goes on to the next epoch from whatever segment
  of the epoch the cursor is in.
\<close>

lemma next_from_boundary:
  assumes q: "quiet v s h" and e: "epochs_at (seg_size v) h pos (length s)" and z: "em_to_off (h ! j) = 0"
  shows "cursor_in v h e' j d (cu, w) \<Longrightarrow> last_seg (h ! j) - d < fuel \<Longrightarrow> (d = last_seg (h ! j) \<Longrightarrow> cu_cur_offset cu + cu_cur_len cu = 0) \<Longrightarrow>
     \<exists>cu' w'. cursor_next_loop fuel [] (cu, w) = Ok () (cu', w') \<and>
       (if Suc j < min (e' - 1) (length h) then cursor_at v h pos e' (Suc j) (last_seg (h ! j)) (pos (Suc j)) (cu', w') else holding_none v cu' w')"
proof (induction fuel arbitrary: d cu w)
  case (Suc fuel)
  note un = next_unfold [OF q e Suc.prems(1)]
  show ?case
  proof (cases "d = last_seg (h ! j)")
    case True
    have r: "cursor_next_loop (Suc fuel) [] (cu, w) = cursor_next_epoch (cu, w)" unfolding un(1) if_P [OF True] using Suc.prems(3) [OF True] z by simp
    show ?thesis unfolding r using next_epoch [OF q e Suc.prems(1) True] unfolding True .
  next
    case False
    obtain cu1 w1 where o: "cursor_open_segment [] (of_nat (Suc d)) (cu, w) = Ok () (cu1, w1)" "cursor_in v h e' j (Suc d) (cu1, w1)" using un(3) [OF False] by blast
    let ?cu = "cu1\<lparr>cu_cur_offset := 0, cu_cur_len := 0\<rparr>"
    have r: "cursor_next_loop (Suc fuel) [] (cu, w) = cursor_next_loop fuel [] (?cu, w1)" unfolding un(1) if_not_P [OF False] o(1) using z by simp
    have ci: "cursor_in v h e' j (Suc d) (?cu, w1)" using o(2) by simp
    then have "last_seg (h ! j) - Suc d < fuel" using Suc.prems(2) by (auto simp: cursor_in_def)
    from Suc.IH [OF ci this] show ?thesis unfolding r by simp
  qed
qed simp

text \<open>
  One call moves to the region that follows in the log, or ends the cursor after its last epoch. It is assumed that no
  epoch with more than two segments ends at the beginning of a segment.
\<close>

definition no_gap :: "MdsEpochMetadata \<Rightarrow> bool" where
  "no_gap em \<longleftrightarrow> em_to_off em = 0 \<longrightarrow> last_seg em \<le> Suc (first_seg em)"

lemma next_region:
  assumes q: "quiet v s h" and e: "epochs_at (seg_size v) h pos (length s)" and at: "cursor_at v h pos e' j d x (cu, w)" and g: "no_gap (h ! j)"
  shows "\<exists>cu' w'. nvwal_cursor_next [] (cu, w) = Ok () (cu', w') \<and>
     ((\<exists>j' d'. cursor_at v h pos e' j' d' (x + unat (cu_cur_len cu)) (cu', w') \<and> j \<le> j' \<and> j + d < j' + d') \<or>
      holding_none v cu' w' \<and> x + unat (cu_cur_len cu) = pos (min (e' - 1) (length h)))"
proof -
  let ?S = "seg_size v" and ?m = "min (e' - 1) (length h)"
  have c: "cursor_in v h e' j d (cu, w)" and x: "(d - 1) * ?S + unat (cu_cur_offset cu) = x"
    and y: "x + unat (cu_cur_len cu) = (if d = last_seg (h ! j) then pos (Suc j) else d * ?S)" using at by (simp_all add: cursor_at_def)
  have j: "j < ?m" "j < length h" "first_seg (h ! j) \<le> d" "d \<le> last_seg (h ! j)" "0 < d" using c by (auto simp: cursor_in_def holding_def)
  note un = next_unfold [OF q e c] and r = epochs_at_record [OF e j(2)]
  have fin: "(\<exists>j' d'. cursor_at v h pos e' j' d' (pos (Suc j)) (cu', w') \<and> j \<le> j' \<and> j + d < j' + d') \<or> holding_none v cu' w' \<and> pos (Suc j) = pos ?m"
    if "if Suc j < ?m then cursor_at v h pos e' (Suc j) d' (pos (Suc j)) (cu', w') else holding_none v cu' w'" "d \<le> d'" for cu' w' d'
  proof (cases "Suc j < ?m")
    case True
    moreover have "j \<le> Suc j" "j + d < Suc j + d'" using that(2) by simp_all
    ultimately show ?thesis using that(1) by (simp only: if_True) blast
  next
    case False
    then have "Suc j = ?m" using j(1) by linarith
    then show ?thesis using that(1) unfolding if_not_P [OF False] by metis
  qed
  show ?thesis
  proof (cases "d = last_seg (h ! j)")
    case True
    have "unat (cu_cur_offset cu) + unat (cu_cur_len cu) = unat (em_to_off (h ! j))" using x y True r(5) by simp
    then have "unat (cu_cur_offset cu + cu_cur_len cu) = unat (ucast (em_to_off (h ! j)) :: u64)"
      using unat_add_lem [of "cu_cur_offset cu" "cu_cur_len cu"] unat_u32_less [of "em_to_off (h ! j)"] by simp
    then have o: "ucast (em_to_off (h ! j)) = cu_cur_offset cu + cu_cur_len cu" by (metis unat_eq_u64)
    have "nvwal_cursor_next [] (cu, w) = cursor_next_epoch (cu, w)" unfolding un(2,1) if_P [OF True] using o by simp
    moreover obtain cu' w' where "cursor_next_epoch (cu, w) = Ok () (cu', w')"
      "if Suc j < ?m then cursor_at v h pos e' (Suc j) d (pos (Suc j)) (cu', w') else holding_none v cu' w'" using next_epoch [OF q e c True] by blast
    ultimately show ?thesis using fin [of d cu' w'] y True by auto
  next
    case False
    then have y': "x + unat (cu_cur_len cu) = d * ?S" using y by simp
    show ?thesis
    proof (cases "em_to_off (h ! j) = 0")
      case z: True
      then have last: "last_seg (h ! j) = Suc d" using g False j(3,4) by (simp add: no_gap_def)
      then have "pos (Suc j) = d * ?S" using r(5) z by simp
      moreover obtain cu' w' where "nvwal_cursor_next [] (cu, w) = Ok () (cu', w')"
        "if Suc j < ?m then cursor_at v h pos e' (Suc j) (Suc d) (pos (Suc j)) (cu', w') else holding_none v cu' w'"
        using next_from_boundary [OF q e z c, of "Suc (last_seg (h ! j) - d)"] False unfolding un(2) last by auto
      ultimately show ?thesis using fin [of "Suc d" cu' w'] y' by auto
    next
      case nz: False
      obtain cu1 w1 where o: "cursor_open_segment [] (of_nat (Suc d)) (cu, w) = Ok () (cu1, w1)" "cursor_in v h e' j (Suc d) (cu1, w1)" using un(3) [OF False] by blast
      let ?cu = "cu1\<lparr>cu_cur_offset := 0\<rparr>" and ?st = "cursor_set_len (cursor_epoch_of (of_nat (Suc j)) (h ! j)) (cu1\<lparr>cu_cur_offset := 0\<rparr>, w1)"
      have "nvwal_cursor_next [] (cu, w) = Ok () ?st" unfolding un(2,1) if_not_P [OF False] o(1) using nz by simp
      moreover have "cursor_in v h e' j (Suc d) (?cu, w1)" using o(2) by simp
      from set_len_at [OF q e this, of "of_nat (Suc j)"] have "cursor_at v h pos e' j (Suc d) (d * ?S) ?st" using r(3) by simp
      ultimately show ?thesis unfolding y' by (metis add_Suc_right lessI order_refl surj_pair)
    qed
  qed
qed

section \<open>Reading a range of epochs\<close>

lemma zero_cursor_holds: "holding_none v (zero_cursor\<lparr>cu_start_epoch := a, cu_end_epoch := b, cu_current_epoch := c, cu_fetched_epochs := es, cu_fetched_epochs_count := n, cu_fetched_epochs_current := k\<rparr>) v"
  by (simp add: holding_none_def zero_cursor_def new_fds_def)

text \<open>A cursor that is opened is at the beginning of its first epoch, or at its end when that epoch is not durable.\<close>

lemma open_cursor:
  assumes q: "quiet v s h" and e: "epochs_at (seg_size v) h pos (length s)" and i: "i \<le> length h" "Suc i < e'" "e' < 2 ^ 57"
  shows "\<exists>cu w. nvwal_open_log_cursor [] (of_nat (Suc i)) (of_nat e') v = Ok () (cu, w) \<and>
     (if i < min (e' - 1) (length h) then cursor_at v h pos e' i (first_seg (h ! i)) (pos i) (cu, w) else holding_none v cu w)"
proof -
  let ?u = "of_nat (Suc i) :: u64" and ?m = "min (e' - 1) (length h)" and ?n = "fetch_end i e' (length h)"
  let ?z = "zero_cursor\<lparr>cu_start_epoch := ?u, cu_end_epoch := of_nat e', cu_current_epoch := ?u\<rparr>"
  have b: "Suc i < 2 ^ 60" "e' < 2 ^ 60" using i quietD(10) [OF q] by simp_all
  have lt: "\<not> nvwal_is_epoch_equal_or_after ?u (of_nat e')" using of_nat_epochs(2) [OF b] i(2) by simp
  have z: "length (cu_fetched_epochs ?z) = kNvwalCursorEpochPrefetches" "cu_end_epoch ?z = of_nat e'" by (simp_all add: zero_cursor_def)
  have ie: "i < e'" using i(2) by simp
  obtain es where es: "cursor_fetch_epoch_metadata ?u (?z, v) =
      Ok () (?z\<lparr>cu_fetched_epochs := es, cu_fetched_epochs_count := of_nat (?n - i), cu_fetched_epochs_current := 0\<rparr>, v)"
    "length es = kNvwalCursorEpochPrefetches" "\<forall>j < ?n - i. es ! j = cursor_epoch_of (of_nat (Suc (i + j))) (h ! (i + j))"
    using fetch_epochs [OF quietD(2) [OF q] _ i(1) ie i(3) z] q unfolding quiet_def by blast
  let ?cu = "?z\<lparr>cu_fetched_epochs := es, cu_fetched_epochs_count := of_nat (?n - i), cu_fetched_epochs_current := 0\<rparr>"
  have n: "i \<le> ?n" "?n - i \<le> kNvwalCursorEpochPrefetches" "?n \<le> ?m" "i < ?m \<longleftrightarrow> i < ?n" using i by (auto simp: fetch_end_def)
  have "unat (of_nat (?n - i) :: u32) = ?n - i" using n(2) by (simp add: unsigned_of_nat take_bit_eq_mod)
  then have cz: "(of_nat (?n - i) :: u32) = 0 \<longleftrightarrow> \<not> i < ?m" using n(4) by (metis not_less diff_is_0_eq unat_eq_0)
  have none: "holding_none v ?cu v" using zero_cursor_holds by simp
  have run: "nvwal_open_log_cursor [] ?u (of_nat e') v = (case (if cu_fetched_epochs_count ?cu = 0 then Ok () (?cu, v)
      else elem_at (cu_fetched_epochs ?cu) 0 (\<lambda>meta.
             and_then (cursor_open_segment [] (ce_start_dsid meta) (?cu, v)) (\<lambda>_ (cu, w).
               let cu = cu\<lparr>cu_cur_offset := ucast (ce_start_offset meta)\<rparr>
               in if ce_last_dsid meta \<noteq> ce_start_dsid meta
                  then Ok () (cu\<lparr>cu_cur_len := cf_segment_size (wal_config (w_wal w)) - cu_cur_offset cu\<rparr>, w)
                  else c_assert (ucast (ce_end_offset meta) \<ge> cu_cur_offset cu)
                    (Ok () (cu\<lparr>cu_cur_len := ucast (ce_end_offset meta) - cu_cur_offset cu\<rparr>, w)))))
    of Fail e st \<Rightarrow> and_then (ignore_error (nvwal_close_log_cursor st)) (\<lambda>_ st. Fail e st) | r \<Rightarrow> r)"
    using lt es(1) by (simp add: nvwal_open_log_cursor_def cursor_next_initial_def Let_def zero_cursor_def del: of_nat_Suc)
  show ?thesis
  proof (cases "i < ?m")
    case False
    then have "nvwal_open_log_cursor [] ?u (of_nat e') v = Ok () (?cu, v)" unfolding run using cz by simp
    then show ?thesis unfolding if_not_P [OF False] using none by blast
  next
    case True
    then have ih: "i < length h" and zn: "cu_fetched_epochs_count ?cu \<noteq> 0" using cz by simp_all
    let ?em = "h ! i" and ?d = "first_seg (h ! i)"
    have l: "log_repr v s" "cur_written v < seg_size v" using log_safeD(1) [OF quietD(1) [OF q]] q by (simp_all add: quiet_def)
    note r = epochs_at_record [OF e ih] and sg = epoch_segments [OF e ih refl l order_refl]
    have d: "0 < ?d" "?d \<le> cur_dsid v" using r(1) sg(1,2) by linarith+
    obtain a fd b w where o: "cursor_open_segment [] (of_nat ?d) (?cu, v) = Ok () (set_held a fd b (of_nat ?d) ?cu, w)"
      "holding v ?d (set_held a fd b (of_nat ?d) ?cu) w" using open_segment [OF q disjI2 [OF none] d] by blast
    let ?c1 = "(set_held a fd b (of_nat ?d) ?cu)\<lparr>cu_cur_offset := ucast (em_from_offset ?em)\<rparr>"
    have fe: "fetched h i ?n ?cu" by (rule fetchedI [OF es(2) n(1,2) es(3)])
    have ci: "cursor_in v h e' i ?d (?c1, w)"
      using True i(3) o(2) fe n(3,4) sg(1) by (auto simp: cursor_in_def) (auto simp: set_held_def)
    have le: "unat (em_from_offset ?em) \<le> unat (em_to_off ?em)" if "?d = last_seg ?em" using r(2,5,7) that by simp
    have at: "cursor_at v h pos e' i ?d (pos i) (cursor_set_len (cursor_epoch_of ?u ?em) (?c1, w))"
      using set_len_at [OF q e ci, of ?u] r(2,3) le by simp
    have m0: "es ! 0 = cursor_epoch_of ?u ?em" using es(3) True n(4) by simp
    have "nvwal_open_log_cursor [] ?u (of_nat e') v = Ok () (cursor_set_len (cursor_epoch_of ?u ?em) (?c1, w))"
    proof -
      have sd: "(of_nat ?d :: u64) = em_from_seg_id ?em" by simp
      have ge: "(ucast (em_from_offset ?em) :: u64) \<le> ucast (em_to_off ?em)" if "em_to_seg_id ?em = em_from_seg_id ?em"
        using le that by (simp add: word_le_nat_alt)
      have "elem_at (cu_fetched_epochs ?cu) 0 k = k (cursor_epoch_of ?u ?em)" for k :: "NvwalCursorEpochMetadata \<Rightarrow> (unit, cstate) outcome"
        using m0 es(2) by simp
      then show ?thesis
        unfolding run if_not_P [OF zn] using o(1) [unfolded sd] ge
        by (auto simp: cursor_epoch_of_def cursor_set_len_def set_held_def Let_def simp del: of_nat_Suc)
    qed
    then show ?thesis unfolding if_P [OF True] using at by (metis surj_pair)
  qed
qed

text \<open>A client that reads with a cursor to its end and collects the regions.\<close>

fun read_cursor :: "nat \<Rightarrow> cstate \<Rightarrow> (byte list, cstate) outcome" where
  "read_cursor 0 st = Spin st"
| "read_cursor (Suc fuel) st =
     (case st of (cu, w) \<Rightarrow>
        if \<not> nvwal_cursor_is_valid cu then Ok [] (cu, w)
        else and_then (nvwal_cursor_next [] (cu, w)) (\<lambda>_ st.
               and_then (read_cursor fuel st) (\<lambda>bs st. Ok (nvwal_cursor_get_data cu (w_os w) @ bs) st)))"

lemma read_cursor_from:
  assumes q: "quiet v s h" and e: "epochs_at (seg_size v) h pos (length s)" and g: "\<And>j. i \<le> j \<Longrightarrow> j < min (e' - 1) (length h) \<Longrightarrow> no_gap (h ! j)"
  defines "m \<equiv> min (e' - 1) (length h)"
  shows "cursor_at v h pos e' j d x (cu, w) \<Longrightarrow> i \<le> j \<Longrightarrow> m + cur_dsid v - (j + d) < fuel \<Longrightarrow>
     \<exists>cu' w'. read_cursor fuel (cu, w) = Ok (take (pos m - x) (drop x s)) (cu', w') \<and> holding_none v cu' w'"
proof (induction fuel arbitrary: j d x cu w)
  case (Suc fuel)
  let ?y = "x + unat (cu_cur_len cu)"
  note data = cursor_data [OF q e Suc.prems(1)]
  have c: "j < m" "d \<le> last_seg (h ! j)" "d \<le> cur_dsid v" "0 < d" using Suc.prems(1) by (auto simp: cursor_at_def cursor_in_def holding_def m_def)
  have j: "j < length h" using c(1) by (simp add: m_def)
  note r = epochs_at_record [OF e j]
  have mono: "mono pos" using e by (simp add: epochs_at_def)
  have "?y \<le> pos (Suc j)"
  proof (cases "d = last_seg (h ! j)")
    case False
    then have "d \<le> last_seg (h ! j) - 1" using c(2) by simp
    then have "d * seg_size v \<le> (last_seg (h ! j) - 1) * seg_size v" by (rule mult_le_mono1)
    moreover have "?y = d * seg_size v" using Suc.prems(1) False by (simp add: cursor_at_def)
    ultimately show ?thesis using r(5) by linarith
  qed (use Suc.prems(1) in \<open>simp add: cursor_at_def\<close>)
  also have "pos (Suc j) \<le> pos m" using mono c(1) by (simp add: monoD)
  finally have y: "?y \<le> pos m" .
  then have split: "take (pos m - x) (drop x s) = take (unat (cu_cur_len cu)) (drop x s) @ take (pos m - ?y) (drop ?y s)"
    using take_add [of "unat (cu_cur_len cu)" "pos m - ?y" "drop x s"] by (simp add: add.commute)
  obtain cu1 w1 where n: "nvwal_cursor_next [] (cu, w) = Ok () (cu1, w1)"
    "(\<exists>j' d'. cursor_at v h pos e' j' d' ?y (cu1, w1) \<and> j \<le> j' \<and> j + d < j' + d') \<or> holding_none v cu1 w1 \<and> ?y = pos m"
    using next_region [OF q e Suc.prems(1) g [OF Suc.prems(2)]] c(1) unfolding m_def by blast
  have "\<exists>cu' w'. read_cursor fuel (cu1, w1) = Ok (take (pos m - ?y) (drop ?y s)) (cu', w') \<and> holding_none v cu' w'"
    using n(2)
  proof
    assume "\<exists>j' d'. cursor_at v h pos e' j' d' ?y (cu1, w1) \<and> j \<le> j' \<and> j + d < j' + d'"
    then obtain j' d' where a: "cursor_at v h pos e' j' d' ?y (cu1, w1)" "j \<le> j'" "j + d < j' + d'" by blast
    then have "j' < m" "d' \<le> cur_dsid v" by (auto simp: cursor_at_def cursor_in_def holding_def m_def)
    then have "m + cur_dsid v - (j' + d') < fuel" using Suc.prems(3) a(3) by linarith
    then show ?thesis using Suc.IH [OF a(1)] Suc.prems(2) a(2) by simp
  next
    assume z: "holding_none v cu1 w1 \<and> ?y = pos m"
    obtain f where "fuel = Suc f" using Suc.prems(3) c(1,3) by (cases fuel) auto
    then show ?thesis using z by (simp add: nvwal_cursor_is_valid_def holding_none_def)
  qed
  then show ?case using n(1) data split by auto
qed simp

end
