(* ===== verification/Debug.thy ===== *)
theory Debug
  imports Os
begin

text \<open>
  The debug log of \<^verbatim>\<open>src/nvwal_debug.c\<close>: which messages are printed, how the prefix of a line is
  assembled in the fixed buffer, and when the process exits. The stream is always \<open>stderr\<close>; what
  \<open>vsnprintf\<close> makes of the message format and its arguments is the argument \<open>msg\<close>.
\<close>

record NvwalDebugContext =
  dc_minloglevel :: NvwalDebugLevel
  dc_full_path :: bool

definition nvwal_debug_init :: "NvwalDebugLevel \<Rightarrow> NvwalDebugContext" where
  "nvwal_debug_init minloglevel = \<lparr>dc_minloglevel = minloglevel, dc_full_path = False\<rparr>"

fun debug_level_string :: "NvwalDebugLevel \<Rightarrow> string" where
  "debug_level_string INFO = ''INFO''"
| "debug_level_string WARNING = ''WARNING''"
| "debug_level_string ERROR = ''ERROR''"
| "debug_level_string FATAL = ''FATAL''"
| "debug_level_string kNvwalInvalidDebugLevel = []"

definition avail_space :: "nat \<Rightarrow> nat \<Rightarrow> nat" where
  "avail_space len maxbuflen = maxbuflen - len - 1"

fun dec_digits :: "nat \<Rightarrow> string" where
  "dec_digits n = (if n < 10 then [char_of (48 + n)] else dec_digits (n div 10) @ [char_of (48 + n mod 10)])"

declare dec_digits.simps [simp del]

text \<open>
  \<open>snprintf\<close> into the rest of the buffer: it stores at most \<open>avail - 1\<close> characters and returns the
  length of the full text. \<open>None\<close> is the jump to \<open>overflow_error\<close>.
\<close>

definition debug_append :: "nat \<Rightarrow> string \<Rightarrow> string \<times> nat \<Rightarrow> (string \<times> nat) option" where
  "debug_append maxbuflen txt b =
     (let buf = fst b; len = snd b;
          buf' = buf @ take (avail_space len maxbuflen - 1) txt;
          len' = len + length txt
      in if len' > avail_space len' maxbuflen then None else Some (buf', len'))"

text \<open>The printed line, if any, and whether the process exits.\<close>

definition nvwal_debug_printd_impl ::
  "NvwalDebugContext \<Rightarrow> NvwalDebugLevel \<Rightarrow> string option \<Rightarrow> nat \<Rightarrow> string \<Rightarrow> string option \<times> bool" where
  "nvwal_debug_printd_impl ctx dlevel file line msg =
     (if dlevel < INFO \<or> dlevel > FATAL \<or> dlevel < dc_minloglevel ctx then (None, False)
      else let maxbuflen = 1024;
               b1 = debug_append maxbuflen (debug_level_string dlevel @ '' '') ([], 0);
               b2 = Option.bind b1 (\<lambda>b.
                      case file of
                        None \<Rightarrow> Some b
                      | Some f \<Rightarrow>
                          debug_append maxbuflen
                            (''('' @ (if dc_full_path ctx then f else path_basename f) @ '', ''
                             @ dec_digits line @ '')'') b);
               b3 = Option.bind b2 (debug_append maxbuflen '': '')
           in case b3 of
                None \<Rightarrow> (None, False)
              | Some (buf, len) \<Rightarrow>
                  (Some (buf @ take (avail_space len maxbuflen - 1) msg @ [CHR 0x0A]), dlevel = FATAL))"

definition nvwal_debug_printd ::
  "NvwalDebugContext \<Rightarrow> NvwalDebugLevel \<Rightarrow> string option \<Rightarrow> nat \<Rightarrow> string \<Rightarrow> string option \<times> bool" where
  "nvwal_debug_printd ctx dlevel file line msg = nvwal_debug_printd_impl ctx dlevel file line msg"

section \<open>Bound on the line\<close>

lemma debug_append_length:
  assumes "debug_append m txt b = Some b'" "length (fst b) \<le> snd b" "snd b < m"
  shows "length (fst b') \<le> snd b' \<and> snd b' < m"
  using assms by (auto simp: debug_append_def avail_space_def Let_def min_def split: if_splits)

lemma debug_bind_length:
  assumes "Option.bind x (debug_append m txt) = Some b'"
    and "\<And>b. x = Some b \<Longrightarrow> length (fst b) \<le> snd b \<and> snd b < m"
  shows "length (fst b') \<le> snd b' \<and> snd b' < m"
  using assms debug_append_length by (cases x) auto

text \<open>
  C31. A line of the debug log always fits the fixed buffer: whatever the file name, the line number and
  the message, the text printed before the end of line has at most 1023 characters. A message is
  printed only if its level is at or above the configured one, and only a printed FATAL message
  ends the process.
\<close>

theorem debug_line_fits:
  "case nvwal_debug_printd ctx dlevel file line msg of
     (out, exits) \<Rightarrow>
       (case out of None \<Rightarrow> \<not> exits
        | Some s \<Rightarrow> length s \<le> 1024 \<and> dc_minloglevel ctx \<le> dlevel \<and> (exits = (dlevel = FATAL)))"
proof -
  let ?b1 = "debug_append 1024 (debug_level_string dlevel @ '' '') ([], 0)"
  let ?g = "\<lambda>b. case file of None \<Rightarrow> Some b
     | Some f \<Rightarrow> debug_append 1024 (''('' @ (if dc_full_path ctx then f else path_basename f) @ '', ''
                             @ dec_digits line @ '')'') b"
  let ?b3 = "Option.bind (Option.bind ?b1 ?g) (debug_append 1024 '': '')"
  have 1: "length (fst b) \<le> snd b \<and> snd b < 1024" if "?b1 = Some b" for b
    by (rule debug_append_length [OF that]) simp_all
  have 2: "length (fst b) \<le> snd b \<and> snd b < 1024" if b: "Option.bind ?b1 ?g = Some b" for b
  proof -
    from b obtain c where c: "?b1 = Some c" "?g c = Some b" by (auto simp: bind_eq_Some_conv simp del: append.simps)
    show ?thesis
    proof (cases "file")
      case None
      with c 1 [OF c(1)] show ?thesis by simp
    next
      case (Some f)
      with c(2) have "debug_append 1024 (''('' @ (if dc_full_path ctx then f else path_basename f) @ '', ''
          @ dec_digits line @ '')'') c = Some b" by (simp only: option.case)
      from debug_append_length [OF this] 1 [OF c(1)] show ?thesis by blast
    qed
  qed
  have 3: "length (fst b) \<le> snd b \<and> snd b < 1024" if "?b3 = Some b" for b
    by (rule debug_bind_length [OF that]) (rule 2)
  show ?thesis
  proof (cases ?b3)
    case None
    then show ?thesis
      by (simp add: nvwal_debug_printd_def nvwal_debug_printd_impl_def Let_def)
  next
    case (Some b)
    have "length (fst b @ take (avail_space (snd b) 1024 - 1) msg @ [CHR 0x0A]) \<le> 1024"
      using 3 [OF Some] by (auto simp: avail_space_def)
    with Some show ?thesis
      by (cases b) (auto simp: nvwal_debug_printd_def nvwal_debug_printd_impl_def Let_def not_less)
  qed
qed

end
