(* ===== verification/Init.thy ===== *)
theory Init
  imports Fsyncer Debug
begin

text \<open>
  Starting and stopping a WAL instance, \<^verbatim>\<open>src/nvwal_impl_init.c\<close>: the checks of the configuration,
  the control file, the comparison with the configuration of the previous run, the NV segments
  fresh or as a previous run left them, and the release of everything.
\<close>

section \<open>Checks of the configuration\<close>

definition set_config :: "(NvwalConfig \<Rightarrow> NvwalConfig) \<Rightarrow> world \<Rightarrow> world" where
  "set_config f w = w\<lparr>w_wal := (w_wal w)\<lparr>wal_config := f (wal_config (w_wal w))\<rparr>\<rparr>"

fun remove_trailing_slash :: "char list \<Rightarrow> nat \<Rightarrow> char list \<times> nat" where
  "remove_trailing_slash path 0 = (path, 0)"
| "remove_trailing_slash path (Suc n) =
     (if path ! n = CHR ''/'' then remove_trailing_slash (path[n := NUL]) n else (path, Suc n))"

text \<open>The checks and adjustments of the two folder names; \<open>None\<close> if an error is raised.\<close>

definition check_roots :: "NvwalConfig \<Rightarrow> NvwalConfig option" where
  "check_roots config =
     (let nv_len = strnlen (cf_nv_root config) kNvwalMaxPathLength;
          disk_len = strnlen (cf_disk_root config) kNvwalMaxPathLength
      in if nv_len \<le> 1 \<or> nv_len \<ge> kNvwalMaxPathLength \<or> nv_len \<ge> kNvwalMaxFolderPathLength
            \<or> disk_len \<le> 1 \<or> disk_len \<ge> kNvwalMaxPathLength \<or> disk_len \<ge> kNvwalMaxFolderPathLength
         then None
         else let (nv, nvl) = remove_trailing_slash (cf_nv_root config) nv_len;
                  (disk, diskl) = remove_trailing_slash (cf_disk_root config) disk_len
              in Some (config\<lparr>cf_nv_root := nv, cf_nv_root_len := of_nat nvl,
                              cf_disk_root := disk, cf_disk_root_len := of_nat diskl\<rparr>))"

text \<open>
  The checks of writers, segments and mode, which depend on the configuration only. The segment
  size has its default where none is given.
\<close>

definition default_segment_size :: "NvwalConfig \<Rightarrow> NvwalConfig" where
  "default_segment_size config =
     (if cf_segment_size config = 0 then config\<lparr>cf_segment_size := kNvwalDefaultSegmentSize\<rparr> else config)"

definition check_writers :: "NvwalConfig \<Rightarrow> bool" where
  "check_writers config \<longleftrightarrow>
     \<not> (cf_writer_count config = 0 \<or> cf_writer_count config > of_nat kNvwalMaxWorkers) \<and>
     \<not> (cf_writer_buffer_size config mod 512 \<noteq> 0 \<or> cf_writer_buffer_size config = 0) \<and>
     list_all (\<lambda>i. cf_writer_buffers config ! i \<noteq> None) [0..<unat (cf_writer_count config)]"

definition check_segments :: "NvwalConfig \<Rightarrow> bool" where
  "check_segments config \<longleftrightarrow>
     (let segment_count = cf_nv_quota config div cf_segment_size config
      in cf_nv_quota config mod cf_segment_size config = 0 \<and>
         \<not> segment_count < 2 \<and> \<not> segment_count > of_nat kNvwalMaxActiveSegments)"

definition check_mode :: "NvwalInitMode \<Rightarrow> NvwalConfig \<Rightarrow> bool" where
  "check_mode mode config \<longleftrightarrow>
     (mode = kNvwalInitRestart \<or> mode = kNvwalInitCreateIfNotExists \<or> mode = kNvwalInitCreateTruncate) \<and>
     \<not> (mode = kNvwalInitCreateTruncate \<and> cf_resuming_epoch config \<noteq> kNvwalInvalidEpoch)"

definition root_of :: "(NvwalConfig \<Rightarrow> char list) \<Rightarrow> world \<Rightarrow> addr" where
  "root_of r w = c_string (r (wal_config (w_wal w)))"

text \<open>
  A question to the operating system about a folder, raising \<open>EINVAL\<close> unless the answer is yes. The
  warnings of \<open>kNvwalInitCreateTruncate\<close> go to the standard output and change nothing else.
\<close>

definition require_dir :: "(addr \<Rightarrow> os \<Rightarrow> bool \<times> os) \<Rightarrow> (NvwalConfig \<Rightarrow> char list) \<Rightarrow> world \<Rightarrow> (unit, world) outcome" where
  "require_dir q r w =
     (case q (root_of r w) (w_os w) of (b, s) \<Rightarrow>
        if b then Ok () (set_os s w) else nvwal_raise_einval (set_os s w))"

definition sanity_check_config :: "NvwalInitMode \<Rightarrow> world \<Rightarrow> (unit, world) outcome" where
  "sanity_check_config mode w =
     (let w = set_config (\<lambda>c. c\<lparr>cf_libnvwal_version := nvwal_get_version,
                cf_debug_level := (if cf_debug_level c = kNvwalInvalidDebugLevel then ERROR
                                   else cf_debug_level c)\<rparr>) w
      in case check_roots (wal_config (w_wal w)) of
           None \<Rightarrow> nvwal_raise_einval w
         | Some config \<Rightarrow>
             let w = set_config (\<lambda>_. config) w
             in and_then (require_dir nvwal_is_valid_dir cf_nv_root w) (\<lambda>_ w.
                and_then (require_dir nvwal_is_valid_dir cf_disk_root w) (\<lambda>_ w.
                  if \<not> check_writers (wal_config (w_wal w)) then nvwal_raise_einval w
                  else if cf_segment_size (wal_config (w_wal w)) mod 512 \<noteq> 0 then nvwal_raise_einval w
                  else let w = set_config default_segment_size w
                  in if \<not> check_segments (wal_config (w_wal w)) then nvwal_raise_einval w
                     else if \<not> check_mode mode (wal_config (w_wal w)) then nvwal_raise_einval w
                     else if mode = kNvwalInitRestart
                     then and_then (require_dir nvwal_is_nonempty_dir cf_nv_root w) (\<lambda>_ w.
                            require_dir nvwal_is_nonempty_dir cf_disk_root w)
                     else if mode = kNvwalInitCreateTruncate
                     then let s = snd (nvwal_is_nonempty_dir (root_of cf_nv_root w) (w_os w));
                              s = snd (nvwal_is_nonempty_dir (root_of cf_disk_root w) s)
                          in Ok () (set_os s w)
                     else Ok () w)))"

section \<open>Control file\<close>

text \<open>The size of \<open>NvwalControlBlock\<close> with its padding to a multiple of 512.\<close>

definition control_block_size :: nat where [simp]: "control_block_size = 1536"

definition control_file_path :: "NvwalContext \<Rightarrow> addr" where
  "control_file_path wal =
     take (unat (cf_nv_root_len (wal_config wal))) (cf_nv_root (wal_config wal)) @ ''/nvwal.cf''"

definition open_control_file :: "NvwalInitMode \<Rightarrow> world \<Rightarrow> (unit, world) outcome" where
  "open_control_file mode w =
     c_assert (wal_nv_control_file_fd (w_wal w) = 0 \<or> wal_nv_control_file_fd (w_wal w) = - 1)
     (c_assert (wal_nv_control_block (w_wal w) = None)
     (c_assert (unat (cf_nv_root_len (wal_config (w_wal w))) + 1 + 8 < kNvwalMaxPathLength)
       (let cf_path = control_file_path (w_wal w)
        in case sys_stat cf_path (w_os w) of (st, s) \<Rightarrow>
          let original_filesize = (case st of Inr n \<Rightarrow> n | Inl _ \<Rightarrow> 0);
              w = set_os s w
          in if original_filesize \<noteq> 0 \<and> original_filesize \<noteq> control_block_size then nvwal_raise_einval w
             else case nvwal_open_best_effort_o_direct cf_path (mode \<noteq> kNvwalInitRestart) False (w_os w) of
               (Inl _, s) \<Rightarrow>
                 nvwal_raise_einval (w\<lparr>w_os := s, w_wal := (w_wal w)\<lparr>wal_nv_control_file_fd := - 1\<rparr>\<rparr>)
             | (Inr fd, s) \<Rightarrow>
                 let w = w\<lparr>w_os := s, w_wal := (w_wal w)\<lparr>wal_nv_control_file_fd := fd\<rparr>\<rparr>
                 in case (if original_filesize \<noteq> control_block_size
                          then sys_fallocate fd control_block_size (w_os w) else (Inr (), w_os w)) of
                      (Inl _, s) \<Rightarrow> Fail EINVAL (set_os s w)
                    | (Inr _, s) \<Rightarrow>
                        and_then (sys_call (sys_mmap fd s) (set_os s w)) (\<lambda>p w.
                          let s = w_os w;
                              s = (if original_filesize \<noteq> control_block_size
                                   then s\<lparr>os_cblock := (os_cblock s)(p := zero_control_block),
                                          os_cblock_durable := (os_cblock_durable s)(p := zero_control_block)\<rparr>
                                   else s)
                          in Ok () (w\<lparr>w_os := s, w_wal := (w_wal w)\<lparr>wal_nv_control_block := Some p,
                                       wal_prev_config := cb_config (os_cblock s p)\<rparr>\<rparr>)))))"

definition prev_config_compatible :: "NvwalConfig \<Rightarrow> NvwalConfig \<Rightarrow> bool" where
  "prev_config_compatible prev config \<longleftrightarrow>
     cf_libnvwal_version prev = nvwal_get_version \<and>
     \<not> (cf_mds_page_size prev \<noteq> cf_mds_page_size config \<and>
        (cf_mds_page_size config \<noteq> 0 \<or> cf_mds_page_size prev \<noteq> kNvwalMdsPageSize)) \<and>
     cf_nv_quota prev = cf_nv_quota config \<and>
     cf_segment_size prev = cf_segment_size config \<and>
     cf_writer_buffer_size prev = cf_writer_buffer_size config \<and>
     cf_writer_count prev = cf_writer_count config"

definition check_disk_segment :: "u64 \<Rightarrow> world \<Rightarrow> (unit, world) outcome" where
  "check_disk_segment i w =
     checked (nvwal_construct_disk_segment_path (w_wal w) i) (\<lambda>disk_path.
       case sys_open disk_path False False False (w_os w) of
         (Inl _, s) \<Rightarrow> nvwal_raise_einval (set_os s w)
       | (Inr fd, s) \<Rightarrow>
           c_assert (fd \<noteq> 0)
             (case sys_fstat fd s of (st, s) \<Rightarrow>
                let filesize = (case st of Inr n \<Rightarrow> n | Inl _ \<Rightarrow> 0);
                    w = set_os (snd (sys_close fd s)) w
                in if filesize \<noteq> unat (cf_segment_size (wal_config (w_wal w)))
                   then nvwal_raise_einval w else Ok () w))"

definition check_adjust_on_prev_config :: "world \<Rightarrow> (unit, world) outcome" where
  "check_adjust_on_prev_config w =
     (let prev = wal_prev_config (w_wal w)
      in if cf_libnvwal_version prev = 0 then Ok () w
         else if \<not> prev_config_compatible prev (wal_config (w_wal w)) then nvwal_raise_einval w
         else with_cblock w (\<lambda>p cb.
           for_each check_disk_segment (dsid_range 1 (sp_last_synced_dsid (cb_fsyncer_progress cb))) w))"

section \<open>NV segments\<close>

definition init_fresh_nvram_segment :: "pmem \<Rightarrow> nat \<Rightarrow> world \<Rightarrow> (unit, world) outcome" where
  "init_fresh_nvram_segment pm i w =
     elem_at (wal_segments (w_wal w)) i (\<lambda>_.
       let idx = of_nat i :: u32;
           w = set_segment i (\<lambda>g. g\<lparr>sg_dsid := ucast (idx + 1), sg_nv_segment_index := idx,
                                    sg_written_bytes := 0\<rparr>) w
       in checked (nvwal_construct_nv_segment_path (w_wal w) idx) (\<lambda>nv_path.
         case nvwal_open_best_effort_o_direct nv_path True False (w_os w) of
           (Inl e, s) \<Rightarrow> Fail e (set_segment i (\<lambda>g. g\<lparr>sg_nv_fd := - 1\<rparr>) (set_os s w))
         | (Inr fd, s) \<Rightarrow>
             let w = set_segment i (\<lambda>g. g\<lparr>sg_nv_fd := fd\<rparr>) (set_os s w);
                 segment_size = unat (cf_segment_size (wal_config (w_wal w)))
             in c_assert (fd \<noteq> 0)
               (case sys_fallocate fd segment_size (w_os w) of
                  (Inl _, s) \<Rightarrow> Fail EINVAL (set_os s w)
                | (Inr _, s) \<Rightarrow>
                    and_then (sys_call (sys_mmap fd s) (set_os s w)) (\<lambda>p w.
                      Ok () (set_os (pmem_store_persist pm p 0 (replicate segment_size 0) (w_os w))
                        (set_segment i (\<lambda>g. g\<lparr>sg_nv_baseaddr := Some p\<rparr>) w))))))"

text \<open>
  Which disk segment number an NV segment holds after a restart: the one of the cycle of the last
  synced segment if it was not synced yet, else the one a cycle later. The product is computed in
  32 bits.
\<close>

definition restart_dsid :: "u32 \<Rightarrow> u64 \<Rightarrow> u32 \<Rightarrow> u64 option" where
  "restart_dsid segment_count ondisk_from nv_segment_index =
     (if ondisk_from = 0 then Some (ucast (nv_segment_index + 1))
      else let synced_cycles = ucast ((ondisk_from - 1) div ucast segment_count) :: u32;
               dsid = ucast (synced_cycles * segment_count + nv_segment_index + 1) :: u64
           in if dsid > ondisk_from
              then (if dsid < ondisk_from + ucast segment_count then Some dsid else None)
              else Some (dsid + ucast segment_count))"

definition init_existing_nvram_segment :: "nat \<Rightarrow> world \<Rightarrow> (unit, world) outcome" where
  "init_existing_nvram_segment i w =
     elem_at (wal_segments (w_wal w)) i (\<lambda>segment.
       c_assert (\<not> sg_fsync_completed segment) (c_assert (sg_fsync_error segment = None)
       (c_assert (\<not> sg_fsync_requested segment) (c_assert (sg_nv_reader_pins segment = 0)
       (c_assert (sg_written_bytes segment = 0)
       (let idx = of_nat i :: u32;
            w = set_segment i (\<lambda>g. g\<lparr>sg_nv_segment_index := idx\<rparr>) w
        in checked (nvwal_construct_nv_segment_path (w_wal w) idx) (\<lambda>nv_path.
          case nvwal_open_best_effort_o_direct nv_path False False (w_os w) of
            (Inl e, s) \<Rightarrow> Fail e (set_segment i (\<lambda>g. g\<lparr>sg_nv_fd := - 1\<rparr>) (set_os s w))
          | (Inr fd, s) \<Rightarrow>
              let w = set_segment i (\<lambda>g. g\<lparr>sg_nv_fd := fd\<rparr>) (set_os s w)
              in c_assert (fd \<noteq> 0)
                (and_then (sys_call (sys_fstat fd (w_os w)) w) (\<lambda>st_size w.
                   if st_size \<noteq> unat (cf_segment_size (wal_config (w_wal w))) then nvwal_raise_einval w
                   else and_then (sys_call (sys_mmap fd (w_os w)) w) (\<lambda>p w.
                     let w = set_segment i (\<lambda>g. g\<lparr>sg_nv_baseaddr := Some p\<rparr>) w
                     in with_cblock w (\<lambda>_ cb.
                       let ondisk_from = sp_last_synced_dsid (cb_fsyncer_progress cb);
                           count = wal_segment_count (w_wal w)
                       in checked (restart_dsid count ondisk_from idx) (\<lambda>dsid.
                         c_assert (dsid > 0) (c_assert (dsid > ondisk_from)
                         (c_assert ((dsid - 1) mod ucast count = ucast idx)
                           (let w = set_segment i (\<lambda>g. g\<lparr>sg_dsid := dsid\<rparr>) w;
                                flusher_dsid = wal_flusher_current_nv_segment_dsid (w_wal w)
                            in if dsid > flusher_dsid then Ok () w
                               else if dsid = flusher_dsid
                               then and_then (mds_read_one_epoch (wal_durable_epoch (w_wal w)) w) (\<lambda>meta w.
                                 c_assert (flusher_dsid = em_to_seg_id meta)
                                 (c_assert (ucast (em_to_off meta) \<le> cf_segment_size (wal_config (w_wal w)))
                                   (Ok () (set_segment i (\<lambda>g. g\<lparr>sg_written_bytes := ucast (em_to_off meta)\<rparr>) w))))
                               else Ok () (set_segment i (\<lambda>g. g\<lparr>sg_fsync_requested := True,
                                      sg_written_bytes := cf_segment_size (wal_config (w_wal w))\<rparr>) w))))))))))))))))"

section \<open>Initialisation\<close>

definition init_epochs :: "world \<Rightarrow> (unit, world) outcome" where
  "init_epochs w =
     with_cblock w (\<lambda>_ cb.
       let prev_de = fp_durable_epoch (cb_flusher_progress cb);
           resuming = cf_resuming_epoch (wal_config (w_wal w));
           set_epochs = (\<lambda>e. w\<lparr>w_wal := (w_wal w)\<lparr>wal_durable_epoch := e, wal_stable_epoch := e,
                               wal_next_epoch := nvwal_increment_epoch e\<rparr>\<rparr>)
       in if resuming = kNvwalInvalidEpoch \<or> resuming = prev_de then Ok () (set_epochs prev_de)
          else if nvwal_is_epoch_after resuming prev_de then nvwal_raise_einval w
          else Ok () (set_epochs resuming))"

definition init_writer :: "nat \<Rightarrow> world \<Rightarrow> (unit, world) outcome" where
  "init_writer i w =
     elem_at (cf_writer_buffers (wal_config (w_wal w))) i (\<lambda>buffer.
     elem_at (wal_writers (w_wal w)) i (\<lambda>_.
     checked buffer (\<lambda>b.
       Ok () (set_writer i (\<lambda>wr. wr\<lparr>wr_writer_seq_id := of_nat i, wr_buffer := b\<rparr>) w))))"

text \<open>Where the flusher goes on: at the beginning, or where the durable epoch of the last run ended.\<close>

definition init_flusher_position :: "world \<Rightarrow> (unit, world) outcome" where
  "init_flusher_position w =
     (if wal_durable_epoch (w_wal w) = kNvwalInvalidEpoch
      then Ok () (w\<lparr>w_wal := (w_wal w)\<lparr>wal_flusher_current_nv_segment_dsid := 1,
                    wal_flusher_current_epoch_head_dsid := 1,
                    wal_flusher_current_epoch_head_offset := 0\<rparr>\<rparr>)
      else and_then (mds_read_one_epoch (wal_durable_epoch (w_wal w)) w) (\<lambda>meta w.
             Ok () (w\<lparr>w_wal := (w_wal w)\<lparr>wal_flusher_current_nv_segment_dsid := em_to_seg_id meta,
                       wal_flusher_current_epoch_head_dsid := em_from_seg_id meta,
                       wal_flusher_current_epoch_head_offset := ucast (em_to_off meta)\<rparr>\<rparr>)))"

definition init_segment :: "pmem \<Rightarrow> nat \<Rightarrow> world \<Rightarrow> (unit, world) outcome" where
  "init_segment pm i w =
     (if wal_durable_epoch (w_wal w) \<noteq> kNvwalInvalidEpoch then init_existing_nvram_segment i w
      else init_fresh_nvram_segment pm i w)"

text \<open>\<open>pmem_memcpy_persist\<close> of the configuration into the control block.\<close>

definition persist_config :: "world \<Rightarrow> (unit, world) outcome" where
  "persist_config w =
     with_cblock w (\<lambda>p _.
       let s = w_os w; c = wal_config (w_wal w)
       in Ok () (set_os (s\<lparr>os_cblock := (os_cblock s)(p := (os_cblock s p)\<lparr>cb_config := c\<rparr>),
                           os_cblock_durable := (os_cblock_durable s)(p := (os_cblock_durable s p)\<lparr>cb_config := c\<rparr>)\<rparr>) w))"

definition impl_init_no_error_handling :: "pmem \<Rightarrow> NvwalInitMode \<Rightarrow> world \<Rightarrow> (unit, world) outcome" where
  "impl_init_no_error_handling pm mode w =
     and_then (sanity_check_config mode w) (\<lambda>_ w.
     and_then (if mode = kNvwalInitCreateTruncate
               then and_then (lift_outcome set_os (nvwal_remove_all_under (root_of cf_nv_root w) (w_os w)) w) (\<lambda>_ w.
                      lift_outcome set_os (nvwal_remove_all_under (root_of cf_disk_root w) (w_os w)) w)
               else Ok () w) (\<lambda>_ w.
     and_then (open_control_file mode w) (\<lambda>_ w.
     and_then (check_adjust_on_prev_config w) (\<lambda>_ w.
       let config = wal_config (w_wal w);
           w = w\<lparr>w_wal := (w_wal w)\<lparr>wal_segment_count := ucast (cf_nv_quota config div cf_segment_size config)\<rparr>\<rparr>
       in and_then (init_epochs w) (\<lambda>_ w.
          and_then (for_each init_writer [0..<unat (cf_writer_count config)] w) (\<lambda>_ w.
          and_then (mds_init pm (if mode = kNvwalInitCreateTruncate then kNvwalInitCreateIfNotExists else mode) w) (\<lambda>_ w.
          and_then (init_flusher_position w) (\<lambda>_ w.
          and_then (for_each (init_segment pm) [0..<unat (wal_segment_count (w_wal w))] w) (\<lambda>_ w.
          and_then (lift_outcome set_os (nvwal_open_and_syncfs (root_of cf_nv_root w) (w_os w)) w) (\<lambda>_ w.
          and_then (lift_outcome set_os (nvwal_open_and_syncfs (root_of cf_disk_root w) (w_os w)) w) (\<lambda>_ w.
          and_then (persist_config w) (\<lambda>_ w.
          and_then (lift_outcome set_flusher_state
                      (nvwal_impl_thread_state_get_ready (wal_flusher_thread_state (w_wal w))) w) (\<lambda>_ w.
            lift_outcome set_fsyncer_state
              (nvwal_impl_thread_state_get_ready (wal_fsyncer_thread_state (w_wal w))) w)))))))))))))"

section \<open>Un-initialisation\<close>

definition uninit_log_segment :: "nat \<Rightarrow> world \<Rightarrow> (nvwal_error_t, world) outcome" where
  "uninit_log_segment i w =
     elem_at (wal_segments (w_wal w)) i (\<lambda>segment.
       let (e1, s) = (case sg_nv_baseaddr segment of
                        None \<Rightarrow> (None, w_os w)
                      | Some p \<Rightarrow> (case sys_munmap p (w_os w) of
                                     (Inl e, s) \<Rightarrow> (nvwal_stock_error_code None (Some e), s)
                                   | (Inr _, s) \<Rightarrow> (None, s)));
           (e2, s) = (if sg_nv_fd segment \<noteq> 0 \<and> sg_nv_fd segment \<noteq> - 1
                      then (case sys_close (sg_nv_fd segment) s of
                              (Inl e, s) \<Rightarrow> (nvwal_stock_error_code e1 (Some e), s)
                            | (Inr _, s) \<Rightarrow> (e1, s))
                      else (e1, s))
       in c_assert (sg_nv_reader_pins segment = 0)
            (Ok e2 (set_segment i (\<lambda>_. zero_segment) (set_os s w))))"

fun uninit_log_segments :: "nvwal_error_t \<Rightarrow> nat list \<Rightarrow> world \<Rightarrow> (nvwal_error_t, world) outcome" where
  "uninit_log_segments last_seen_error [] w = Ok last_seen_error w"
| "uninit_log_segments last_seen_error (i # is) w =
     and_then (uninit_log_segment i w) (\<lambda>e w.
       uninit_log_segments (nvwal_stock_error_code last_seen_error e) is w)"

definition close_control_file :: "world \<Rightarrow> world" where
  "close_control_file w =
     (let w = (case wal_nv_control_block (w_wal w) of
                 None \<Rightarrow> w
               | Some p \<Rightarrow> w\<lparr>w_os := snd (sys_munmap p (w_os w)),
                              w_wal := (w_wal w)\<lparr>wal_nv_control_block := None\<rparr>\<rparr>);
          fd = wal_nv_control_file_fd (w_wal w)
      in if fd \<noteq> 0 \<and> fd \<noteq> - 1
         then w\<lparr>w_os := snd (sys_close fd (w_os w)), w_wal := (w_wal w)\<lparr>wal_nv_control_file_fd := 0\<rparr>\<rparr>
         else w)"

definition nvwal_impl_uninit :: "world \<Rightarrow> (unit, world) outcome" where
  "nvwal_impl_uninit w =
     and_then (lift_outcome set_flusher_state
                 (nvwal_impl_thread_state_request_and_wait_for_stop (wal_flusher_thread_state (w_wal w))) w) (\<lambda>_ w.
     and_then (lift_outcome set_fsyncer_state
                 (nvwal_impl_thread_state_request_and_wait_for_stop (wal_fsyncer_thread_state (w_wal w))) w) (\<lambda>_ w.
       case (case mds_uninit w of
               Ok _ w \<Rightarrow> Ok None w
             | Fail e w \<Rightarrow> Ok (nvwal_stock_error_code None (Some e)) w
             | Abort \<Rightarrow> Abort | Spin w \<Rightarrow> Spin w) of
         Ok last_seen_error w \<Rightarrow>
           and_then (uninit_log_segments last_seen_error [0..<unat (wal_segment_count (w_wal w))] w) (\<lambda>err w.
             let w = close_control_file w
             in case err of None \<Rightarrow> Ok () w | Some e \<Rightarrow> Fail e w)
       | Fail e w \<Rightarrow> Fail e w | Abort \<Rightarrow> Abort | Spin w \<Rightarrow> Spin w))"

text \<open>
  \<open>own_config\<close> says whether the caller gave the context's own configuration object. The error code of
  the clean-up after a failed initialisation is dropped.
\<close>

definition nvwal_impl_init ::
  "pmem \<Rightarrow> bool \<Rightarrow> NvwalConfig \<Rightarrow> NvwalInitMode \<Rightarrow> world \<Rightarrow> (unit, world) outcome" where
  "nvwal_impl_init pm own_config given_config mode w =
     (if own_config then nvwal_raise_einval w
      else let w = w\<lparr>w_wal := zero_context\<lparr>wal_config := given_config\<rparr>\<rparr>
           in case impl_init_no_error_handling pm mode w of
                Fail e w \<Rightarrow> and_then (ignore_error (nvwal_impl_uninit w)) (\<lambda>_ w. Fail e w)
              | r \<Rightarrow> r)"

definition nvwal_init ::
  "pmem \<Rightarrow> bool \<Rightarrow> NvwalConfig \<Rightarrow> NvwalInitMode \<Rightarrow> world \<Rightarrow> (unit, world) outcome" where
  "nvwal_init pm own_config given_config mode w = nvwal_impl_init pm own_config given_config mode w"

definition nvwal_uninit :: "world \<Rightarrow> (unit, world) outcome" where
  "nvwal_uninit w = nvwal_impl_uninit w"

end
