(* ===== verification/Init_Correct.thy ===== *)
theory Init_Correct
  imports Init System
begin

text \<open>
  What an accepted configuration satisfies, the names of the files, and that \<open>nvwal_init\<close> in two empty
  folders gives a state from which every run of the system is covered by the invariant.
\<close>

section \<open>Folders\<close>

text \<open>A folder name as the checks leave it: its length is known, and it does not end in a slash unless it is empty.\<close>

definition root_ok :: "char list \<Rightarrow> nat \<Rightarrow> bool" where
  "root_ok r n \<longleftrightarrow> n < kNvwalMaxFolderPathLength \<and> strnlen r kNvwalMaxFolderPathLength = n \<and> c_string r = take n r \<and>
     (0 < n \<longrightarrow> r ! (n - 1) \<noteq> CHR ''/'')"

lemma remove_trailing_slash_result:
  assumes "remove_trailing_slash path n = (path', m)" "n \<le> length path"
  shows "m \<le> n \<and> take m path' = take m path \<and> length path' = length path \<and>
    (\<forall>j. m \<le> j \<and> j < n \<longrightarrow> path' ! j = NUL) \<and> (\<forall>j. n \<le> j \<and> j < length path \<longrightarrow> path' ! j = path ! j) \<and> (0 < m \<longrightarrow> path' ! (m - 1) \<noteq> CHR ''/'')"
  using assms
proof (induction n arbitrary: path)
  case (Suc n)
  show ?case
  proof (cases "path ! n = CHR ''/''")
    case True
    then have r: "remove_trailing_slash (path[n := NUL]) n = (path', m)" using Suc.prems by simp
    have IH: "m \<le> n" "take m path' = take m (path[n := NUL])" "length path' = length path"
      "\<forall>j. m \<le> j \<and> j < n \<longrightarrow> path' ! j = NUL" "\<forall>j. n \<le> j \<and> j < length path \<longrightarrow> path' ! j = path[n := NUL] ! j" "0 < m \<longrightarrow> path' ! (m - 1) \<noteq> CHR ''/''"
      using Suc.IH [OF r] Suc.prems(2) by simp_all
    then have "path' ! n = NUL" using Suc.prems(2) by simp
    moreover have "m \<le> j \<and> j < Suc n \<longleftrightarrow> m \<le> j \<and> j < n \<or> j = n" for j using IH(1) by auto
    ultimately show ?thesis using IH by (auto simp: nth_list_update)
  qed (use Suc.prems in auto)
qed auto

lemma strnlen_props:
  "strnlen s n \<le> n" "strnlen s n \<le> length s" "j < strnlen s n \<Longrightarrow> s ! j \<noteq> NUL"
  "strnlen s n < n \<Longrightarrow> strnlen s n < length s \<Longrightarrow> s ! strnlen s n = NUL"
proof -
  show "strnlen s n \<le> n" "strnlen s n \<le> length s" by (rule strnlen_le strnlen_le_length)+
  show "s ! j \<noteq> NUL" if "j < strnlen s n"
    using nth_mem [of j "take (strnlen s n) s"] that strnlen_le_length [of s n] nul_notin_take_strnlen [of s n] by fastforce
  assume "strnlen s n < n" "strnlen s n < length s"
  then have "take n s ! strnlen s n = NUL" using nth_length_takeWhile [of "\<lambda>c. c \<noteq> NUL" "take n s"] by (simp add: strnlen_def)
  then show "s ! strnlen s n = NUL" using \<open>strnlen s n < n\<close> by simp
qed

lemma takeWhile_upto: "m \<le> length s \<Longrightarrow> (\<And>j. j < m \<Longrightarrow> P (s ! j)) \<Longrightarrow> (m < length s \<Longrightarrow> \<not> P (s ! m)) \<Longrightarrow> takeWhile P s = take m s"
  by (metis takeWhile_eq_take_P_nth)

lemma root_checked:
  assumes r: "remove_trailing_slash root (strnlen root kNvwalMaxPathLength) = (root', m)"
    and n: "strnlen root kNvwalMaxPathLength < kNvwalMaxFolderPathLength"
  shows "root_ok root' m"
proof -
  let ?n = "strnlen root kNvwalMaxPathLength"
  note sp = strnlen_props [where s = root and n = kNvwalMaxPathLength]
  have rt: "m \<le> ?n" "take m root' = take m root" "length root' = length root"
    "\<And>j. m \<le> j \<Longrightarrow> j < ?n \<Longrightarrow> root' ! j = NUL" "\<And>j. ?n \<le> j \<Longrightarrow> j < length root \<Longrightarrow> root' ! j = root ! j" "0 < m \<longrightarrow> root' ! (m - 1) \<noteq> CHR ''/''"
    using remove_trailing_slash_result [OF r sp(2)] by blast+
  have pre: "root' ! j \<noteq> NUL" if "j < m" for j
  proof -
    have "root' ! j = root ! j" using rt(2) that by (metis nth_take)
    then show ?thesis using sp(3) that rt(1) by simp
  qed
  have at: "root' ! m = NUL" if "m < length root'"
    using rt(3) rt(4) [of m] rt(5) [of m] that rt(1) sp(4) n by (cases "m < ?n") auto
  have ml: "m \<le> length root'" using rt(1,3) sp(2) by simp
  have "c_string root' = take m root'"
    unfolding c_string_def using ml pre at by (intro takeWhile_upto) auto
  moreover have "takeWhile (\<lambda>c. c \<noteq> NUL) (take kNvwalMaxFolderPathLength root') = take m (take kNvwalMaxFolderPathLength root')"
    using ml pre at rt(1) n by (intro takeWhile_upto) auto
  then have "strnlen root' kNvwalMaxFolderPathLength = m"
    using ml rt(1) n unfolding strnlen_def by simp
  ultimately show ?thesis using rt(1,6) n by (simp add: root_ok_def)
qed

section \<open>Accepted configurations\<close>

definition config_ok :: "NvwalConfig \<Rightarrow> bool" where
  "config_ok c \<longleftrightarrow>
     cf_libnvwal_version c = nvwal_get_version \<and> cf_debug_level c \<noteq> kNvwalInvalidDebugLevel \<and>
     root_ok (cf_nv_root c) (unat (cf_nv_root_len c)) \<and> root_ok (cf_disk_root c) (unat (cf_disk_root_len c)) \<and>
     0 < cf_writer_count c \<and> unat (cf_writer_count c) \<le> kNvwalMaxWorkers \<and>
     0 < cf_writer_buffer_size c \<and> 512 dvd unat (cf_writer_buffer_size c) \<and>
     (\<forall>i < unat (cf_writer_count c). cf_writer_buffers c ! i \<noteq> None) \<and>
     0 < cf_segment_size c \<and> 512 dvd unat (cf_segment_size c) \<and>
     (\<exists>n. 2 \<le> n \<and> n \<le> kNvwalMaxActiveSegments \<and> unat (cf_nv_quota c) = n * unat (cf_segment_size c))"

lemma check_roots_ok:
  assumes "check_roots c = Some c'"
  shows "root_ok (cf_nv_root c') (unat (cf_nv_root_len c')) \<and> root_ok (cf_disk_root c') (unat (cf_disk_root_len c')) \<and>
    c' = c\<lparr>cf_nv_root := cf_nv_root c', cf_nv_root_len := cf_nv_root_len c', cf_disk_root := cf_disk_root c', cf_disk_root_len := cf_disk_root_len c'\<rparr>"
proof -
  obtain nv nvl disk diskl where r: "remove_trailing_slash (cf_nv_root c) (strnlen (cf_nv_root c) kNvwalMaxPathLength) = (nv, nvl)"
    "remove_trailing_slash (cf_disk_root c) (strnlen (cf_disk_root c) kNvwalMaxPathLength) = (disk, diskl)" by fastforce
  then have c': "c' = c\<lparr>cf_nv_root := nv, cf_nv_root_len := of_nat nvl, cf_disk_root := disk, cf_disk_root_len := of_nat diskl\<rparr>"
    and l: "strnlen (cf_nv_root c) kNvwalMaxPathLength < kNvwalMaxFolderPathLength" "strnlen (cf_disk_root c) kNvwalMaxPathLength < kNvwalMaxFolderPathLength"
    using assms by (auto simp: check_roots_def Let_def split: if_splits)
  have ok: "root_ok nv nvl" "root_ok disk diskl" using root_checked [OF r(1) l(1)] root_checked [OF r(2) l(2)] by blast+
  then have "nvl < 224" "diskl < 224" by (simp_all add: root_ok_def)
  then have "unat (cf_nv_root_len c') = nvl" "unat (cf_disk_root_len c') = diskl" using c' by (simp_all add: unsigned_of_nat take_bit_eq_mod)
  with ok c' show ?thesis by simp
qed

lemma require_dir_ok:
  assumes "require_dir q r w = Ok () w'"
  shows "w_wal w' = w_wal w" "w' = w\<lparr>w_os := snd (q (root_of r w) (w_os w))\<rparr>" "fst (q (root_of r w) (w_os w))"
  using assms by (auto simp: require_dir_def nvwal_raise_einval_def split: prod.splits if_splits)

text \<open>The parts of the configuration the checks keep.\<close>

definition config_kept :: "NvwalConfig \<Rightarrow> NvwalConfig \<Rightarrow> bool" where
  "config_kept c c' \<longleftrightarrow> cf_writer_count c' = cf_writer_count c \<and> cf_writer_buffers c' = cf_writer_buffers c \<and>
     cf_writer_buffer_size c' = cf_writer_buffer_size c \<and> cf_nv_quota c' = cf_nv_quota c \<and>
     cf_mds_page_size c' = cf_mds_page_size c \<and> cf_resuming_epoch c' = cf_resuming_epoch c \<and>
     cf_segment_size c' = (if cf_segment_size c = 0 then kNvwalDefaultSegmentSize else cf_segment_size c)"

lemma check_segments_count:
  assumes "check_segments c" "cf_segment_size c \<noteq> 0"
  shows "\<exists>n. 2 \<le> n \<and> n \<le> kNvwalMaxActiveSegments \<and> unat (cf_nv_quota c) = n * unat (cf_segment_size c)"
    "unat (cf_nv_quota c div cf_segment_size c) = unat (cf_nv_quota c) div unat (cf_segment_size c)"
proof -
  let ?q = "cf_nv_quota c" and ?z = "cf_segment_size c"
  show d: "unat (?q div ?z) = unat ?q div unat ?z" by (rule unat_div)
  have "unat (?q mod ?z) = 0" "2 \<le> unat (?q div ?z)" "unat (?q div ?z) \<le> 1024"
    using assms(1) by (simp_all add: check_segments_def Let_def word_less_nat_alt not_less)
  moreover have "unat ?q = unat ?q div unat ?z * unat ?z" using \<open>unat (?q mod ?z) = 0\<close> by (simp add: unat_mod mod_eq_0_iff_dvd)
  ultimately show "\<exists>n. 2 \<le> n \<and> n \<le> kNvwalMaxActiveSegments \<and> unat ?q = n * unat ?z"
    unfolding d by (intro exI [of _ "unat ?q div unat ?z"]) simp
qed

lemma dvd_word: "(512 :: nat) dvd unat x" if "x mod 512 = 0" for x :: u64
proof -
  have "unat (x mod 512) = 0" using that by simp
  then show ?thesis by (simp add: unat_mod mod_eq_0_iff_dvd)
qed

lemma sanity_config:
  assumes "sanity_check_config mode w = Ok () w'"
  shows "config_ok (wal_config (w_wal w'))" "w_wal w' = (w_wal w)\<lparr>wal_config := wal_config (w_wal w')\<rparr>"
    "config_kept (wal_config (w_wal w)) (wal_config (w_wal w'))"
    "mode \<noteq> kNvwalInitRestart \<Longrightarrow> os_resp (w_os w) = [] \<Longrightarrow> w_os w' = w_os w \<and>
       os_dirs (w_os w) (root_of cf_nv_root w') \<noteq> None \<and> os_dirs (w_os w) (root_of cf_disk_root w') \<noteq> None"
proof -
  let ?c1 = "(wal_config (w_wal w))\<lparr>cf_libnvwal_version := nvwal_get_version,
    cf_debug_level := (if cf_debug_level (wal_config (w_wal w)) = kNvwalInvalidDebugLevel then ERROR else cf_debug_level (wal_config (w_wal w)))\<rparr>"
  have cfg: "wal_config (w_wal (set_config (\<lambda>c. c\<lparr>cf_libnvwal_version := nvwal_get_version,
      cf_debug_level := (if cf_debug_level c = kNvwalInvalidDebugLevel then ERROR else cf_debug_level c)\<rparr>) w)) = ?c1"
    by (simp only: set_config_def) simp
  obtain c2 where c2: "check_roots ?c1 = Some c2"
    using assms unfolding sanity_check_config_def Let_def cfg by (cases "check_roots ?c1") (simp_all add: nvwal_raise_einval_def)
  let ?w2 = "set_config (\<lambda>_. c2) w"
  have w2: "set_config (\<lambda>_. c2) (set_config g w) = ?w2" for g by (simp add: set_config_def)
  let ?tail = "\<lambda>v. if mode = kNvwalInitRestart
      then and_then (require_dir nvwal_is_nonempty_dir cf_nv_root v) (\<lambda>_. require_dir nvwal_is_nonempty_dir cf_disk_root)
      else if mode = kNvwalInitCreateTruncate
      then Ok () (set_os (snd (nvwal_is_nonempty_dir (root_of cf_disk_root v) (snd (nvwal_is_nonempty_dir (root_of cf_nv_root v) (w_os v))))) v)
      else Ok () v"
  obtain v1 v2 where v: "require_dir nvwal_is_valid_dir cf_nv_root ?w2 = Ok () v1" "require_dir nvwal_is_valid_dir cf_disk_root v1 = Ok () v2"
    "check_writers (wal_config (w_wal v2))" "cf_segment_size (wal_config (w_wal v2)) mod 512 = 0"
    "check_segments (wal_config (w_wal (set_config default_segment_size v2)))" "?tail (set_config default_segment_size v2) = Ok () w'"
    using assms unfolding sanity_check_config_def Let_def cfg c2 option.case w2 and_then_Ok_iff nvwal_raise_einval_def
    by (auto split: if_splits)
  let ?c3 = "default_segment_size c2"
  have v2: "w_wal v2 = (w_wal w)\<lparr>wal_config := c2\<rparr>" using require_dir_ok(1) [OF v(1)] require_dir_ok(1) [OF v(2)] by (simp add: set_config_def)
  then have v3: "w_wal (set_config default_segment_size v2) = (w_wal w)\<lparr>wal_config := ?c3\<rparr>" by (simp add: set_config_def)
  have "w_wal w' = w_wal (set_config default_segment_size v2)"
    using v(6) by (auto simp: outcome_simps dest!: require_dir_ok(1) split: if_splits)
  with v3 have w': "w_wal w' = (w_wal w)\<lparr>wal_config := ?c3\<rparr>" by simp
  then show "w_wal w' = (w_wal w)\<lparr>wal_config := wal_config (w_wal w')\<rparr>" by simp
  note ro = check_roots_ok [OF c2]
  have cw: "check_writers c2" and sg: "cf_segment_size c2 mod 512 = 0" "check_segments ?c3" using v(3-5) v2 v3 by simp_all
  have c3: "cf_segment_size ?c3 \<noteq> 0" "cf_segment_size ?c3 mod 512 = 0" using sg(1) by (simp_all add: default_segment_size_def)
  have keep: "cf_libnvwal_version c2 = nvwal_get_version" "cf_debug_level c2 \<noteq> kNvwalInvalidDebugLevel" "cf_writer_count c2 = cf_writer_count (wal_config (w_wal w))"
    "cf_writer_buffers c2 = cf_writer_buffers (wal_config (w_wal w))" "cf_writer_buffer_size c2 = cf_writer_buffer_size (wal_config (w_wal w))"
    "cf_nv_quota c2 = cf_nv_quota (wal_config (w_wal w))" "cf_mds_page_size c2 = cf_mds_page_size (wal_config (w_wal w))"
    "cf_resuming_epoch c2 = cf_resuming_epoch (wal_config (w_wal w))" "cf_segment_size c2 = cf_segment_size (wal_config (w_wal w))"
    by (subst conjunct2 [OF conjunct2 [OF ro]]; simp)+
  have "0 < cf_writer_count c2" "unat (cf_writer_count c2) \<le> kNvwalMaxWorkers" "0 < cf_writer_buffer_size c2" "cf_writer_buffer_size c2 mod 512 = 0"
    "\<forall>i < unat (cf_writer_count c2). cf_writer_buffers c2 ! i \<noteq> None"
    using cw by (auto simp: check_writers_def word_less_nat_alt not_less list_all_iff unat_gt_0)
  then show "config_ok (wal_config (w_wal w'))"
    using w' ro keep(1,2) c3 dvd_word check_segments_count(1) [OF sg(2) c3(1)]
    by (simp add: config_ok_def default_segment_size_def word_gt_0)
  show "config_kept (wal_config (w_wal w)) (wal_config (w_wal w'))"
    using w' keep by (simp add: config_kept_def default_segment_size_def)
  assume m: "mode \<noteq> kNvwalInitRestart" and calm: "os_resp (w_os w) = []"
  have dir: "nvwal_is_valid_dir p s = (os_dirs s p \<noteq> None, s)" "snd (nvwal_is_nonempty_dir p s) = s" if "os_resp s = []" for p s
    using that by (auto simp: nvwal_is_valid_dir_def nvwal_is_nonempty_dir_def sys_opendir_def os_simps split: option.splits)
  have o: "w_os ?w2 = w_os w" by (simp add: set_config_def)
  have v1: "v1 = ?w2" "os_dirs (w_os w) (root_of cf_nv_root ?w2) \<noteq> None" using require_dir_ok(2,3) [OF v(1)] dir(1) calm o by simp_all
  have v2': "v2 = ?w2" "os_dirs (w_os w) (root_of cf_disk_root ?w2) \<noteq> None" using require_dir_ok(2,3) [OF v(2)] dir(1) calm o v1 by simp_all
  have "w_os w' = w_os w" using v(6) m dir(2) calm o v2'(1) by (auto simp: set_config_def split: if_splits)
  moreover have "root_of r w' = root_of r ?w2" if "\<And>c. r (default_segment_size c) = r c" for r
    using that w' by (simp add: root_of_def set_config_def)
  ultimately show "w_os w' = w_os w \<and> os_dirs (w_os w) (root_of cf_nv_root w') \<noteq> None \<and> os_dirs (w_os w) (root_of cf_disk_root w') \<noteq> None"
    using v1(2) v2'(2) by (simp add: default_segment_size_def)
qed

section \<open>Names of the files\<close>

lemma dirname_child: "CHR ''/'' \<notin> set b \<Longrightarrow> path_dirname (d @ CHR ''/'' # b) = d" "CHR ''/'' \<notin> set b \<Longrightarrow> path_basename (d @ CHR ''/'' # b) = b"
proof -
  assume b: "CHR ''/'' \<notin> set b"
  then have "takeWhile (\<lambda>c. c \<noteq> CHR ''/'') (rev b @ CHR ''/'' # rev d) = rev b" "dropWhile (\<lambda>c. c \<noteq> CHR ''/'') (rev b @ CHR ''/'' # rev d) = CHR ''/'' # rev d"
    by (subst takeWhile_append2 dropWhile_append2; auto)+
  then show "path_dirname (d @ CHR ''/'' # b) = d" "path_basename (d @ CHR ''/'' # b) = b"
    by (simp_all add: path_dirname_def path_basename_def)
qed

lemma hex8_no_slash: "CHR ''/'' \<notin> set (hex8 s)"
proof -
  have "hex_char c \<noteq> CHR ''/''" if "c < 16" for c
  proof -
    have "c \<in> set [0..<16]" using that by simp
    moreover have "\<forall>c \<in> set [0..<16]. hex_char c \<noteq> CHR ''/''" by code_simp
    ultimately show ?thesis by blast
  qed
  then show ?thesis using nibble_less by (fastforce simp: hex8_def)
qed

lemma sequence_path:
  assumes "root_ok r n" "0 < n" "length pre < 16" "NUL \<notin> set pre" "CHR ''/'' \<notin> set pre"
  shows "nvwal_concat_sequence_filename r pre s = take n r @ CHR ''/'' # pre @ hex8 s"
    "path_dirname (nvwal_concat_sequence_filename r pre s) = c_string r"
    "path_basename (nvwal_concat_sequence_filename r pre s) = pre @ hex8 s"
proof -
  have r: "n < kNvwalMaxFolderPathLength" "strnlen r kNvwalMaxFolderPathLength = n" "c_string r = take n r" "r ! (n - 1) \<noteq> CHR ''/''"
    using assms(1,2) by (simp_all add: root_ok_def)
  have p: "strnlen pre 16 = length pre" using strnlen_no_nul [OF assms(4), of 16] assms(3) by simp
  show e: "nvwal_concat_sequence_filename r pre s = take n r @ CHR ''/'' # pre @ hex8 s"
    using r p assms(2,3) unfolding nvwal_concat_sequence_filename_def Let_def r(2) p by simp
  have "CHR ''/'' \<notin> set (pre @ hex8 s)" using assms(5) hex8_no_slash by simp
  then show "path_dirname (nvwal_concat_sequence_filename r pre s) = c_string r" "path_basename (nvwal_concat_sequence_filename r pre s) = pre @ hex8 s"
    unfolding e r(3) by (rule dirname_child)+
qed

text \<open>The five kinds of files, each in its folder; the lengths of their names tell them apart.\<close>

definition nv_path :: "NvwalConfig \<Rightarrow> nat \<Rightarrow> addr" where
  "nv_path c i = nvwal_concat_sequence_filename (cf_nv_root c) ''nv_segment_'' (of_nat i)"

definition roots_ok :: "NvwalConfig \<Rightarrow> bool" where
  "roots_ok c \<longleftrightarrow> root_ok (cf_nv_root c) (unat (cf_nv_root_len c)) \<and> root_ok (cf_disk_root c) (unat (cf_disk_root_len c)) \<and>
     0 < unat (cf_nv_root_len c) \<and> 0 < unat (cf_disk_root_len c)"

lemma file_names:
  assumes "roots_ok (wal_config wal)"
  defines "nroot \<equiv> c_string (cf_nv_root (wal_config wal))" and "droot \<equiv> c_string (cf_disk_root (wal_config wal))"
  shows "path_dirname (control_file_path wal) = nroot" "length (path_basename (control_file_path wal)) = 8"
    "path_dirname (mds_page_file_path wal 0) = droot" "length (path_basename (mds_page_file_path wal 0)) = 21"
    "path_dirname (mds_buffer_path wal 0) = nroot" "length (path_basename (mds_buffer_path wal 0)) = 22"
    "nvwal_construct_nv_segment_path wal (of_nat i) = Some (nv_path (wal_config wal) i)"
    "path_dirname (nv_path (wal_config wal) i) = nroot" "length (path_basename (nv_path (wal_config wal) i)) = 19"
    "nvwal_construct_disk_segment_path wal d = Some p \<Longrightarrow> path_dirname p = droot \<and> length (path_basename p) = 17"
    "i < 2 ^ 32 \<Longrightarrow> j < 2 ^ 32 \<Longrightarrow> nv_path (wal_config wal) i = nv_path (wal_config wal) j \<longleftrightarrow> i = j"
    "unat (cf_nv_root_len (wal_config wal)) + 32 < kNvwalMaxPathLength" "unat (cf_disk_root_len (wal_config wal)) + 32 < kNvwalMaxPathLength"
proof -
  let ?nr = "cf_nv_root (wal_config wal)" and ?dr = "cf_disk_root (wal_config wal)"
  let ?nl = "unat (cf_nv_root_len (wal_config wal))" and ?dl = "unat (cf_disk_root_len (wal_config wal))"
  have ok: "root_ok ?nr ?nl" "root_ok ?dr ?dl" "0 < ?nl" "0 < ?dl" using assms(1) by (simp_all add: roots_ok_def)
  show l: "?nl + 32 < kNvwalMaxPathLength" "?dl + 32 < kNvwalMaxPathLength" using ok(1,2) by (simp_all add: root_ok_def)
  have c: "control_file_path wal = nroot @ CHR ''/'' # ''nvwal.cf''" using ok(1) by (simp add: control_file_path_def root_ok_def nroot_def)
  show "path_dirname (control_file_path wal) = nroot" "length (path_basename (control_file_path wal)) = 8"
    unfolding c by (simp_all add: dirname_child)
  note n = sequence_path(2,3) [OF ok(1,3), folded nroot_def] and d = sequence_path(2,3) [OF ok(2,4), folded droot_def]
  show "path_dirname (mds_page_file_path wal 0) = droot" "length (path_basename (mds_page_file_path wal 0)) = 21"
    unfolding mds_page_file_path_def by (simp_all add: d)
  show "path_dirname (mds_buffer_path wal 0) = nroot" "length (path_basename (mds_buffer_path wal 0)) = 22"
    unfolding mds_buffer_path_def by (simp_all add: n)
  show "nvwal_construct_nv_segment_path wal (of_nat i) = Some (nv_path (wal_config wal) i)"
    using l by (simp add: nvwal_construct_nv_segment_path_def nv_path_def)
  show "path_dirname (nv_path (wal_config wal) i) = nroot" "length (path_basename (nv_path (wal_config wal) i)) = 19"
    unfolding nv_path_def by (simp_all add: n)
  show "nvwal_construct_disk_segment_path wal d = Some p \<Longrightarrow> path_dirname p = droot \<and> length (path_basename p) = 17"
    using l by (auto simp: nvwal_construct_disk_segment_path_def d)
  assume ij: "i < 2 ^ 32" "j < 2 ^ 32"
  have "i = j" if "(of_nat i :: u32) = of_nat j"
    using arg_cong [OF that, of unat] ij by (simp add: unsigned_of_nat take_bit_eq_mod)
  moreover have "strnlen ''nv_segment_'' 16 < 16" by (simp add: strnlen_def)
  ultimately show "nv_path (wal_config wal) i = nv_path (wal_config wal) j \<longleftrightarrow> i = j"
    using concat_sequence_filename_inj [of ?nr "''nv_segment_''" "of_nat i" "of_nat j"] ok(1) ij
    by (auto simp: nv_path_def root_ok_def)
qed

section \<open>The control file\<close>

text \<open>Two folders in which files can be made.\<close>

definition in_folders :: "NvwalConfig \<Rightarrow> addr \<Rightarrow> bool" where
  "in_folders c p \<longleftrightarrow> path_dirname p = c_string (cf_nv_root c) \<or> path_dirname p = c_string (cf_disk_root c)"

definition folders_ready :: "NvwalConfig \<Rightarrow> os \<Rightarrow> bool" where
  "folders_ready c s \<longleftrightarrow> os_resp s = [] \<and> 0 < os_next_fd s \<and>
     c_string (cf_nv_root c) \<in> dom (os_dirs s) \<and> c_string (cf_disk_root c) \<in> dom (os_dirs s) \<and>
     (\<forall>p. in_folders c p \<longrightarrow> p \<notin> dom (os_dirs s))"

lemma folders_ready_keep:
  "folders_ready c s \<Longrightarrow> dom (os_dirs t) = dom (os_dirs s) \<Longrightarrow> os_resp t = os_resp s \<Longrightarrow> os_next_fd s \<le> os_next_fd t \<Longrightarrow> folders_ready c t"
  by (auto simp: folders_ready_def)

lemma open_create_plain:
  assumes "os_files s f = None" "os_dirs s f = None" "os_resp s = []" "os_dirs s (path_dirname f) = Some es"
  shows "nvwal_open_best_effort_o_direct f True False s = new_fd f False
           (s\<lparr>os_files := (os_files s)(f \<mapsto> []),
              os_dirs := (os_dirs s)(path_dirname f \<mapsto> es @ [(path_basename f, DT_REG)])\<rparr>)"
  using assms by (simp add: sys_open_def nvwal_open_best_effort_o_direct_def os_simps new_fd_def)

text \<open>A new file of \<open>n\<close> zero bytes, open and mapped.\<close>

definition new_file :: "addr \<Rightarrow> nat \<Rightarrow> os \<Rightarrow> os \<Rightarrow> bool" where
  "new_file p n s s' \<longleftrightarrow>
     os_files s' = (os_files s)(p \<mapsto> replicate n 0) \<and> dom (os_dirs s') = dom (os_dirs s) \<and> os_resp s' = os_resp s \<and>
     os_next_fd s' = os_next_fd s + 1 \<and> (\<forall>fd < os_next_fd s. os_fds s' fd = os_fds s fd) \<and> (\<forall>q. q \<noteq> p \<longrightarrow> os_durable s' q = os_durable s q)"

lemma create_and_map:
  assumes "os_files s p = None" "os_resp s = []" "p \<notin> dom (os_dirs s)" "path_dirname p \<in> dom (os_dirs s)"
  obtains t where "nvwal_open_best_effort_o_direct p True False s = (Inr (os_next_fd s), t)"
    "\<exists>u. sys_fallocate (os_next_fd s) n t = (Inr (), u) \<and> sys_mmap (os_next_fd s) u = (Inr p, u) \<and> new_file p n s u \<and>
       os_cblock u = os_cblock s \<and> os_cblock_durable u = os_cblock_durable s \<and> os_durable u = os_durable s"
proof -
  obtain es where es: "os_dirs s (path_dirname p) = Some es" using assms(4) by auto
  have ne: "p \<noteq> path_dirname p" using assms(3,4) by auto
  let ?t = "snd (new_fd p False (s\<lparr>os_files := (os_files s)(p \<mapsto> []), os_dirs := (os_dirs s)(path_dirname p \<mapsto> es @ [(path_basename p, DT_REG)])\<rparr>))"
  let ?u = "?t\<lparr>os_files := (os_files s)(p \<mapsto> replicate n 0)\<rparr>"
  have "nvwal_open_best_effort_o_direct p True False s = (Inr (os_next_fd s), ?t)"
    using open_create_plain [OF assms(1) _ assms(2) es] assms(3) by (simp add: new_fd_def domIff)
  moreover have "sys_fallocate (os_next_fd s) n ?t = (Inr (), ?u)"
    using assms(2) by (simp add: sys_fallocate_def os_simps new_fd_def fd_file_def resize_def)
  moreover have "sys_mmap (os_next_fd s) ?u = (Inr p, ?u)" using assms(2) by (simp add: sys_mmap_def os_simps new_fd_def fd_file_def)
  moreover have "new_file p n s ?u" using es by (auto simp: new_file_def new_fd_def)
  ultimately show thesis by (intro that [of ?t]) (auto simp: new_fd_def)
qed

lemma open_control_fresh:
  assumes c: "roots_ok (wal_config (w_wal w))" and f: "folders_ready (wal_config (w_wal w)) (w_os w)"
    and new: "os_files (w_os w) (control_file_path (w_wal w)) = None"
    and z: "wal_nv_control_file_fd (w_wal w) = 0" "wal_nv_control_block (w_wal w) = None" and m: "mode \<noteq> kNvwalInitRestart"
  defines "p \<equiv> control_file_path (w_wal w)"
  shows "\<exists>s fd. open_control_file mode w = Ok () \<lparr>w_os = s, w_wal = (w_wal w)\<lparr>wal_nv_control_file_fd := fd, wal_nv_control_block := Some p, wal_prev_config := zero_config\<rparr>\<rparr> \<and>
    new_file p control_block_size (w_os w) s \<and>
    os_cblock s = (os_cblock (w_os w))(p := zero_control_block) \<and> os_cblock_durable s = (os_cblock_durable (w_os w))(p := zero_control_block)"
proof -
  note fn = file_names [OF c]
  have p: "path_dirname p \<in> dom (os_dirs (w_os w))" "p \<notin> dom (os_dirs (w_os w))" "os_files (w_os w) p = None" "os_resp (w_os w) = []"
    using f fn(1) new by (auto simp: folders_ready_def p_def in_folders_def)
  obtain t where t: "nvwal_open_best_effort_o_direct p True False (w_os w) = (Inr (os_next_fd (w_os w)), t)"
    and ex: "\<exists>u. sys_fallocate (os_next_fd (w_os w)) control_block_size t = (Inr (), u) \<and> sys_mmap (os_next_fd (w_os w)) u = (Inr p, u) \<and> new_file p control_block_size (w_os w) u \<and>
       os_cblock u = os_cblock (w_os w) \<and> os_cblock_durable u = os_cblock_durable (w_os w) \<and> os_durable u = os_durable (w_os w)"
    by (rule create_and_map [OF p(3,4,2,1)])
  obtain u where u: "sys_fallocate (os_next_fd (w_os w)) control_block_size t = (Inr (), u)" "sys_mmap (os_next_fd (w_os w)) u = (Inr p, u)"
    "new_file p control_block_size (w_os w) u" "os_cblock u = os_cblock (w_os w)" "os_cblock_durable u = os_cblock_durable (w_os w)"
    using ex by blast
  let ?s = "u\<lparr>os_cblock := (os_cblock u)(p := zero_control_block), os_cblock_durable := (os_cblock_durable u)(p := zero_control_block)\<rparr>"
  have st: "sys_stat p (w_os w) = (Inl ENOENT, w_os w)" using p by (simp add: sys_stat_def os_simps domIff)
  have "unat (cf_nv_root_len (wal_config (w_wal w))) + 1 + 8 < kNvwalMaxPathLength" using fn(12) by simp
  then have "open_control_file mode w = Ok () \<lparr>w_os = ?s, w_wal = (w_wal w)\<lparr>wal_nv_control_file_fd := os_next_fd (w_os w), wal_nv_control_block := Some p, wal_prev_config := zero_config\<rparr>\<rparr>"
    using z m t u(1,2) st
    by (simp add: open_control_file_def p_def [symmetric] Let_def sys_call_def zero_control_block_def)
  moreover have "new_file p control_block_size (w_os w) ?s" using u(3) by (simp add: new_file_def)
  ultimately show ?thesis using u(4,5) by (intro exI [of _ ?s]) auto
qed

section \<open>Writers and segments\<close>

lemma for_each_upt:
  assumes "P 0 w" "\<And>i w. i < n \<Longrightarrow> P i w \<Longrightarrow> \<exists>w'. f i w = Ok () w' \<and> P (Suc i) w'"
  shows "\<exists>w'. for_each f [0..<n] w = Ok () w' \<and> P n w'"
proof -
  have "\<exists>w'. for_each f [k..<n] w = Ok () w' \<and> P n w'" if "P k w" "k \<le> n" for k w
    using that
  proof (induction "n - k" arbitrary: k w)
    case (Suc m)
    then have k: "k < n" by simp
    obtain v where v: "f k w = Ok () v" "P (Suc k) v" using assms(2) [OF k Suc.prems(1)] by blast
    have "\<exists>w'. for_each f [Suc k..<n] v = Ok () w' \<and> P n w'" using Suc.hyps(2) k by (intro Suc.hyps(1) v(2)) simp_all
    then show ?case using v(1) k by (simp add: upt_conv_Cons)
  qed (use that in auto)
  then show ?thesis using assms(1) by blast
qed

definition writers_given :: "NvwalConfig \<Rightarrow> bool" where
  "writers_given c \<longleftrightarrow> unat (cf_writer_count c) \<le> length (cf_writer_buffers c) \<and>
     (\<forall>i < unat (cf_writer_count c). case cf_writer_buffers c ! i of None \<Rightarrow> False | Some b \<Rightarrow> length b = unat (cf_writer_buffer_size c))"

definition ready_writers :: "NvwalConfig \<Rightarrow> nat \<Rightarrow> NvwalWriterContext list \<Rightarrow> bool" where
  "ready_writers c n ws \<longleftrightarrow> length ws = kNvwalMaxWorkers \<and>
     (\<forall>i < n. ws ! i = zero_writer\<lparr>wr_writer_seq_id := of_nat i, wr_buffer := the (cf_writer_buffers c ! i)\<rparr>) \<and>
     (\<forall>i. n \<le> i \<and> i < length ws \<longrightarrow> ws ! i = zero_writer)"

lemma init_writers:
  assumes "writers_given (wal_config (w_wal w))" "wal_writers (w_wal w) = replicate kNvwalMaxWorkers zero_writer"
    and n: "unat (cf_writer_count (wal_config (w_wal w))) \<le> kNvwalMaxWorkers"
  shows "\<exists>ws. for_each init_writer [0..<unat (cf_writer_count (wal_config (w_wal w)))] w = Ok () (w\<lparr>w_wal := (w_wal w)\<lparr>wal_writers := ws\<rparr>\<rparr>) \<and>
    ready_writers (wal_config (w_wal w)) (unat (cf_writer_count (wal_config (w_wal w)))) ws"
proof -
  let ?c = "wal_config (w_wal w)"
  let ?P = "\<lambda>i v. \<exists>ws. v = w\<lparr>w_wal := (w_wal w)\<lparr>wal_writers := ws\<rparr>\<rparr> \<and> ready_writers ?c i ws"
  have "\<exists>v'. init_writer i v = Ok () v' \<and> ?P (Suc i) v'" if i: "i < unat (cf_writer_count ?c)" and P: "?P i v" for i v
  proof -
    obtain ws where ws: "v = w\<lparr>w_wal := (w_wal w)\<lparr>wal_writers := ws\<rparr>\<rparr>" "ready_writers ?c i ws" using P by blast
    obtain b where b: "cf_writer_buffers ?c ! i = Some b" "i < length (cf_writer_buffers ?c)"
      using assms(1) i by (fastforce simp: writers_given_def split: option.splits)
    let ?ws = "ws[i := (ws ! i)\<lparr>wr_writer_seq_id := of_nat i, wr_buffer := b\<rparr>]"
    have il: "i < length ws" "ws ! i = zero_writer" using ws(2) i n by (simp_all add: ready_writers_def)
    have "init_writer i v = Ok () (w\<lparr>w_wal := (w_wal w)\<lparr>wal_writers := ?ws\<rparr>\<rparr>)"
      using ws(1) b il by (simp add: init_writer_def elem_at_def checked_def set_writer_def Let_def)
    moreover have "ready_writers ?c (Suc i) ?ws"
      using ws(2) b il by (auto simp: ready_writers_def nth_list_update less_Suc_eq)
    ultimately show ?thesis by blast
  qed
  moreover have "?P 0 w"
    by (rule exI [of _ "wal_writers (w_wal w)"]) (simp add: ready_writers_def assms(2))
  ultimately show ?thesis using for_each_upt [of ?P w "unat (cf_writer_count ?c)" init_writer] by blast
qed

text \<open>The segments made so far, and the files of the others not made yet.\<close>

definition fresh_segment :: "NvwalConfig \<Rightarrow> nat \<Rightarrow> NvwalLogSegment \<Rightarrow> bool" where
  "fresh_segment c i g \<longleftrightarrow> sg_dsid g = of_nat (Suc i) \<and> sg_nv_segment_index g = of_nat i \<and> sg_written_bytes g = 0 \<and>
     sg_nv_baseaddr g = Some (nv_path c i) \<and> \<not> sg_fsync_requested g \<and> \<not> sg_fsync_completed g \<and> sg_fsync_error g = None \<and> sg_nv_reader_pins g = 0"

definition segments_made :: "world \<Rightarrow> nat \<Rightarrow> world \<Rightarrow> bool" where
  "segments_made w i v \<longleftrightarrow>
     (w_wal v)\<lparr>wal_segments := []\<rparr> = (w_wal w)\<lparr>wal_segments := []\<rparr> \<and> length (wal_segments (w_wal v)) = kNvwalMaxActiveSegments \<and>
     (\<forall>j < i. fresh_segment (wal_config (w_wal w)) j (wal_segments (w_wal v) ! j)) \<and>
     (\<forall>j. i \<le> j \<and> j < kNvwalMaxActiveSegments \<longrightarrow> wal_segments (w_wal v) ! j = zero_segment) \<and>
     (\<forall>j < i. os_files (w_os v) (nv_path (wal_config (w_wal w)) j) = Some (replicate (seg_size w) 0)) \<and>
     (\<forall>p. p \<notin> nv_path (wal_config (w_wal w)) ` {..<i} \<longrightarrow> os_files (w_os v) p = os_files (w_os w) p \<and> os_durable (w_os v) p = os_durable (w_os w) p) \<and>
     dom (os_dirs (w_os v)) = dom (os_dirs (w_os w)) \<and> os_resp (w_os v) = os_resp (w_os w) \<and> os_next_fd (w_os w) \<le> os_next_fd (w_os v) \<and>
     (\<forall>fd < os_next_fd (w_os w). os_fds (w_os v) fd = os_fds (w_os w) fd) \<and>
     os_cblock (w_os v) = os_cblock (w_os w) \<and> os_cblock_durable (w_os v) = os_cblock_durable (w_os w)"

lemma segments_made_os:
  assumes "segments_made w i v"
  shows "dom (os_dirs (w_os v)) = dom (os_dirs (w_os w))" "os_resp (w_os v) = os_resp (w_os w)" "os_next_fd (w_os w) \<le> os_next_fd (w_os v)"
    "os_cblock (w_os v) = os_cblock (w_os w)" "os_cblock_durable (w_os v) = os_cblock_durable (w_os w)"
    "length (wal_segments (w_wal v)) = kNvwalMaxActiveSegments"
    "\<And>j. j < i \<Longrightarrow> fresh_segment (wal_config (w_wal w)) j (wal_segments (w_wal v) ! j)"
    "\<And>j. j < i \<Longrightarrow> os_files (w_os v) (nv_path (wal_config (w_wal w)) j) = Some (replicate (seg_size w) 0)"
  using assms by (simp_all add: segments_made_def)

lemma segments_made_config:
  assumes "segments_made w i v"
  shows "wal_config (w_wal v) = wal_config (w_wal w)"
proof -
  have "(w_wal v)\<lparr>wal_segments := []\<rparr> = (w_wal w)\<lparr>wal_segments := []\<rparr>" using assms by (simp add: segments_made_def)
  from arg_cong [OF this, of wal_config] show ?thesis by simp
qed

lemma fresh_segment_step:
  assumes c: "roots_ok (wal_config (w_wal w))" and f: "folders_ready (wal_config (w_wal w)) (w_os w)"
    and new: "\<forall>j < kNvwalMaxActiveSegments. os_files (w_os w) (nv_path (wal_config (w_wal w)) j) = None"
    and i: "i < kNvwalMaxActiveSegments" and P: "segments_made w i v"
  shows "\<exists>v'. init_fresh_nvram_segment pm i v = Ok () v' \<and> segments_made w (Suc i) v'"
proof -
  let ?c = "wal_config (w_wal w)" and ?p = "nv_path (wal_config (w_wal w)) i" and ?S = "seg_size w"
  note cv = segments_made_config [OF P] and fn = file_names [OF c]
  let ?g0 = "\<lambda>g. g\<lparr>sg_dsid := ucast ((of_nat i :: u32) + 1), sg_nv_segment_index := of_nat i, sg_written_bytes := 0\<rparr>"
  have inj: "?p \<noteq> nv_path ?c j" if "j < i" for j using fn(11) [of i j] that i by simp
  then have "?p \<notin> nv_path ?c ` {..<i}" by blast
  then have "os_files (w_os v) ?p = os_files (w_os w) ?p" using P unfolding segments_made_def by blast
  then have s: "os_files (w_os v) ?p = None" "os_resp (w_os v) = []" "?p \<notin> dom (os_dirs (w_os v))" "path_dirname ?p \<in> dom (os_dirs (w_os v))" "0 < os_next_fd (w_os v)"
    using P f new i fn(8) [of i] by (auto simp: segments_made_def folders_ready_def in_folders_def)
  obtain t where t: "nvwal_open_best_effort_o_direct ?p True False (w_os v) = (Inr (os_next_fd (w_os v)), t)"
    and ex: "\<exists>u. sys_fallocate (os_next_fd (w_os v)) ?S t = (Inr (), u) \<and> sys_mmap (os_next_fd (w_os v)) u = (Inr ?p, u) \<and> new_file ?p ?S (w_os v) u \<and>
       os_cblock u = os_cblock (w_os v) \<and> os_cblock_durable u = os_cblock_durable (w_os v) \<and> os_durable u = os_durable (w_os v)"
    by (rule create_and_map [OF s(1-4)])
  obtain u where u: "sys_fallocate (os_next_fd (w_os v)) ?S t = (Inr (), u)" "sys_mmap (os_next_fd (w_os v)) u = (Inr ?p, u)"
    "new_file ?p ?S (w_os v) u" "os_cblock u = os_cblock (w_os v)" "os_cblock_durable u = os_cblock_durable (w_os v)"
    using ex by blast
  let ?u = "pmem_store_persist pm ?p 0 (replicate ?S 0) u"
  have il: "i < length (wal_segments (w_wal v))" "wal_segments (w_wal v) ! i = zero_segment" using P i by (simp_all add: segments_made_def)
  have path: "nvwal_construct_nv_segment_path wal (of_nat i) = Some ?p" if "wal_config wal = ?c" for wal
    using fn(12) that by (simp add: nvwal_construct_nv_segment_path_def nv_path_def)
  let ?g = "zero_segment\<lparr>sg_dsid := ucast ((of_nat i :: u32) + 1), sg_nv_segment_index := of_nat i, sg_written_bytes := 0, sg_nv_fd := os_next_fd (w_os v), sg_nv_baseaddr := Some ?p\<rparr>"
  let ?v = "\<lparr>w_os = ?u, w_wal = (w_wal v)\<lparr>wal_segments := (wal_segments (w_wal v))[i := ?g]\<rparr>\<rparr>"
  have sz: "unat (cf_segment_size ?c) = ?S" by (simp add: seg_size_def)
  have "init_fresh_nvram_segment pm i v = Ok () ?v"
    using il path t u(1,2) s(5) cv sz
    by (simp add: init_fresh_nvram_segment_def elem_at_def checked_def set_segment_def Let_def sys_call_def)
  moreover have "fresh_segment ?c i ?g"
  proof -
    have "ucast ((of_nat i :: u32) + 1) = (of_nat (Suc i) :: u64)"
      using i by (intro unat_eq_u64 [THEN iffD1]) (simp add: unsigned_ucast_eq unat_word_ariths unsigned_of_nat take_bit_eq_mod)
    then show ?thesis by (simp add: fresh_segment_def zero_segment_def)
  qed
  moreover have "segments_made w (Suc i) ?v" if "fresh_segment ?c i ?g"
  proof -
    have "os_files ?u = (os_files (w_os v))(?p \<mapsto> replicate ?S 0)"
      using u(3) by (simp add: new_file_def pmem_store_persist_def store_mapped_def persist_mapped_def mapped_def mem_write_def split: option.splits)
    moreover have "q \<noteq> ?p \<Longrightarrow> os_durable ?u q = os_durable (w_os v) q" for q
      using u(3) by (simp add: new_file_def pmem_store_persist_def store_mapped_def persist_mapped_def split: option.splits)
    ultimately show ?thesis
      using P u(3-5) that il(1) inj i
      by (auto simp: segments_made_def new_file_def nth_list_update less_Suc_eq lessThan_Suc world_simps)
  qed
  ultimately show ?thesis by blast
qed

section \<open>A new instance satisfies the invariant\<close>

text \<open>What the caller has to see to besides the checks: sizes for which offsets and counters do not wrap around.\<close>

definition usable_config :: "NvwalConfig \<Rightarrow> bool" where
  "usable_config c \<longleftrightarrow> 0 < cf_nv_root_len c \<and> 0 < cf_disk_root_len c \<and> writers_given c \<and> unat (cf_writer_buffer_size c) < 2 ^ 62 \<and>
     unat (cf_segment_size c) < 2 ^ 32 \<and> cf_mds_page_size c mod 512 = 0 \<and> cf_mds_page_size c \<noteq> 0 \<and> unat (cf_mds_page_size c) < 2 ^ 37 \<and>
     cf_resuming_epoch c = kNvwalInvalidEpoch"

definition fresh_wal :: "world \<Rightarrow> bool" where
  "fresh_wal w \<longleftrightarrow>
     (let wal = w_wal w; c = wal_config wal; s = w_os w
      in config_ok c \<and> usable_config c \<and> wal_durable_epoch wal = 0 \<and> wal_stable_epoch wal = 0 \<and>
         unat (cf_nv_quota c) = seg_count w * seg_size w \<and>
         wal_flusher_current_nv_segment_dsid wal = 1 \<and> wal_flusher_current_epoch_head_dsid wal = 1 \<and> wal_flusher_current_epoch_head_offset wal = 0 \<and>
         wal_nv_control_block wal = Some (control_file_path wal) \<and> ready_writers c (unat (cf_writer_count c)) (wal_writers wal) \<and>
         length (wal_segments wal) = kNvwalMaxActiveSegments \<and> (\<forall>j < seg_count w. fresh_segment c j (wal_segments wal ! j)) \<and>
         (\<forall>j < seg_count w. os_files s (nv_path c j) = Some (replicate (seg_size w) 0) \<and> os_durable s (nv_path c j) = Some (replicate (seg_size w) 0)) \<and>
         os_cblock s (control_file_path wal) = zero_control_block\<lparr>cb_config := c\<rparr> \<and>
         os_cblock_durable s (control_file_path wal) = zero_control_block\<lparr>cb_config := c\<rparr> \<and>
         folders_ready c s \<and> mds_repr w [] \<and> (\<forall>pf \<in> set (io_files (mds_io (wal_mds wal))). pf_fd pf < os_next_fd s))"

lemma usable_roots: "config_ok c \<Longrightarrow> usable_config c \<Longrightarrow> roots_ok c"
  by (simp add: config_ok_def usable_config_def roots_ok_def unat_gt_0 word_gt_0)

lemma fresh_segment_count:
  assumes "config_ok c" "unat (cf_nv_quota c) = N * unat (cf_segment_size c)"
  shows "2 \<le> N" "N \<le> kNvwalMaxActiveSegments" "0 < unat (cf_segment_size c)"
proof -
  obtain n where n: "2 \<le> n" "n \<le> kNvwalMaxActiveSegments" "unat (cf_nv_quota c) = n * unat (cf_segment_size c)" "cf_segment_size c \<noteq> 0"
    using assms(1) by (auto simp: config_ok_def)
  show z: "0 < unat (cf_segment_size c)" using n(4) by (simp add: unat_gt_0)
  have "N = n" using n(3) assms(2) z by simp
  with n show "2 \<le> N" "N \<le> kNvwalMaxActiveSegments" by simp_all
qed

lemma fresh_log:
  assumes f: "fresh_wal w"
  shows "log_repr w []" "cur_written w = 0" "cur_dsid w = 1" "last_synced w = 0"
proof -
  let ?N = "seg_count w" and ?S = "seg_size w" and ?c = "wal_config (w_wal w)"
  have c: "config_ok ?c" "usable_config ?c" "unat (cf_nv_quota ?c) = ?N * unat (cf_segment_size ?c)"
    and seg: "\<And>j. j < ?N \<Longrightarrow> fresh_segment ?c j (wal_segments (w_wal w) ! j)"
    and fl: "\<And>j. j < ?N \<Longrightarrow> os_files (w_os w) (nv_path ?c j) = Some (replicate ?S 0)"
    and len: "length (wal_segments (w_wal w)) = kNvwalMaxActiveSegments"
    using f by (simp_all add: fresh_wal_def Let_def seg_size_def)
  note N = fresh_segment_count [OF c(1,3)] and fn = file_names [OF usable_roots [OF c(1,2)]]
  show cur: "cur_dsid w = 1" using f by (simp add: fresh_wal_def Let_def cur_dsid_def)
  have g0: "fresh_segment ?c 0 (wal_segments (w_wal w) ! 0)" using seg [of 0] N(1) by simp
  then show "cur_written w = 0" using N(1) by (simp add: cur_written_def cur_index_def cur fresh_segment_def)
  show "last_synced w = 0" using f by (simp add: fresh_wal_def Let_def last_synced_def zero_control_block_def)
  have "seg_ok ?S ?N 1 (w_os w) [] j (wal_segments (w_wal w) ! j)" if j: "j < ?N" for j
  proof -
    have "unat (of_nat (Suc j) :: u64) = Suc j" using j N(2) by (intro unat_of_nat_small) simp
    then show ?thesis
      using seg [OF j] fl [OF j] j N(1) by (simp add: seg_ok_def Let_def fresh_segment_def mapped_def del: of_nat_Suc)
  qed
  moreover have "i = j" if "i < ?N" "j < ?N" "sg_nv_baseaddr (wal_segments (w_wal w) ! i) = sg_nv_baseaddr (wal_segments (w_wal w) ! j)" for i j
    using seg [OF that(1)] seg [OF that(2)] that fn(11) [of i j] N(2) by (simp add: fresh_segment_def)
  moreover have "?S < 2 ^ 32" "0 < ?S" using c(2) N(3) by (simp_all add: usable_config_def seg_size_def)
  ultimately show "log_repr w []" using N len cur by (simp add: log_repr_def)
qed

lemma fresh_names:
  assumes f: "fresh_wal w"
  shows "seg_bases w = nv_path (wal_config (w_wal w)) ` {..<seg_count w}" "disk_names_ok w" "mds_names_ok w" "disk_ready w"
proof -
  let ?N = "seg_count w" and ?c = "wal_config (w_wal w)"
  have c: "roots_ok ?c" and seg: "\<And>j. j < ?N \<Longrightarrow> sg_nv_baseaddr (wal_segments (w_wal w) ! j) = Some (nv_path ?c j)" and fr: "folders_ready ?c (w_os w)"
    using f usable_roots by (simp_all add: fresh_wal_def Let_def fresh_segment_def)
  note fn = file_names [OF c]
  show b: "seg_bases w = nv_path ?c ` {..<?N}" using seg by (auto simp: seg_bases_def)
  have ne: "Some (nv_path ?c i) \<noteq> nvwal_construct_disk_segment_path (w_wal w) d" "mds_page_file_path (w_wal w) 0 \<noteq> nv_path ?c i" "mds_buffer_path (w_wal w) 0 \<noteq> nv_path ?c i" for i d
    using fn(4,6) fn(9) [of i] fn(10) [of d "nv_path ?c i"] by auto
  have "nvwal_construct_disk_segment_path (w_wal w) d \<notin> Some ` seg_bases w" for d
    unfolding b image_image using ne(1) [THEN not_sym] by (simp add: image_iff)
  then show "disk_names_ok w" using fn(13) c by (simp add: disk_names_ok_def roots_ok_def root_ok_def)
  show "mds_names_ok w"
    unfolding mds_names_ok_def b
  proof (intro conjI allI)
    show "mds_page_file_path (w_wal w) 0 \<notin> nv_path ?c ` {..<?N}" "mds_buffer_path (w_wal w) 0 \<notin> nv_path ?c ` {..<?N}"
      using ne(2,3) by auto
    show "nvwal_construct_disk_segment_path (w_wal w) d \<noteq> Some (mds_page_file_path (w_wal w) 0)"
      "nvwal_construct_disk_segment_path (w_wal w) d \<noteq> Some (mds_buffer_path (w_wal w) 0)" for d
      using fn(10) [of d "mds_page_file_path (w_wal w) 0"] fn(10) [of d "mds_buffer_path (w_wal w) 0"] fn(4,6) by auto
  qed
  show "disk_ready w"
    using fr fn(10) by (auto simp: disk_ready_def folders_ready_def in_folders_def dest: domD)
qed

lemma fresh_state:
  assumes f: "fresh_wal w"
  shows "sys_state w [] [] (replicate (unat (cf_writer_count (wal_config (w_wal w)))) \<lparr>ws_sent = [], ws_pieces = [], ws_low = 0\<rparr>) []"
proof -
  let ?c = "wal_config (w_wal w)" and ?N = "seg_count w" and ?S = "seg_size w"
  let ?ps = "replicate (unat (cf_writer_count ?c)) \<lparr>ws_sent = [], ws_pieces = [], ws_low = 0\<rparr>"
  note l = fresh_log [OF f] and nm = fresh_names [OF f]
  have c: "config_ok ?c" "usable_config ?c" and ws: "ready_writers ?c (unat (cf_writer_count ?c)) (wal_writers (w_wal w))" and m: "mds_repr w []"
    and seg: "\<And>j. j < ?N \<Longrightarrow> fresh_segment ?c j (wal_segments (w_wal w) ! j)"
    and fl: "\<And>j. j < ?N \<Longrightarrow> os_durable (w_os w) (nv_path ?c j) = Some (replicate ?S 0)"
    using f by (simp_all add: fresh_wal_def Let_def)
  have N: "2 \<le> ?N" "?N \<le> 1024" using l(1) f by (simp_all add: log_repr_def fresh_wal_def Let_def)
  have d: "unat (sg_dsid (wal_segments (w_wal w) ! j)) = Suc j" if "j < ?N" for j
  proof -
    have "unat (of_nat (Suc j) :: u64) = Suc j" using that N(2) by (intro unat_of_nat_small) simp
    then show ?thesis using seg [OF that] by (simp add: fresh_segment_def del: of_nat_Suc)
  qed
  have safe: "log_safe view w []" for view
    using l nm(2) N(1) d seg by (auto simp: log_safe_def fresh_segment_def)
  have "writer_repr (w_wal w) (wal_writers (w_wal w) ! i) [] [] 0" if i: "i < unat (cf_writer_count ?c)" for i
  proof (rule fresh_writer_repr)
    have w: "wal_writers (w_wal w) ! i = zero_writer\<lparr>wr_writer_seq_id := of_nat i, wr_buffer := the (cf_writer_buffers ?c ! i)\<rparr>"
      using ws i by (simp add: ready_writers_def)
    show "frames_shape (wal_writers (w_wal w) ! i)" "\<forall>f \<in> set (wr_epoch_frames (wal_writers (w_wal w) ! i)). fr_log_epoch f = kNvwalInvalidEpoch"
      "wr_last_tail_offset (wal_writers (w_wal w) ! i) = 0" unfolding w by (simp_all add: frames_shape_def zero_writer_def zero_frame_def)
    show "length (wr_buffer (wal_writers (w_wal w) ! i)) = buffer_size (w_wal w)"
      using c(2) i unfolding w by (auto simp: usable_config_def writers_given_def buffer_size_def split: option.splits)
    show "0 < buffer_size (w_wal w)" "buffer_size (w_wal w) < 2 ^ 62" using c by (simp_all add: config_ok_def usable_config_def buffer_size_def word_gt_0 unat_gt_0)
  qed
  then have "writers_repr w ?ps" using ws c(1) by (simp add: writers_repr_def ready_writers_def config_ok_def)
  moreover have "log_durable w [] 0" using seg fl by (auto simp: log_durable_def seg_backed_def durable_upto_def fresh_segment_def)
  moreover have "wal_env w" using f nm by (simp add: wal_env_def fresh_wal_def Let_def)
  moreover have "head_at w 0" using f l(1) by (simp add: head_at_def fresh_wal_def Let_def log_repr_def)
  moreover have "pins_ok w" using seg by (simp add: pins_ok_def fresh_segment_def)
  ultimately have "wal_repr w [] ?ps [] 0"
    using safe m l f by (simp add: wal_repr_def flush_open_def fresh_wal_def Let_def log_repr_def)
  then show ?thesis
    using f by (simp add: sys_state_def fresh_wal_def Let_def pieces_inv_def flushed_upto_def contiguous_def)
qed

section \<open>Initialisation in empty folders\<close>

lemma syncfs_dir:
  assumes "d \<in> dom (os_dirs s)" "os_resp s = []" "0 < os_next_fd s"
  shows "nvwal_open_and_syncfs d s = Ok () (s\<lparr>os_durable := os_files s, os_cblock_durable := os_cblock s,
     os_fds := (os_fds s)(os_next_fd s := None), os_next_fd := os_next_fd s + 1\<rparr>)"
  using assms by (auto simp: nvwal_open_and_syncfs_def sys_open_def os_simps new_fd_def sys_sync_def sys_close_def)

lemma put_back:
  "w\<lparr>wal_mds := zero_mds\<rparr> = v\<lparr>wal_mds := zero_mds\<rparr> \<Longrightarrow> w = v\<lparr>wal_mds := wal_mds w\<rparr>"
  "w\<lparr>wal_segments := []\<rparr> = v\<lparr>wal_segments := []\<rparr> \<Longrightarrow> w = v\<lparr>wal_segments := wal_segments w\<rparr>" for w v :: NvwalContext
  by (cases w, cases v, simp)+

text \<open>The part of the initialisation after the control file and the writers.\<close>

definition before_mds :: "world \<Rightarrow> bool" where
  "before_mds w \<longleftrightarrow>
     (let wal = w_wal w; c = wal_config wal; s = w_os w
      in config_ok c \<and> usable_config c \<and> wal_durable_epoch wal = 0 \<and> wal_stable_epoch wal = 0 \<and>
         unat (cf_nv_quota c) = seg_count w * seg_size w \<and> folders_ready c s \<and>
         wal_nv_control_block wal = Some (control_file_path wal) \<and> ready_writers c (unat (cf_writer_count c)) (wal_writers wal) \<and>
         wal_segments wal = replicate kNvwalMaxActiveSegments zero_segment \<and>
         wal_flusher_thread_state wal = kNvwalThreadStateBeingInitialized \<and> wal_fsyncer_thread_state wal = kNvwalThreadStateBeingInitialized \<and>
         (\<forall>p. in_folders c p \<and> p \<noteq> control_file_path wal \<longrightarrow> os_files s p = None \<and> os_durable s p = None) \<and>
         os_cblock s (control_file_path wal) = zero_control_block \<and> os_cblock_durable s (control_file_path wal) = zero_control_block)"

lemma before_mds_fresh:
  assumes "before_mds w"
  shows "mds_fresh w"
proof -
  let ?c = "wal_config (w_wal w)"
  have c: "config_ok ?c" "usable_config ?c" and fr: "folders_ready ?c (w_os w)"
    and new: "\<And>p. in_folders ?c p \<Longrightarrow> p \<noteq> control_file_path (w_wal w) \<Longrightarrow> os_files (w_os w) p = None \<and> os_durable (w_os w) p = None"
    using assms by (simp_all add: before_mds_def Let_def)
  note fn = file_names [OF usable_roots [OF c]]
  have ne: "mds_page_file_path (w_wal w) 0 \<noteq> control_file_path (w_wal w)" "mds_buffer_path (w_wal w) 0 \<noteq> control_file_path (w_wal w)"
    "mds_buffer_path (w_wal w) 0 \<noteq> mds_page_file_path (w_wal w) 0" using fn(2,4,6) by auto
  have i: "in_folders ?c (mds_page_file_path (w_wal w) 0)" "in_folders ?c (mds_buffer_path (w_wal w) 0)"
    using fn(3,5) by (simp_all add: in_folders_def)
  have "mds_page_ok (w_wal w)" using c(2) by (simp add: mds_page_ok_def usable_config_def)
  moreover have "cblock_holds (w_os w) (control_file_path (w_wal w)) 0 0" "wal_nv_control_block (w_wal w) = Some (control_file_path (w_wal w))"
    using assms by (simp_all add: before_mds_def Let_def cblock_holds_def zero_control_block_def)
  ultimately show ?thesis
    using fr new [OF i(1) ne(1)] new [OF i(2) ne(2)] ne(3) i fn(3,5)
    by (auto simp: mds_fresh_def folders_ready_def Let_def)
qed

definition positioned :: "world \<Rightarrow> world" where
  "positioned w = w\<lparr>w_wal := (w_wal w)\<lparr>wal_flusher_current_nv_segment_dsid := 1, wal_flusher_current_epoch_head_dsid := 1, wal_flusher_current_epoch_head_offset := 0\<rparr>\<rparr>"

lemma init_segments:
  assumes b: "before_mds w" and fr: "init_frame w w'" and fl: "os_files (w_os w') = (os_files (w_os w))(mds_page_file_path (w_wal w) 0 \<mapsto> x, mds_buffer_path (w_wal w) 0 \<mapsto> y)"
  shows "\<exists>v. init_flusher_position w' = Ok () (positioned w') \<and>
    for_each (init_segment pm) [0..<unat (wal_segment_count (w_wal w'))] (positioned w') = Ok () v \<and> segments_made (positioned w') (seg_count w) v"
proof -
  let ?c = "wal_config (w_wal w)" and ?w = "positioned w'"
  have bc: "config_ok ?c" "usable_config ?c" "unat (cf_nv_quota ?c) = seg_count w * unat (cf_segment_size ?c)" and fo: "folders_ready ?c (w_os w)"
    and new: "\<And>p. in_folders ?c p \<Longrightarrow> p \<noteq> control_file_path (w_wal w) \<Longrightarrow> os_files (w_os w) p = None"
    using b by (simp_all add: before_mds_def Let_def seg_size_def)
  note fn = file_names [OF usable_roots [OF bc(1,2)]]
  have wal: "w_wal w' = (w_wal w)\<lparr>wal_mds := wal_mds (w_wal w')\<rparr>" using fr by (intro put_back) (simp add: init_frame_def)
  have f: "wal_config (w_wal w') = ?c" "wal_durable_epoch (w_wal w') = 0" "wal_segment_count (w_wal w') = wal_segment_count (w_wal w)" "wal_segments (w_wal w') = replicate kNvwalMaxActiveSegments zero_segment"
    using b by (subst wal; simp add: before_mds_def Let_def)+
  have de: "init_segment pm i v = init_fresh_nvram_segment pm i v" if "segments_made ?w i v" for i v
  proof -
    have "(w_wal v)\<lparr>wal_segments := []\<rparr> = (w_wal ?w)\<lparr>wal_segments := []\<rparr>" using that by (simp add: segments_made_def)
    from arg_cong [OF this, of wal_durable_epoch] show ?thesis using f(2) by (simp add: init_segment_def positioned_def)
  qed
  have pos: "init_flusher_position w' = Ok () ?w" using f(2) by (simp add: init_flusher_position_def positioned_def)
  have cw: "wal_config (w_wal ?w) = ?c" "w_os ?w = w_os w'" using f(1) by (simp_all add: positioned_def)
  have fo': "folders_ready ?c (w_os w')" using fr fo by (intro folders_ready_keep [OF fo]) (simp_all add: init_frame_def)
  have nf: "os_files (w_os w') (nv_path ?c j) = None" for j
  proof -
    have "nv_path ?c j \<noteq> control_file_path (w_wal w)" "nv_path ?c j \<noteq> mds_page_file_path (w_wal w) 0" "nv_path ?c j \<noteq> mds_buffer_path (w_wal w) 0"
      using fn(2,4,6) fn(9) [of j] by auto
    then show ?thesis using new [of "nv_path ?c j"] fl fn(8) [of j] by (simp add: in_folders_def)
  qed
  have N: "unat (wal_segment_count (w_wal w')) = seg_count w" using f(3) by (simp add: seg_count_def)
  have le: "seg_count w \<le> kNvwalMaxActiveSegments" by (rule fresh_segment_count [OF bc(1,3)])
  have "segments_made ?w 0 ?w" using f(4) by (simp add: segments_made_def positioned_def)
  moreover have "\<exists>v'. init_segment pm i v = Ok () v' \<and> segments_made ?w (Suc i) v'" if "i < seg_count w" "segments_made ?w i v" for i v
    unfolding de [OF that(2)]
    by (rule fresh_segment_step [OF _ _ _ _ that(2)]) (use usable_roots [OF bc(1,2)] fo' nf cw that(1) le in auto)
  ultimately show ?thesis using for_each_upt [of "segments_made ?w" ?w "seg_count w" "init_segment pm"] pos N by auto
qed

lemma mds_repr_synced:
  assumes m: "mds_repr w h" and v: "v = w\<lparr>w_os := (w_os w)\<lparr>os_durable := os_files (w_os w), os_cblock_durable := os_cblock (w_os w),
       os_fds := (os_fds (w_os w))(os_next_fd (w_os w) := None), os_next_fd := os_next_fd (w_os w) + 1\<rparr>\<rparr>"
    and fd: "\<forall>pf \<in> set (io_files (mds_io (wal_mds (w_wal w)))). pf_fd pf < os_next_fd (w_os w)"
  shows "mds_repr v h"
proof -
  have core: "mds_core v h q pe pf d b p cb" if c: "mds_core w h q pe pf d b p cb" for q pe pf d b p cb
  proof -
    have "0 < page_epochs (w_wal w)" using c page_epochs_pos by (simp add: mds_core_def)
    then have "os_files (w_os w) p \<noteq> None" using c by (auto simp: mds_core_def buffer_holds_def mapped_def split: option.splits)
    moreover have "pf_fd pf < os_next_fd (w_os w)" using fd c by (simp add: mds_core_def mds_at_def)
    moreover have "w_wal v = w_wal w" "mds_latest_epoch v = mds_latest_epoch w" "write_buffers v = write_buffers w" using v by (simp_all add: mds_latest_epoch_def)
    ultimately show ?thesis
      using c unfolding mds_core_def mds_at_def by (auto simp: v buffer_holds_def mapped_def cblock_holds_def)
  qed
  have "w_wal v = w_wal w" using v by simp
  then show ?thesis using m core unfolding mds_repr_def by (cases "h = []") (simp_all, blast+)
qed

text \<open>The two calls of \<open>syncfs\<close>, the configuration made durable, and the threads allowed to start.\<close>

definition synced_os :: "os \<Rightarrow> os" where
  "synced_os s = s\<lparr>os_durable := os_files s, os_cblock_durable := os_cblock s,
     os_fds := (os_fds s)(os_next_fd s := None), os_next_fd := os_next_fd s + 1\<rparr>"

definition configured :: "world \<Rightarrow> world" where
  "configured w = (let s = w_os w; c = wal_config (w_wal w); p = control_file_path (w_wal w)
     in \<lparr>w_os = s\<lparr>os_cblock := (os_cblock s)(p := (os_cblock s p)\<lparr>cb_config := c\<rparr>),
                   os_cblock_durable := (os_cblock_durable s)(p := (os_cblock_durable s p)\<lparr>cb_config := c\<rparr>)\<rparr>,
         w_wal = (w_wal w)\<lparr>wal_flusher_thread_state := kNvwalThreadStateAcceptStart, wal_fsyncer_thread_state := kNvwalThreadStateAcceptStart\<rparr>\<rparr>)"

definition finish_init :: "world \<Rightarrow> (unit, world) outcome" where
  "finish_init w =
     and_then (lift_outcome set_os (nvwal_open_and_syncfs (root_of cf_nv_root w) (w_os w)) w) (\<lambda>_ w.
     and_then (lift_outcome set_os (nvwal_open_and_syncfs (root_of cf_disk_root w) (w_os w)) w) (\<lambda>_ w.
     and_then (persist_config w) (\<lambda>_ w.
     and_then (lift_outcome set_flusher_state (nvwal_impl_thread_state_get_ready (wal_flusher_thread_state (w_wal w))) w) (\<lambda>_ w.
       lift_outcome set_fsyncer_state (nvwal_impl_thread_state_get_ready (wal_fsyncer_thread_state (w_wal w))) w))))"

lemma finish_init_result:
  assumes f: "folders_ready (wal_config (w_wal w)) (w_os w)" and cb: "wal_nv_control_block (w_wal w) = Some (control_file_path (w_wal w))"
    and ts: "wal_flusher_thread_state (w_wal w) = kNvwalThreadStateBeingInitialized" "wal_fsyncer_thread_state (w_wal w) = kNvwalThreadStateBeingInitialized"
  shows "finish_init w = Ok () (configured (w\<lparr>w_os := synced_os (synced_os (w_os w))\<rparr>))"
proof -
  have f1: "folders_ready (wal_config (w_wal w)) (synced_os (w_os w))"
    by (rule folders_ready_keep [OF f]) (simp_all add: synced_os_def)
  have s: "nvwal_open_and_syncfs (root_of cf_nv_root w) (w_os w) = Ok () (synced_os (w_os w))"
    "nvwal_open_and_syncfs (root_of cf_disk_root w) (synced_os (w_os w)) = Ok () (synced_os (synced_os (w_os w)))"
    using f f1 syncfs_dir [of _ "w_os w"] syncfs_dir [of _ "synced_os (w_os w)"]
    by (simp_all add: folders_ready_def root_of_def synced_os_def)
  have r: "root_of cf_disk_root (w\<lparr>w_os := t\<rparr>) = root_of cf_disk_root w" for t by (simp add: root_of_def)
  show ?thesis
    using s cb ts
    by (simp add: finish_init_def r persist_config_def with_cblock_def checked_def Let_def
        nvwal_impl_thread_state_get_ready_def set_flusher_state_def set_fsyncer_state_def configured_def)
qed

lemma made_mds:
  assumes m: "mds_repr w []" and made: "segments_made (positioned w) N v" and c: "roots_ok (wal_config (w_wal w))"
    and fd: "\<forall>pf \<in> set (io_files (mds_io (wal_mds (w_wal w)))). pf_fd pf < os_next_fd (w_os w)" and wal: "w_wal v = (w_wal (positioned w))\<lparr>wal_segments := gs\<rparr>"
  shows "mds_repr (configured (v\<lparr>w_os := synced_os (synced_os (w_os v))\<rparr>)) []"
proof -
  let ?v1 = "v\<lparr>w_os := synced_os (w_os v)\<rparr>" and ?v2 = "v\<lparr>w_os := synced_os (synced_os (w_os v))\<rparr>"
  note fn = file_names [OF c]
  have p: "wal_config (w_wal (positioned w)) = wal_config (w_wal w)" "w_os (positioned w) = w_os w" by (simp_all add: positioned_def)
  have "mds_page_file_path (w_wal w) 0 \<noteq> nv_path (wal_config (w_wal w)) j" "mds_buffer_path (w_wal w) 0 \<noteq> nv_path (wal_config (w_wal w)) j" for j
    using fn(4,6) fn(9) [of j] by auto
  then have ne: "mds_page_file_path (w_wal w) 0 \<notin> nv_path (wal_config (w_wal w)) ` {..<N}" "mds_buffer_path (w_wal w) 0 \<notin> nv_path (wal_config (w_wal w)) ` {..<N}"
    by auto
  have "os_dirs (w_os v) q = None" if "os_dirs (w_os w) q = None" for q
    using made that p(2) unfolding segments_made_def by (metis domIff)
  then have "same_mds w v"
    using made fd ne unfolding same_mds_def segments_made_def p wal by (auto simp: positioned_def)
  then have v: "mds_repr v []" by (rule mds_repr_transfer [OF _ m])
  have fv: "\<forall>pf \<in> set (io_files (mds_io (wal_mds (w_wal v)))). pf_fd pf < os_next_fd (w_os v)"
    using fd made unfolding wal by (auto simp: segments_made_def positioned_def)
  have "mds_repr ?v1 []" by (rule mds_repr_synced [OF v _ fv]) (simp add: synced_os_def)
  then have "mds_repr ?v2 []" by (rule mds_repr_synced) (use fv in \<open>auto simp: synced_os_def\<close>)
  moreover have "same_mds ?v2 (configured ?v2)" by (simp add: same_mds_def configured_def Let_def)
  ultimately show ?thesis by (rule mds_repr_transfer [rotated])
qed

lemma init_rest:
  assumes b: "before_mds w"
  shows "\<exists>w1 v. mds_init pm kNvwalInitCreateIfNotExists w = Ok () w1 \<and> init_flusher_position w1 = Ok () (positioned w1) \<and>
    for_each (init_segment pm) [0..<unat (wal_segment_count (w_wal (positioned w1)))] (positioned w1) = Ok () v \<and>
    (\<exists>w'. finish_init v = Ok () w' \<and> fresh_wal w' \<and> wal_config (w_wal w') = wal_config (w_wal w))"
proof -
  let ?c = "wal_config (w_wal w)" and ?N = "seg_count w"
  obtain w1 where w1: "mds_init pm kNvwalInitCreateIfNotExists w = Ok () w1" "mds_repr w1 []" "init_frame w w1"
    "os_files (w_os w1) = (os_files (w_os w))(mds_page_file_path (w_wal w) 0 \<mapsto> [], mds_buffer_path (w_wal w) 0 \<mapsto> replicate (unat (cf_mds_page_size ?c)) 0)"
    "\<forall>pf \<in> set (io_files (mds_io (wal_mds (w_wal w1)))). pf_fd pf < os_next_fd (w_os w1)"
    using init_create [OF before_mds_fresh [OF b]] by blast
  obtain v where v: "init_flusher_position w1 = Ok () (positioned w1)"
    "for_each (init_segment pm) [0..<unat (wal_segment_count (w_wal w1))] (positioned w1) = Ok () v" "segments_made (positioned w1) ?N v"
    using init_segments [OF b w1(3,4)] by blast
  have e1: "w_wal w1 = (w_wal w)\<lparr>wal_mds := wal_mds (w_wal w1)\<rparr>" using w1(3) by (intro put_back(1)) (simp add: init_frame_def)
  have e2: "w_wal v = (w_wal (positioned w1))\<lparr>wal_segments := wal_segments (w_wal v)\<rparr>" using v(3) by (intro put_back(2)) (simp add: segments_made_def)
  obtain md gs where wal: "w_wal v = (w_wal w)\<lparr>wal_mds := md, wal_flusher_current_nv_segment_dsid := 1, wal_flusher_current_epoch_head_dsid := 1,
     wal_flusher_current_epoch_head_offset := 0, wal_segments := gs\<rparr>" and md: "md = wal_mds (w_wal w1)" and gs: "gs = wal_segments (w_wal v)"
  proof (rule that [OF _ refl refl])
    show "w_wal v = (w_wal w)\<lparr>wal_mds := wal_mds (w_wal w1), wal_flusher_current_nv_segment_dsid := 1, wal_flusher_current_epoch_head_dsid := 1,
       wal_flusher_current_epoch_head_offset := 0, wal_segments := wal_segments (w_wal v)\<rparr>"
      by (subst e2, simp only: positioned_def, subst e1) simp
  qed
  have po: "w_os (positioned w1) = w_os w1" "wal_config (w_wal (positioned w1)) = wal_config (w_wal w1)" "seg_size (positioned w1) = seg_size w1"
    by (simp_all add: positioned_def seg_size_def)
  note vo = segments_made_os [OF v(3), unfolded po]
  have wo: "dom (os_dirs (w_os w1)) = dom (os_dirs (w_os w))" "os_resp (w_os w1) = os_resp (w_os w)" "os_next_fd (w_os w) \<le> os_next_fd (w_os w1)"
    "os_cblock (w_os w1) = os_cblock (w_os w)" using w1(3) unfolding init_frame_def by blast+
  have bo: "folders_ready ?c (w_os w)" "os_cblock (w_os w) (control_file_path (w_wal w)) = zero_control_block" using b by (simp_all add: before_mds_def Let_def)
  have cf: "config_ok ?c" "usable_config ?c" using b by (simp_all add: before_mds_def Let_def)
  have c1: "wal_config (w_wal w1) = ?c" by (subst e1) simp
  have cp: "control_file_path (w_wal v) = control_file_path (w_wal w)" unfolding wal by (simp add: control_file_path_def)
  have fo: "folders_ready ?c (w_os v)"
    using vo(1-3) wo by (intro folders_ready_keep [OF bo(1)]) simp_all
  have fin: "finish_init v = Ok () (configured (v\<lparr>w_os := synced_os (synced_os (w_os v))\<rparr>))"
    using b fo cp by (intro finish_init_result) (simp_all add: wal before_mds_def Let_def)
  let ?w = "configured (v\<lparr>w_os := synced_os (synced_os (w_os v))\<rparr>)"
  have m: "mds_repr ?w []" using made_mds [OF w1(2) v(3) _ w1(5) e2] c1 usable_roots [OF cf] by simp
  have cb: "os_cblock (w_os v) (control_file_path (w_wal w)) = zero_control_block"
    using bo(2) wo(4) vo(4) by simp
  have os: "os_files (w_os ?w) = os_files (w_os v)" "os_durable (w_os ?w) = os_files (w_os v)" "os_next_fd (w_os v) \<le> os_next_fd (w_os ?w)"
    "os_cblock (w_os ?w) (control_file_path (w_wal w)) = zero_control_block\<lparr>cb_config := ?c\<rparr>"
    "os_cblock_durable (w_os ?w) (control_file_path (w_wal w)) = zero_control_block\<lparr>cb_config := ?c\<rparr>"
    "dom (os_dirs (w_os ?w)) = dom (os_dirs (w_os v))" "os_resp (w_os ?w) = os_resp (w_os v)"
    using cb cp by (simp_all add: configured_def synced_os_def Let_def) (simp_all add: wal)
  have ctx: "w_wal ?w = (w_wal v)\<lparr>wal_flusher_thread_state := kNvwalThreadStateAcceptStart, wal_fsyncer_thread_state := kNvwalThreadStateAcceptStart\<rparr>"
    by (simp add: configured_def Let_def)
  have "seg_count ?w = ?N" "seg_size ?w = seg_size w" "seg_size w1 = seg_size w" "control_file_path (w_wal ?w) = control_file_path (w_wal w)"
    unfolding ctx wal by (simp_all add: seg_count_def seg_size_def ctx wal c1 control_file_path_def)
  moreover have "folders_ready ?c (w_os ?w)" using os by (intro folders_ready_keep [OF fo]) simp_all
  moreover have "\<forall>pf \<in> set (io_files (mds_io md)). pf_fd pf < os_next_fd (w_os ?w)" using w1(5) os(3) vo(3) unfolding md by fastforce
  ultimately have "fresh_wal ?w"
    unfolding fresh_wal_def Let_def using m os b vo(6-8) [folded gs] c1 unfolding before_mds_def Let_def by (simp add: ctx wal)
  moreover have "wal_config (w_wal ?w) = ?c" unfolding ctx wal by simp
  ultimately show ?thesis using w1(1) v fin by (auto simp: positioned_def)
qed

lemma segment_count_word:
  assumes "config_ok c"
  shows "unat (cf_nv_quota c) = unat (ucast (cf_nv_quota c div cf_segment_size c) :: u32) * unat (cf_segment_size c)"
proof -
  obtain n where n: "n \<le> 1024" "unat (cf_nv_quota c) = n * unat (cf_segment_size c)" "0 < unat (cf_segment_size c)"
    using assms by (auto simp: config_ok_def unat_gt_0)
  then have "unat (cf_nv_quota c div cf_segment_size c) = n" by (simp add: unat_div)
  then have "unat (ucast (cf_nv_quota c div cf_segment_size c) :: u32) = n" using n(1) by (simp add: unat_ucast_down)
  with n(2) show ?thesis by simp
qed

text \<open>The epochs and the writers of an instance whose control block is new.\<close>

lemma init_front:
  assumes c: "config_ok (wal_config (w_wal w))" "usable_config (wal_config (w_wal w))" and f: "folders_ready (wal_config (w_wal w)) (w_os w)"
    and z: "w_wal w = zero_context\<lparr>wal_config := wal_config (w_wal w)\<rparr>"
    and new: "\<forall>p. in_folders (wal_config (w_wal w)) p \<longrightarrow> os_files (w_os w) p = None \<and> os_durable (w_os w) p = None"
  shows "\<exists>w2 w3 w4. open_control_file kNvwalInitCreateIfNotExists w = Ok () w2 \<and> check_adjust_on_prev_config w2 = Ok () w2 \<and>
    wal_config (w_wal w2) = wal_config (w_wal w) \<and>
    init_epochs (w2\<lparr>w_wal := (w_wal w2)\<lparr>wal_segment_count := ucast (cf_nv_quota (wal_config (w_wal w)) div cf_segment_size (wal_config (w_wal w)))\<rparr>\<rparr>) = Ok () w3 \<and>
    for_each init_writer [0..<unat (cf_writer_count (wal_config (w_wal w)))] w3 = Ok () w4 \<and> before_mds w4 \<and>
    wal_config (w_wal w4) = wal_config (w_wal w)"
proof -
  define fc where "fc = wal_config (w_wal w)"
  note c' = c [folded fc_def] and f' = f [folded fc_def] and z' = z [folded fc_def] and new' = new [folded fc_def]
  let ?p = "control_file_path (w_wal w)"
  have ro: "roots_ok fc" by (rule usable_roots [OF c'])
  note fn = file_names [of "w_wal w", folded fc_def, OF ro]
  have "os_files (w_os w) ?p = None" using new' fn(1) by (simp add: in_folders_def)
  then obtain s fd where oc: "open_control_file kNvwalInitCreateIfNotExists w = Ok () \<lparr>w_os = s, w_wal = (w_wal w)\<lparr>wal_nv_control_file_fd := fd, wal_nv_control_block := Some ?p, wal_prev_config := zero_config\<rparr>\<rparr>"
    "new_file ?p control_block_size (w_os w) s" "os_cblock s = (os_cblock (w_os w))(?p := zero_control_block)" "os_cblock_durable s = (os_cblock_durable (w_os w))(?p := zero_control_block)"
    using open_control_fresh [of w kNvwalInitCreateIfNotExists, folded fc_def, OF ro f'] z' by (auto simp: zero_context_def)
  let ?w2 = "\<lparr>w_os = s, w_wal = (w_wal w)\<lparr>wal_nv_control_file_fd := fd, wal_nv_control_block := Some ?p, wal_prev_config := zero_config\<rparr>\<rparr>"
  let ?n = "ucast (cf_nv_quota fc div cf_segment_size fc) :: u32"
  let ?w3 = "?w2\<lparr>w_wal := (w_wal ?w2)\<lparr>wal_segment_count := ?n, wal_durable_epoch := 0, wal_stable_epoch := 0, wal_next_epoch := nvwal_increment_epoch 0\<rparr>\<rparr>"
  have ad: "check_adjust_on_prev_config ?w2 = Ok () ?w2" by (simp add: check_adjust_on_prev_config_def zero_config_def)
  have ep: "init_epochs (?w2\<lparr>w_wal := (w_wal ?w2)\<lparr>wal_segment_count := ?n\<rparr>\<rparr>) = Ok () ?w3"
    using c'(2) oc(3) by (simp add: init_epochs_def with_cblock_def checked_def Let_def zero_control_block_def usable_config_def fc_def)
  have cfg: "wal_config (w_wal ?w3) = fc" by (simp add: fc_def)
  have wr: "wal_writers (w_wal ?w3) = replicate kNvwalMaxWorkers zero_writer" by (simp add: z' zero_context_def)
  obtain ws where ws: "for_each init_writer [0..<unat (cf_writer_count fc)] ?w3 = Ok () (?w3\<lparr>w_wal := (w_wal ?w3)\<lparr>wal_writers := ws\<rparr>\<rparr>)"
    "ready_writers fc (unat (cf_writer_count fc)) ws"
    using init_writers [of ?w3, unfolded cfg, OF _ wr] c' by (auto simp: config_ok_def usable_config_def)
  have n: "unat (cf_nv_quota fc) = unat ?n * unat (cf_segment_size fc)" by (rule segment_count_word [OF c'(1)])
  let ?w4 = "?w3\<lparr>w_wal := (w_wal ?w3)\<lparr>wal_writers := ws\<rparr>\<rparr>"
  have cf4: "wal_config (w_wal ?w4) = fc" "w_os ?w4 = s" "control_file_path (w_wal ?w4) = ?p" by (simp_all add: fc_def control_file_path_def)
  have fo: "folders_ready fc s" using oc(2) by (intro folders_ready_keep [OF f']) (simp_all add: new_file_def)
  have gone: "os_files s q = None" "os_durable s q = None" if "in_folders fc q" "q \<noteq> ?p" for q
    using oc(2) new' that by (simp_all add: new_file_def)
  have "before_mds ?w4"
    unfolding before_mds_def Let_def cf4 seg_count_def seg_size_def using c' n fo gone oc(3,4) ws(2) by (simp add: z' zero_context_def)
  then show ?thesis using oc(1) ad ep ws(1) unfolding fc_def [symmetric] by (auto simp: fc_def)
qed

lemma nvwal_init_fresh:
  assumes sc: "sanity_check_config kNvwalInitCreateIfNotExists (w\<lparr>w_wal := zero_context\<lparr>wal_config := c\<rparr>\<rparr>) = Ok () w1"
    and u: "usable_config (wal_config (w_wal w1))" and os: "os_resp (w_os w) = []" "0 < os_next_fd (w_os w)"
    and new: "\<forall>p. in_folders (wal_config (w_wal w1)) p \<longrightarrow> os_files (w_os w) p = None \<and> os_durable (w_os w) p = None \<and> os_dirs (w_os w) p = None"
  shows "\<exists>w'. nvwal_init pm False c kNvwalInitCreateIfNotExists w = Ok () w' \<and> fresh_wal w' \<and> wal_config (w_wal w') = wal_config (w_wal w1)"
proof -
  note sa = sanity_config [OF sc]
  have z: "w_wal w1 = zero_context\<lparr>wal_config := wal_config (w_wal w1)\<rparr>" by (subst sa(2)) simp
  have o: "w_os w1 = w_os w" "os_dirs (w_os w) (root_of cf_nv_root w1) \<noteq> None" "os_dirs (w_os w) (root_of cf_disk_root w1) \<noteq> None"
    using sa(4) os(1) by simp_all
  have f: "folders_ready (wal_config (w_wal w1)) (w_os w1)"
    using o os new unfolding folders_ready_def root_of_def o(1) by (auto simp: domIff)
  have n': "\<forall>p. in_folders (wal_config (w_wal w1)) p \<longrightarrow> os_files (w_os w1) p = None \<and> os_durable (w_os w1) p = None" using new o(1) by simp
  obtain w2 w3 w4 where w4: "open_control_file kNvwalInitCreateIfNotExists w1 = Ok () w2" "check_adjust_on_prev_config w2 = Ok () w2"
    "wal_config (w_wal w2) = wal_config (w_wal w1)"
    "init_epochs (w2\<lparr>w_wal := (w_wal w2)\<lparr>wal_segment_count := ucast (cf_nv_quota (wal_config (w_wal w1)) div cf_segment_size (wal_config (w_wal w1)))\<rparr>\<rparr>) = Ok () w3"
    "for_each init_writer [0..<unat (cf_writer_count (wal_config (w_wal w1)))] w3 = Ok () w4" "before_mds w4" "wal_config (w_wal w4) = wal_config (w_wal w1)"
    using init_front [OF sa(1) u f z n'] by blast
  obtain w5 v w' where r: "mds_init pm kNvwalInitCreateIfNotExists w4 = Ok () w5" "init_flusher_position w5 = Ok () (positioned w5)"
    "for_each (init_segment pm) [0..<unat (wal_segment_count (w_wal (positioned w5)))] (positioned w5) = Ok () v"
    "finish_init v = Ok () w'" "fresh_wal w'" "wal_config (w_wal w') = wal_config (w_wal w4)" using init_rest [OF w4(6)] by blast
  have "impl_init_no_error_handling pm kNvwalInitCreateIfNotExists (w\<lparr>w_wal := zero_context\<lparr>wal_config := c\<rparr>\<rparr>) = Ok () w'"
    unfolding impl_init_no_error_handling_def sc and_then.simps Let_def
    using w4(1-6) r(1-4) by (simp add: finish_init_def [symmetric])
  then show ?thesis using r(5,6) w4(7) by (simp add: nvwal_init_def nvwal_impl_init_def)
qed

text \<open>
  A clean start: the configuration is accepted and usable, both folders are empty, and the operating
  system answers every call in full.
\<close>

definition clean_start :: "NvwalConfig \<Rightarrow> world \<Rightarrow> bool" where
  "clean_start c w \<longleftrightarrow> os_resp (w_os w) = [] \<and> 0 < os_next_fd (w_os w) \<and>
     (case sanity_check_config kNvwalInitCreateIfNotExists (w\<lparr>w_wal := zero_context\<lparr>wal_config := c\<rparr>\<rparr>) of
        Ok _ w1 \<Rightarrow> usable_config (wal_config (w_wal w1)) \<and>
          (\<forall>p. in_folders (wal_config (w_wal w1)) p \<longrightarrow> os_files (w_os w) p = None \<and> os_durable (w_os w) p = None \<and> os_dirs (w_os w) p = None)
      | _ \<Rightarrow> False)"

lemma clean_start_init:
  assumes "clean_start c w"
  shows "\<exists>w'. nvwal_init pm False c kNvwalInitCreateIfNotExists w = Ok () w' \<and> fresh_wal w'"
proof -
  obtain w1 where "sanity_check_config kNvwalInitCreateIfNotExists (w\<lparr>w_wal := zero_context\<lparr>wal_config := c\<rparr>\<rparr>) = Ok () w1"
    "usable_config (wal_config (w_wal w1))" "os_resp (w_os w) = []" "0 < os_next_fd (w_os w)"
    "\<forall>p. in_folders (wal_config (w_wal w1)) p \<longrightarrow> os_files (w_os w) p = None \<and> os_durable (w_os w) p = None \<and> os_dirs (w_os w) p = None"
    using assms by (auto simp: clean_start_def split: outcome.splits)
  from nvwal_init_fresh [OF this, of pm] show ?thesis by blast
qed

text \<open>The states that can be reached from a clean start, with what the clients announced.\<close>

definition wal_reachable :: "pmem \<Rightarrow> NvwalConfig \<Rightarrow> world \<Rightarrow> world \<Rightarrow> chunk list \<Rightarrow> bool" where
  "wal_reachable pm c w w' xs \<longleftrightarrow>
     (\<exists>w0. nvwal_init pm False c kNvwalInitCreateIfNotExists w = Ok () w0 \<and> (wal_step pm)\<^sup>*\<^sup>* (w0, []) (w', xs))"

text \<open>A fresh log with nothing announced starts the steps of the log.\<close>

definition wal_start :: "world \<times> chunk list \<Rightarrow> bool" where
  "wal_start a \<longleftrightarrow> fresh_wal (fst a) \<and> snd a = []"

interpretation wal_run: started_invariant "wal_step_on pm" sys_inv_at wal_start for pm
proof
  fix a
  assume "wal_start a"
  then show "sys_inv_at a" using fresh_state sys_inv_def by (auto simp: wal_start_def sys_inv_at_def)
qed

lemma reachable_inv:
  assumes "clean_start c w" "pmem_persist_spec pm" "wal_reachable pm c w w' xs"
  shows "sys_inv w' xs"
proof -
  obtain w0 where w0: "nvwal_init pm False c kNvwalInitCreateIfNotExists w = Ok () w0" "(wal_step_on pm)\<^sup>*\<^sup>* (w0, []) (w', xs)"
    using assms(2,3) by (auto simp: wal_reachable_def wal_step_on_run)
  have "wal_start (w0, [])" using clean_start_init [OF assms(1), of pm] w0(1) by (auto simp: wal_start_def)
  from wal_run.reached [OF this w0(2)] show ?thesis by (simp add: sys_inv_at_def)
qed

lemma reachable_step: "wal_reachable pm c w w1 xs \<Longrightarrow> wal_step pm (w1, xs) (w2, ys) \<Longrightarrow> wal_reachable pm c w w2 ys"
  unfolding wal_reachable_def by (meson rtranclp.rtrancl_into_rtrancl)

section \<open>A small instance\<close>

text \<open>Two writers with buffers of 512 bytes, two segments of 512 bytes.\<close>

definition path_array :: "string \<Rightarrow> char list" where
  "path_array p = p @ replicate (kNvwalMaxPathLength - length p) NUL"

definition sample_config :: NvwalConfig where
  "sample_config = zero_config\<lparr>cf_nv_root := path_array ''/n/'', cf_disk_root := path_array ''/d'', cf_writer_count := 2,
     cf_segment_size := 512, cf_nv_quota := 1024, cf_writer_buffer_size := 512,
     cf_writer_buffers := [Some (replicate 512 0), Some (replicate 512 0)], cf_mds_page_size := 512\<rparr>"

definition sample_start :: world where
  "sample_start = \<lparr>w_os = empty_os\<lparr>os_dirs := [''/n'' \<mapsto> [], ''/d'' \<mapsto> []]\<rparr>, w_wal = zero_context\<rparr>"

definition accepted_config :: NvwalConfig where
  "accepted_config = sample_config\<lparr>cf_libnvwal_version := 1, cf_debug_level := ERROR, cf_nv_root := path_array ''/n'', cf_nv_root_len := 2, cf_disk_root_len := 2\<rparr>"

lemma sample_check_roots:
  "check_roots (sample_config\<lparr>cf_libnvwal_version := 1, cf_debug_level := ERROR\<rparr>) = Some accepted_config"
  by code_simp

lemma sample_accepted:
  "sanity_check_config kNvwalInitCreateIfNotExists (sample_start\<lparr>w_wal := zero_context\<lparr>wal_config := sample_config\<rparr>\<rparr>)
   = Ok () (sample_start\<lparr>w_wal := zero_context\<lparr>wal_config := accepted_config\<rparr>\<rparr>)"
proof -
  have d: "nvwal_is_valid_dir ''/n'' (w_os sample_start) = (True, w_os sample_start)" "nvwal_is_valid_dir ''/d'' (w_os sample_start) = (True, w_os sample_start)"
    by (simp_all add: nvwal_is_valid_dir_def sys_opendir_def sample_start_def empty_os_def os_simps)
  have r: "c_string (cf_nv_root accepted_config) = ''/n''" "c_string (cf_disk_root accepted_config) = ''/d''" by code_simp+
  have k: "check_writers accepted_config" "cf_segment_size accepted_config mod 512 = 0" "default_segment_size accepted_config = accepted_config"
    "check_segments accepted_config" "check_mode kNvwalInitCreateIfNotExists accepted_config" by code_simp+
  have v: "cf_debug_level sample_config = kNvwalInvalidDebugLevel" by (simp add: sample_config_def zero_config_def)
  show ?thesis
    using sample_check_roots d r k v
    by (simp add: sanity_check_config_def set_config_def require_dir_def root_of_def Let_def nvwal_get_version_def)
qed

lemma sample_clean: "clean_start sample_config sample_start"
proof -
  have f: "unat (cf_writer_count accepted_config) = 2" "unat (cf_writer_buffer_size accepted_config) = 512"
    "cf_writer_buffers accepted_config = [Some (replicate 512 0), Some (replicate 512 0)]"
    by (simp_all add: accepted_config_def sample_config_def)
  then have "writers_given accepted_config" by (auto simp: writers_given_def less_2_cases_iff)
  then have u: "usable_config accepted_config"
    by (simp add: usable_config_def) (simp add: accepted_config_def sample_config_def zero_config_def)
  have r: "c_string (cf_nv_root accepted_config) = ''/n''" "c_string (cf_disk_root accepted_config) = ''/d''" by code_simp+
  have d: "path_dirname ''/n'' = []" "path_dirname ''/d'' = []" by code_simp+
  have "os_dirs (w_os sample_start) p = None" if "in_folders accepted_config p" for p
    using that d r by (auto simp: in_folders_def sample_start_def empty_os_def)
  with u show ?thesis
    using sample_accepted by (simp add: clean_start_def) (simp add: sample_start_def empty_os_def)
qed

end
