(* ===== verification/Sample_Run.thy ===== *)
theory Sample_Run
  imports Init_Correct
begin

text \<open>
  A run of the small instance: initialisation in two empty folders, one writer logs two bytes in epoch 1,
  the epoch becomes stable and the flusher concludes it. It shows that the hypotheses of the theorems about
  reachable states can hold together.
\<close>

definition sample_chunk :: "nat \<Rightarrow> chunk" where
  "sample_chunk i = \<lparr>ck_writer = i, ck_epoch = 1, ck_bytes = [7, 8]\<rparr>"

lemma accepted_fields:
  "unat (cf_writer_count accepted_config) = 2" "unat (cf_writer_buffer_size accepted_config) = 512" "unat (cf_segment_size accepted_config) = 512"
  by (simp_all add: accepted_config_def sample_config_def)

lemma sample_fresh:
  obtains w0 where "nvwal_init pmem_exact False sample_config kNvwalInitCreateIfNotExists sample_start = Ok () w0" "fresh_wal w0"
    "wal_config (w_wal w0) = accepted_config"
proof -
  have "\<exists>w'. nvwal_init pmem_exact False sample_config kNvwalInitCreateIfNotExists sample_start = Ok () w' \<and> fresh_wal w' \<and>
     wal_config (w_wal w') = wal_config (w_wal (sample_start\<lparr>w_wal := zero_context\<lparr>wal_config := accepted_config\<rparr>\<rparr>))"
    by (rule nvwal_init_fresh [OF sample_accepted]) (use sample_clean sample_accepted in \<open>simp_all add: clean_start_def\<close>)
  then show thesis using that by auto
qed

text \<open>In the fresh state each writer may log in epoch 1.\<close>

lemma sample_ready:
  assumes i: "i < 2"
  obtains w0 where "nvwal_init pmem_exact False sample_config kNvwalInitCreateIfNotExists sample_start = Ok () w0" "fresh_wal w0"
    "wal_config (w_wal w0) = accepted_config" "wal_durable_epoch (w_wal w0) = 0" "wal_stable_epoch (w_wal w0) = 0"
    "i < unat (cf_writer_count (wal_config (w_wal w0)))" "nvwal_has_enough_writer_space (w_wal w0) (wal_writers (w_wal w0) ! i)"
    "2 * length [7, 8 :: byte] < buffer_size (w_wal w0)" "client_epoch (w_wal w0) (wal_writers (w_wal w0) ! i) 1"
    "nvwal_is_epoch_after (of_nat 1) (wal_stable_epoch (w_wal w0))"
proof -
  obtain w0 where w0: "nvwal_init pmem_exact False sample_config kNvwalInitCreateIfNotExists sample_start = Ok () w0" "fresh_wal w0"
    "wal_config (w_wal w0) = accepted_config" by (rule sample_fresh)
  let ?wr = "wal_writers (w_wal w0) ! i"
  have ep: "wal_durable_epoch (w_wal w0) = 0" "wal_stable_epoch (w_wal w0) = 0" using w0(2) by (simp_all add: fresh_wal_def Let_def)
  have ic: "i < unat (cf_writer_count (wal_config (w_wal w0)))" using i w0(3) accepted_fields(1) by simp
  have wr: "wr_epoch_frames ?wr = replicate 5 zero_frame"
    using w0(2) ic by (simp add: fresh_wal_def Let_def ready_writers_def zero_writer_def)
  have "consumed_writer_bytes wal 0 (replicate n zero_frame) = 0" for wal n by (induction n) (simp_all add: zero_frame_def)
  then have sp: "nvwal_has_enough_writer_space (w_wal w0) ?wr" by (simp add: nvwal_has_enough_writer_space_def wr)
  have "nvwal_is_epoch_after (nvwal_add_epoch 0 (of_nat kNvwalEpochFrameCount)) (of_nat 1)" "nvwal_is_epoch_after (of_nat 1) 0" by code_simp+
  then have ce: "client_epoch (w_wal w0) ?wr 1" "nvwal_is_epoch_after (of_nat 1) (wal_stable_epoch (w_wal w0))"
    using ep by (simp_all add: client_epoch_def wr zero_frame_def)
  have room: "2 * length [7, 8 :: byte] < buffer_size (w_wal w0)" using w0(3) accepted_fields(2) by (simp add: buffer_size_def)
  show thesis by (rule that [OF w0 ep ic sp room ce])
qed

lemma sample_logged:
  assumes i: "i < 2"
  obtains w0 w1 where "nvwal_init pmem_exact False sample_config kNvwalInitCreateIfNotExists sample_start = Ok () w0"
    "wal_step pmem_exact (w0, []) (w1, [sample_chunk i])" "wal_config (w_wal w1) = accepted_config"
    "wal_durable_epoch (w_wal w1) = 0" "wal_stable_epoch (w_wal w1) = 0" "cur_dsid w1 = 1" "cur_written w1 = 0"
proof (rule sample_ready [OF i])
  fix w0 :: world
  let ?wr = "wal_writers (w_wal w0) ! i"
  assume w0: "nvwal_init pmem_exact False sample_config kNvwalInitCreateIfNotExists sample_start = Ok () w0" "fresh_wal w0"
    "wal_config (w_wal w0) = accepted_config" and ep: "wal_durable_epoch (w_wal w0) = 0" "wal_stable_epoch (w_wal w0) = 0"
    and ic: "i < unat (cf_writer_count (wal_config (w_wal w0)))" and sp: "nvwal_has_enough_writer_space (w_wal w0) ?wr"
    and room: "2 * length [7, 8 :: byte] < buffer_size (w_wal w0)"
    and ce: "client_epoch (w_wal w0) ?wr 1" "nvwal_is_epoch_after (of_nat 1) (wal_stable_epoch (w_wal w0))"
  obtain buf wr' lo where r: "nvwal_circular_dest_memcpy (wr_buffer ?wr) (cf_writer_buffer_size (wal_config (w_wal w0))) (wr_last_tail_offset ?wr) [7, 8] (of_nat (length [7, 8 :: byte])) = Some buf"
    "nvwal_on_wal_write (w_wal w0) (of_nat (length [7, 8 :: byte])) (of_nat 1) (?wr\<lparr>wr_buffer := buf\<rparr>) = Ok () wr'"
    by (rule client_can_log [OF fresh_state [OF w0(2)] ic refl sp room ce]) blast
  have "wal_step pmem_exact (w0, []) (set_writer i (\<lambda>_. wr') w0, [] @ [\<lparr>ck_writer = i, ck_epoch = 1, ck_bytes = [7, 8]\<rparr>])"
    by (rule wal_step.client_logs [OF ic refl sp room ce(1) r])
  moreover have "cur_dsid (set_writer i (\<lambda>_. wr') w0) = 1" "cur_written (set_writer i (\<lambda>_. wr') w0) = 0"
    using fresh_log(2,3) [OF w0(2)] by (simp_all add: cur_dsid_def cur_written_def cur_index_def seg_count_def world_simps)
  moreover have "wal_durable_epoch (w_wal (set_writer i (\<lambda>_. wr') w0)) = 0" "wal_stable_epoch (w_wal (set_writer i (\<lambda>_. wr') w0)) = 0"
    using ep by (simp_all add: set_writer_def Let_def)
  ultimately show thesis using that [OF w0(1), of "set_writer i (\<lambda>_. wr') w0"] w0(3) by (simp add: sample_chunk_def world_simps)
qed

lemma sample_stable:
  assumes i: "i < 2"
  obtains w where "wal_reachable pmem_exact sample_config sample_start w [sample_chunk i]" "wal_config (w_wal w) = accepted_config"
    "wal_durable_epoch (w_wal w) = 0" "wal_stable_epoch (w_wal w) = 1" "cur_dsid w = 1" "cur_written w = 0"
proof -
  obtain w0 w1 where w: "nvwal_init pmem_exact False sample_config kNvwalInitCreateIfNotExists sample_start = Ok () w0"
    "wal_step pmem_exact (w0, []) (w1, [sample_chunk i])" "wal_config (w_wal w1) = accepted_config"
    "wal_durable_epoch (w_wal w1) = 0" "wal_stable_epoch (w_wal w1) = 0" "cur_dsid w1 = 1" "cur_written w1 = 0"
    by (rule sample_logged [OF i])
  have "nvwal_increment_epoch 0 = 1" "nvwal_is_epoch_equal_or_after 1 1" by code_simp+
  then have "nvwal_advance_stable_epoch 1 (w_wal w1) = Ok () ((w_wal w1)\<lparr>wal_stable_epoch := 1\<rparr>)"
    using w(4,5) by (simp add: nvwal_advance_stable_epoch_def)
  then have "wal_step pmem_exact (w1, [sample_chunk i]) (w1\<lparr>w_wal := (w_wal w1)\<lparr>wal_stable_epoch := 1\<rparr>\<rparr>, [sample_chunk i])"
    by (rule wal_step.stable_advances)
  with w(1,2) have "wal_reachable pmem_exact sample_config sample_start (w1\<lparr>w_wal := (w_wal w1)\<lparr>wal_stable_epoch := 1\<rparr>\<rparr>) [sample_chunk i]"
    unfolding wal_reachable_def by (meson rtranclp.rtrancl_into_rtrancl rtranclp.rtrancl_refl)
  then show thesis
    using w(3-7) by (intro that [of "w1\<lparr>w_wal := (w_wal w1)\<lparr>wal_stable_epoch := 1\<rparr>\<rparr>"])
      (simp_all add: cur_dsid_def cur_written_def cur_index_def seg_count_def)
qed

lemma sample_state:
  assumes st: "sys_state w [sample_chunk i] cs ps h" and "i < 2" "wal_config (w_wal w) = accepted_config"
    and "wal_durable_epoch (w_wal w) = 0" "cur_dsid w = 1" "cur_written w = 0"
  shows "h = []" "chunk_bytes cs = []" "length ps = 2" "j < 2 \<Longrightarrow> epoch_bytes 1 (ws_sent (ps ! j)) (ws_pieces (ps ! j)) = (if j = i then [7, 8] else [])"
    "bytes_of_epoch 1 ps [0..<length ps] = [7, 8]" "seg_size w = 512" "round_ready w [] ps [] 0"
proof -
  have r: "wal_repr w (chunk_bytes cs) ps h (upto_epoch (length h) cs)" and len: "length h < 2 ^ 56"
    and acc: "\<And>j e. j < length ps \<Longrightarrow> of_writer j e [sample_chunk i] = of_writer j e cs @ epoch_bytes e (ws_sent (ps ! j)) (ws_pieces (ps ! j))"
    and n: "unat (cf_writer_count (wal_config (w_wal w))) = length ps" using st by (simp_all add: sys_state_def)
  have "(of_nat (length h) :: u64) = 0" using r assms(4) by (simp add: wal_repr_def)
  then have "unat (of_nat (length h) :: u64) = 0" by simp
  then show h: "h = []" using len by (simp add: unat_of_nat_small)
  have l: "log_repr w (chunk_bytes cs)" using r log_safeD(1) by (auto simp: wal_repr_def flush_open_def)
  show e: "chunk_bytes cs = []" using log_length [OF l] assms(5,6) by simp
  show ps: "length ps = 2" using n assms(3) accepted_fields(1) by simp
  show S: "seg_size w = 512" using assms(3) accepted_fields(3) by (simp add: seg_size_def)
  have "\<forall>c \<in> set cs. ck_bytes c = []" using e by (auto simp: chunk_bytes_def)
  then have none: "of_writer j f cs = []" for j f by (auto simp: of_writer_def chunk_bytes_def)
  show eb: "epoch_bytes 1 (ws_sent (ps ! j)) (ws_pieces (ps ! j)) = (if j = i then [7, 8] else [])" if "j < 2" for j
    using acc [of j 1] that ps none by (auto simp: sample_chunk_def split: if_splits)
  have up: "[0..<length ps] = [0, 1]" using ps by (simp add: upt_rec)
  show "bytes_of_epoch 1 ps [0..<length ps] = [7, 8]"
    unfolding up bytes_of_epoch_def using eb [of 0] eb [of 1] assms(2) by (auto simp: less_2_cases_iff)
  have "flush_range w"
    using assms(3,4,5) S accepted_fields by (simp add: flush_range_def buffer_size_def)
  from sys_round_ready [OF st this] show "round_ready w [] ps [] 0"
    using h e upto_epoch_le [of 0 cs] by simp
qed

lemma sample_round:
  assumes i: "i < 2" and seen: "served seen [0..<2] = is"
  obtains w w' ps em where "wal_reachable pmem_exact sample_config sample_start w [sample_chunk i]" "wal_stable_epoch (w_wal w) = 1" "wal_durable_epoch (w_wal w) = 0"
    "round_ready w [] ps [] 0" "length ps = 2" "epoch_bytes 1 (ws_sent (ps ! i)) (ws_pieces (ps ! i)) = [7, 8]" "bytes_of_epoch 1 ps [0..<2] = [7, 8]"
    "flush_range w" "cur_dsid w = 1" "seg_size w = 512"
    "flusher_main_loop pmem_exact seen w = Ok () w'" "wal_repr w' (bytes_of_epoch 1 ps is) (drain 1 is ps) [em] (length (bytes_of_epoch 1 ps is))"
    "wal_config (w_wal w') = accepted_config"
proof -
  obtain w where w: "wal_reachable pmem_exact sample_config sample_start w [sample_chunk i]" "wal_config (w_wal w) = accepted_config"
    "wal_durable_epoch (w_wal w) = 0" "wal_stable_epoch (w_wal w) = 1" "cur_dsid w = 1" "cur_written w = 0" by (rule sample_stable [OF i])
  obtain cs ps h where st: "sys_state w [sample_chunk i] cs ps h"
    using reachable_inv [OF sample_clean pmem_exact_spec w(1)] by (auto simp: sys_inv_def)
  note s = sample_state [OF st i w(2,3,5,6)]
  have ps: "[0..<length ps] = [0..<2]" using s(3) by simp
  have stable: "wal_stable_epoch (w_wal w) = of_nat (Suc (length []))" using w(4) by simp
  have fr: "flush_range w" using w(2,3,5) s(6) accepted_fields by (simp add: flush_range_def buffer_size_def)
  show thesis
  proof (cases rule: main_loop_stable [OF s(7) stable pmem_exact_spec, of seen])
    case (1 w' em)
    show thesis
      using 1(1,2,6) w(2) seen s(3,5) s(4) [OF i] ps by (intro that [OF w(1,4,3) s(7,3) _ _ fr w(5) s(6) 1(1)]) simp_all
  next
    case (2 err w' k w0)
    have "512 \<le> length (take k (bytes_of_epoch 1 ps [0..<2]))" using blocked_fills [OF 2(2)] w(5) s(6) ps by simp
    then show thesis using s(5) ps by simp
  qed
qed

end
