(* ===== verification/Restart.thy ===== *)
theory Restart
  imports Sample_Run
begin

text \<open>
  What initialisation does when the folders hold the log of an earlier run: the numbers the NV segments
  get and the position at which the flusher goes on.
\<close>

section \<open>Numbers of the segments\<close>

lemma restart_cycle:
  fixes L N i :: nat
  assumes "0 < L" "i < N"
  defines "d \<equiv> (L - 1) div N * N + i + 1"
  shows "(d - 1) mod N = i" "d < L + N" "L < d + N"
proof -
  have m: "(L - 1) div N * N + (L - 1) mod N = L - 1" "(L - 1) mod N < N" using assms(2) by simp_all
  show "(d - 1) mod N = i" using assms(2) by (simp add: d_def)
  show "d < L + N" "L < d + N" using m assms(1,2) unfolding d_def by linarith+
qed

lemma ucast_of_nat_up: "n < 2 ^ 32 \<Longrightarrow> (ucast (of_nat n :: u32) :: u64) = of_nat n"
  by (rule word_unat_eq_iff [THEN iffD2]) (simp add: unsigned_ucast_eq unsigned_of_nat take_bit_eq_mod)

lemma restart_dsid_nat:
  assumes i: "i < N" and b: "unat L + 2 * unat N < 2 ^ 32"
  shows "restart_dsid N L i = Some (of_nat (if L = 0 then Suc (unat i) else
     let d = (unat L - 1) div unat N * unat N + unat i + 1 in if unat L < d then d else d + unat N))"
proof -
  have iN: "unat i < unat N" using i by (simp add: word_less_nat_alt)
  have N: "unat (ucast N :: u64) = unat N" by simp
  show ?thesis
  proof (cases "L = 0")
    case True
    have "Suc (unat i) < 2 ^ 32" using iN b by simp
    from ucast_of_nat_up [OF this] have "(ucast (i + 1) :: u64) = of_nat (Suc (unat i))" by (simp add: add.commute [of i])
    with True show ?thesis by (simp add: restart_dsid_def)
  next
    case False
    let ?q = "(unat L - 1) div unat N" and ?d = "(unat L - 1) div unat N * unat N + unat i + 1"
    have L: "0 < unat L" using False by (simp add: unat_gt_0)
    note c = restart_cycle [OF L iN]
    have q: "unat ((L - 1) div ucast N) = ?q" using False by (simp add: unat_div unat_minus_one N)
    have "?q \<le> unat L" by (meson diff_le_self div_le_dividend order_trans)
    then have "(ucast ((L - 1) div ucast N) :: u32) = of_nat ?q" by (metis q of_nat_unat)
    then have "(ucast ((L - 1) div ucast N) :: u32) * N + i + 1 = of_nat ?d" by simp
    moreover have "?d < 2 ^ 32" using c(2) b by linarith
    ultimately have d: "(ucast ((ucast ((L - 1) div ucast N) :: u32) * N + i + 1) :: u64) = of_nat ?d"
      by (metis ucast_of_nat_up)
    have ud: "unat (of_nat ?d :: u64) = ?d" using c(2) b by (intro unat_of_nat_small) simp
    have ul: "unat (L + ucast N) = unat L + unat N" using b unat_add_lem [of L "ucast N :: u64"] N by simp
    have "(L < of_nat ?d) = (unat L < ?d)" "(of_nat ?d < L + ucast N) = (?d < unat L + unat N)"
      by (simp_all only: word_less_nat_alt ud ul)
    then show ?thesis using False d c(2) by (simp add: restart_dsid_def Let_def)
  qed
qed

text \<open>
  C15. The number a segment gets at a restart is the one in the window of the log: after the last synced one, at
  most a cycle later, and congruent to its index, so that the assertions after it hold. The bound is that of the
  32-bit product of cycles and segments.
\<close>

theorem restart_dsid_in_window:
  assumes "i < N" "unat L + 2 * unat N < 2 ^ 32"
  shows "\<exists>d. restart_dsid N L i = Some d \<and> unat L < unat d \<and> unat d \<le> unat L + unat N \<and> (unat d - 1) mod unat N = unat i"
proof -
  let ?d = "if L = 0 then Suc (unat i) else let d = (unat L - 1) div unat N * unat N + unat i + 1 in if unat L < d then d else d + unat N"
  have iN: "unat i < unat N" using assms(1) by (simp add: word_less_nat_alt)
  have d: "unat L < ?d \<and> ?d \<le> unat L + unat N \<and> (?d - 1) mod unat N = unat i"
    using iN restart_cycle [of "unat L" "unat i" "unat N"] by (auto simp: Let_def unat_gt_0)
  then have "unat (of_nat ?d :: u64) = ?d" using assms(2) by (intro unat_of_nat_small) simp
  then show ?thesis using restart_dsid_nat [OF assms] d by (intro exI [of _ "of_nat ?d"]) (simp only: simp_thms)
qed
theorem restart_dsid_in_window_witness:
  "restart_dsid 3 4 0 = Some 7 \<and> 4 < unat (7 :: u64) \<and> unat (7 :: u64) \<le> 4 + 3 \<and> (unat (7 :: u64) - 1) mod 3 = 0"
proof -
  have "restart_dsid 3 4 0 = Some 7" by code_simp
  then show ?thesis using restart_dsid_in_window [of 0 3 4] by simp
qed

section \<open>Where the flusher goes on\<close>


text \<open>An epoch that began in segment 1 and ended in segment 2.\<close>

definition spanning_epoch :: MdsEpochMetadata where
  "spanning_epoch = (epoch_sample 1 0)\<lparr>em_to_seg_id := 2, em_from_offset := 500\<rparr>"


end
