(* ===== verification/Spec2Isabelle.thy ===== *)
theory Spec2Isabelle
  imports Cursor_Correct Restart
begin

text \<open>
  A verification library for libnvwal, a write-ahead log for NVDIMM written in C (folders \<^verbatim>\<open>src/src\<close> and
  \<^verbatim>\<open>src/include\<close>).

  \<^bold>\<open>The program.\<close> Client threads put log records into circular buffers, one per writer, and announce them
  for an epoch (\<^verbatim>\<open>nvwal_on_wal_write\<close>). The client declares epochs stable (\<^verbatim>\<open>nvwal_advance_stable_epoch\<close>).
  The flusher thread copies the bytes of the next epoch of all writers to segments in NVDIMM, makes them persistent,
  appends a record that says where the epoch is to the metadata store (MDS) and so makes the epoch durable. The fsyncer thread
  copies full segments to files on disk, so that the flusher can use their memory again. Cursors read the log back, pinning the
  segments they read. Initialisation creates the files or restarts from those of an earlier run.

  \<^bold>\<open>Model.\<close> A C struct is a record with its fields, an enumeration a datatype, machine integers are words of their
  width. A function of the code is a function on the state it changes. Its result is an \<open>outcome\<close>: \<open>Ok\<close> with a value,
  \<open>Fail\<close> with an error number, \<open>Abort\<close> for a failed assertion or an access out of bounds, \<open>Spin\<close> for a loop
  that waits for another thread. A \<open>world\<close> is the operating system and the context of an instance. The operating
  system keeps for each path the current and the durable content and the open descriptors; it answers from a list
  \<open>os_resp\<close> of errors and short counts, and without fault when the list is empty. A crash replaces current content by
  durable content and closes all descriptors. The library libpmem is a parameter \<open>pm\<close>; \<open>pmem_persist_spec\<close> says that the range it is asked to
  persist is durable afterwards, and \<open>pmem_exact\<close> is an instance.

  \<^bold>\<open>Theories.\<close>
  \<^item> \<open>Prelude\<close>: outcomes, simplification collections and facts on words and lists. \<open>Types\<close>: structs, enumerations and
    constants (\<^verbatim>\<open>nvwal_types.h\<close>, \<^verbatim>\<open>nvwal_mds_types.h\<close>). \<open>Os\<close>: system calls.
  \<^item> \<open>Epoch\<close>: the cyclic order of epochs (\<^verbatim>\<open>nvwal_api.h\<close>). Epochs are positions on a cycle that skips 0; the order is
    right within windows of \<open>2 ^ 62\<close> positions.
  \<^item> \<open>Util\<close>: file names, circular copies, folders (\<^verbatim>\<open>nvwal_util.c\<close>). \<open>Ring\<close>: a circular buffer as a window of a stream.
    \<open>Debug\<close>: lines of the debug log (\<^verbatim>\<open>nvwal_debug.c\<close>).
  \<^item> \<open>Pin\<close>: pins of segments (\<^verbatim>\<open>nvwal_impl_pin.c\<close>), a locale for the contract of a reader-writer lock and its interpretation on the counter;
    every interleaving of readers and flusher. \<open>Thread_State\<close>: start and stop of the threads (\<^verbatim>\<open>nvwal_impl_init.c\<close>), every interleaving.
  \<^item> \<open>Writer\<close>, \<open>Writer_Correct\<close>: the calls of a client (\<^verbatim>\<open>nvwal_api.c\<close>); a writer refines a stream of bytes cut into
    the pieces of epochs.
  \<^item> \<open>Mds_Io\<close>, \<open>Mds_Buf\<close>, \<open>Mds\<close>: page files, buffer and operations of the metadata store (\<^verbatim>\<open>nvwal_mds.c\<close>).
    \<open>Epoch_Store\<close>: the locale of a store of epoch records with the searches and the iterator proved once over its laws. \<open>Mds_Correct\<close>, \<open>Mds_Read\<close>, \<open>Mds_Recover\<close>:
    the store refines a list of records, interprets that locale, and keeps the list over a crash.
  \<^item> \<open>Flusher\<close>, \<open>Fsyncer\<close>: the two threads (\<^verbatim>\<open>nvwal_api.c\<close>). \<open>Log\<close>: the log as one list of bytes in a moving window of NV
    segments and in files; moving on to the next segment. \<open>Consume\<close>, \<open>Flusher_Correct\<close>: copying writers
    to segments appends to that list. \<open>Durable\<close>, \<open>Conclude\<close>: persisting and concluding an epoch. \<open>Fsyncer_Correct\<close>: the fsyncer.
  \<^item> \<open>Client\<close>, \<open>System\<close>: what the clients may do, and the steps of clients, flusher, fsyncer and readers as one relation \<open>wal_step\<close> with an
    invariant; a locale for transition systems gives it for all runs. A step is one call of a client, one round of the flusher that returns, one round
    of the fsyncer, or a reader that changes the pin of a segment and its descriptors.
  \<^item> \<open>Init\<close>, \<open>Init_Correct\<close>, \<open>Restart\<close>: initialisation (\<^verbatim>\<open>nvwal_impl_init.c\<close>); a fresh instance satisfies the
    invariant. \<open>Sample_Run\<close>: a concrete run up to a durable epoch.
  \<^item> \<open>Cursor\<close>: reading the log (\<^verbatim>\<open>nvwal_impl_cursor.c\<close>). \<open>Cursor_Correct\<close>: the segments a cursor opens and pins, the metadata it
    fetches in advance, and a client that reads to the end (\<open>read_cursor\<close>); one call moves to the region that follows in the log.
  \<^item> This theory: what the parts give together.

  \<^bold>\<open>Bounds and fuel.\<close> Histories are shorter than \<open>2 ^ 56\<close> epochs, so that byte positions in page files fit 64 bits.
  Segments are smaller than \<open>2 ^ 32\<close> bytes, because records keep offsets in 32 bits, and segment numbers stay below \<open>2 ^ 32\<close>,
  because names of files have eight digits; the configuration check demands neither. Writer buffers are smaller than
  \<open>2 ^ 62\<close> bytes. Loops with fuel: the binary searches (one more than the number of epochs is enough), the copy loop of
  the flusher (the bytes to copy), the calls that read a cursor to its end (the epochs and the segments); lemmas show that the fuel given is enough where a theorem rests on it. The loops around
  \<^verbatim>\<open>write\<close> and \<^verbatim>\<open>pread\<close> end because the list of answers is finite; a read at the end of a file is \<open>Spin\<close>.

  \<^bold>\<open>Not modelled.\<close> Texts of messages; the formatting of libc; \<^verbatim>\<open>nvwal_atomics.h\<close> beyond the accesses that
  are steps of the protocols (memory orders: every access is sequentially consistent); the interleaving of single accesses of flusher, fsyncer and
  clients (a call is one step; a round of the flusher that waits is no step; a cursor is read with nobody in between); failures of the file system in the metadata store
  and in the flusher while the log runs (the fsyncer's are modelled and treated); the example and the benchmarks, which only call the library.
\<close>

section \<open>The log of a run\<close>

text \<open>
  A log for what the clients announced: the chunks of the epochs up to \<open>n\<close> in the order of their epochs, with
  all bytes of every writer and epoch in the order in which the writer announced them.
\<close>

definition log_of :: "nat \<Rightarrow> nat \<Rightarrow> chunk list \<Rightarrow> chunk list \<Rightarrow> bool" where
  "log_of n writers xs cs \<longleftrightarrow>
     sorted (map ck_epoch cs) \<and> (\<forall>c \<in> set cs. 0 < ck_epoch c \<and> ck_epoch c \<le> n \<and> ck_writer c < writers) \<and>
     (\<forall>i < writers. \<forall>e \<le> n. of_writer i e cs = of_writer i e xs)"

lemma filter_epochs:
  "e \<le> n \<Longrightarrow> of_writer i e (filter (\<lambda>c. ck_epoch c \<le> n) cs) = of_writer i e cs"
  "e \<le> n \<Longrightarrow> upto_epoch e (filter (\<lambda>c. ck_epoch c \<le> n) cs) = upto_epoch e cs"
  by (auto simp: of_writer_def upto_epoch_def intro!: arg_cong [where f = chunk_bytes] arg_cong [where f = length] filter_cong)

lemma upto_epoch_mono: "d \<le> e \<Longrightarrow> upto_epoch d cs \<le> upto_epoch e cs"
  by (induction cs) (auto simp: upto_epoch_def)

lemma durable_log_of:
  assumes "sys_state w xs cs ps h"
  shows "log_of (length h) (length ps) xs (filter (\<lambda>c. ck_epoch c \<le> length h) cs)"
proof -
  let ?cs = "filter (\<lambda>c. ck_epoch c \<le> length h) cs"
  have st: "sorted (map ck_epoch cs)" "\<forall>c \<in> set cs. 0 < ck_epoch c \<and> ck_writer c < length ps" "\<forall>p \<in> set ps. pieces_inv (length h) (ws_pieces p)"
    "\<And>i e. i < length ps \<Longrightarrow> of_writer i e xs = of_writer i e cs @ epoch_bytes e (ws_sent (ps ! i)) (ws_pieces (ps ! i))"
    using assms by (simp_all add: sys_state_def)
  have "of_writer i e ?cs = of_writer i e xs" if "i < length ps" "e \<le> length h" for i e
    using st(3,4) that epoch_bytes_flushed [of "length h" _ e] filter_epochs(1) [OF that(2)] by (simp add: pieces_inv_def)
  then show ?thesis using st(1,2) by (auto simp: log_of_def intro: sorted_filter)
qed

section \<open>Crash safety\<close>

text \<open>A run of the small instance whose first epoch is durable.\<close>

lemma sample_durable:
  obtains w where "wal_reachable pmem_exact sample_config sample_start w [sample_chunk 0]" "nvwal_query_durable_epoch (w_wal w) = 1"
    "unat (cf_writer_count (wal_config (w_wal w))) = 2" "seg_size w = 512"
proof -
  let ?seen = "\<lambda>_. kNvwalThreadStateRunning"
  have srv: "served ?seen [0..<2] = [0..<2]" by (simp add: upt_rec)
  obtain w w' ps em where w: "wal_reachable pmem_exact sample_config sample_start w [sample_chunk 0]" "flush_range w"
    "flusher_main_loop pmem_exact ?seen w = Ok () w'" "wal_repr w' (bytes_of_epoch 1 ps [0..<2]) (drain 1 [0..<2] ps) [em] (length (bytes_of_epoch 1 ps [0..<2]))"
    "wal_config (w_wal w') = accepted_config" by (rule sample_round [OF _ srv, of 0]) (simp, blast)
  have "wal_reachable pmem_exact sample_config sample_start w' [sample_chunk 0]"
    using reachable_step [OF w(1) wal_step.flusher_runs [OF w(2) _ w(3)]] by simp
  moreover have "nvwal_query_durable_epoch (w_wal w') = 1" using w(4) by (simp add: wal_repr_def nvwal_query_durable_epoch_def)
  ultimately show thesis using that w(5) accepted_fields(1,3) by (simp add: seg_size_def)
qed



section \<open>Nothing is lost or made up\<close>

text \<open>
  C2. At every moment of every run, each byte a client announced is in exactly one place: the bytes of a writer
  and an epoch are those in the log followed by those that wait in the writer's circular buffer, in the order
  of the calls. Every byte of the log is readable, and nothing in the log belongs to an epoch beyond the one after
  the durable epoch.
\<close>

theorem announced_bytes_accounted:
  assumes "clean_start c w0" "pmem_persist_spec pm" "wal_reachable pm c w0 w xs"
  shows "\<exists>cs. sorted (map ck_epoch cs) \<and> (\<forall>c \<in> set cs. 0 < ck_epoch c \<and> ck_epoch c \<le> Suc (unat (nvwal_query_durable_epoch (w_wal w)))) \<and>
     (\<forall>x < length (chunk_bytes cs). log_byte w x = Some (chunk_bytes cs ! x)) \<and>
     (\<forall>i < unat (cf_writer_count (wal_config (w_wal w))). \<exists>sent vs lo. writer_repr (w_wal w) (wal_writers (w_wal w) ! i) sent vs lo \<and>
        (\<forall>e. of_writer i e xs = of_writer i e cs @ epoch_bytes e sent vs))"
proof -
  obtain cs ps h where st: "sys_state w xs cs ps h" using reachable_inv [OF assms(1-3)] by (auto simp: sys_inv_def)
  then have r: "wal_repr w (chunk_bytes cs) ps h (upto_epoch (length h) cs)" and len: "length h < 2 ^ 56" by (simp_all add: sys_state_def)
  have n: "unat (nvwal_query_durable_epoch (w_wal w)) = length h" using r len by (simp add: nvwal_query_durable_epoch_def wal_repr_def unat_of_nat_small)
  have safe: "log_safe os_files w (chunk_bytes cs)" and ws: "writers_repr w ps" using r by (simp_all add: wal_repr_def)
  have "\<exists>sent vs lo. writer_repr (w_wal w) (wal_writers (w_wal w) ! i) sent vs lo \<and> (\<forall>e. of_writer i e xs = of_writer i e cs @ epoch_bytes e sent vs)"
    if "i < length ps" for i using ws st that unfolding writers_repr_def sys_state_def by blast
  then show ?thesis
    using st log_readable [OF safe] unfolding sys_state_def n by (intro exI [of _ cs]) simp
qed

theorem announced_bytes_accounted_witness:
  "\<exists>w cs. wal_reachable pmem_exact sample_config sample_start w [sample_chunk 0] \<and> nvwal_query_durable_epoch (w_wal w) = 1 \<and>
     (\<forall>x < length (chunk_bytes cs). log_byte w x = Some (chunk_bytes cs ! x)) \<and>
     (\<exists>sent vs lo. writer_repr (w_wal w) (wal_writers (w_wal w) ! 0) sent vs lo \<and> of_writer 0 1 cs @ epoch_bytes 1 sent vs = [7, 8])"
proof -
  obtain w where w: "wal_reachable pmem_exact sample_config sample_start w [sample_chunk 0]" "nvwal_query_durable_epoch (w_wal w) = 1"
    "unat (cf_writer_count (wal_config (w_wal w))) = 2" by (rule sample_durable)
  have x: "of_writer 0 1 [sample_chunk 0] = [7, 8]" by (simp add: sample_chunk_def)
  obtain cs sent vs lo where "\<forall>x < length (chunk_bytes cs). log_byte w x = Some (chunk_bytes cs ! x)"
    "writer_repr (w_wal w) (wal_writers (w_wal w) ! 0) sent vs lo" "of_writer 0 1 [sample_chunk 0] = of_writer 0 1 cs @ epoch_bytes 1 sent vs"
    using announced_bytes_accounted [OF sample_clean pmem_exact_spec w(1)] w(3) by (metis zero_less_numeral)
  then show ?thesis using w(1,2) x by metis
qed

section \<open>Reading the log\<close>

text \<open>A state of a run, as a cursor needs it.\<close>

lemma state_readable:
  assumes "sys_state w xs cs ps h"
  shows "quiet w (chunk_bytes cs) h" "epochs_at (seg_size w) h (\<lambda>j. upto_epoch j cs) (length (chunk_bytes cs))"
    "unat (nvwal_query_durable_epoch (w_wal w)) = length h"
proof -
  have r: "wal_repr w (chunk_bytes cs) ps h (upto_epoch (length h) cs)"
    and cov: "\<And>j. j < length h \<Longrightarrow> record_covers (seg_size w) (h ! j) (upto_epoch j cs) (upto_epoch (Suc j) cs)"
    using assms by (simp_all add: sys_state_def)
  show q: "quiet w (chunk_bytes cs) h" using r by (auto simp: quiet_def wal_repr_def flush_open_def)
  show "unat (nvwal_query_durable_epoch (w_wal w)) = length h"
    using q quietD(10) [OF q] by (simp add: nvwal_query_durable_epoch_def quiet_def unat_of_nat_small)
  show "epochs_at (seg_size w) h (\<lambda>j. upto_epoch j cs) (length (chunk_bytes cs))"
    using cov upto_epoch_le upto_epoch_mono by (auto simp: epochs_at_def intro!: monoI)
qed

text \<open>
  C8. A log cursor reads the durable epochs. In every state of every run, a client that opens a cursor on the epochs
  from \<open>b\<close> to \<open>e\<close> (exclusive) and calls the next operation until the cursor is no longer valid, while nobody interferes,
  gets from the regions, put together, exactly the bytes of the durable epochs of the range, in the order of the log; and
  the control block is then as before, so every segment it pinned is unpinned. The range starts at most one epoch after
  the durable one. It is assumed that no epoch of the range that ends at the beginning of a segment takes more than two
  segments: the operation skips the segments in the middle of such an epoch.
\<close>

theorem cursor_reads_durable_epochs:
  assumes run: "clean_start c w0" "pmem_persist_spec pm" "wal_reachable pm c w0 w xs"
  defines "n \<equiv> unat (nvwal_query_durable_epoch (w_wal w))"
  assumes b: "0 < b" "b \<le> Suc n" "b < e" "e < 2 ^ 57"
    and gap: "\<And>j. b \<le> j \<Longrightarrow> j < e \<Longrightarrow> j \<le> n \<Longrightarrow> \<exists>em. mds_read_one_epoch (of_nat j) w = Ok em w \<and> no_gap em"
  shows "\<exists>cs cu w1 cu' w2. log_of n (unat (cf_writer_count (wal_config (w_wal w)))) xs cs \<and>
     nvwal_open_log_cursor [] (of_nat b) (of_nat e) w = Ok () (cu, w1) \<and>
     read_cursor (Suc (n + cur_dsid w)) (cu, w1) = Ok (chunk_bytes (filter (\<lambda>c. b \<le> ck_epoch c \<and> ck_epoch c < e) cs)) (cu', w2) \<and>
     w_wal w2 = w_wal w"
proof -
  obtain cs ps h where st: "sys_state w xs cs ps h" using reachable_inv [OF run] by (auto simp: sys_inv_def)
  note q = state_readable(1) [OF st] and at = state_readable(2) [OF st]
  let ?m = "min (e - 1) (length h)" and ?cs = "filter (\<lambda>c. ck_epoch c \<le> length h) cs" and ?pos = "\<lambda>j. upto_epoch j cs"
  have so: "sorted (map ck_epoch cs)" and wc: "unat (cf_writer_count (wal_config (w_wal w))) = length ps" using st by (simp_all add: sys_state_def)
  have n: "n = length h" using state_readable(3) [OF st] by (simp add: n_def)
  obtain i where i: "b = Suc i" using b(1) by (cases b) auto
  have g: "no_gap (h ! j)" if "i \<le> j" "j < ?m" for j
  proof -
    have "mds_read_one_epoch (of_nat (Suc j)) w = Ok (h ! j) w" using mds.read_nth q that(2) by (simp add: quiet_def)
    moreover have "b \<le> Suc j" "Suc j < e" "Suc j \<le> n" using that i n by (simp_all add: less_diff_conv)
    ultimately show ?thesis using gap [of "Suc j"] by auto
  qed
  have mid: "filter (\<lambda>c. b \<le> ck_epoch c \<and> ck_epoch c < e) ?cs = filter (\<lambda>c. i < ck_epoch c \<and> ck_epoch c \<le> ?m) cs"
    using i b(3) by (auto intro!: filter_cong)
  obtain cu w1 where o: "nvwal_open_log_cursor [] (of_nat b) (of_nat e) w = Ok () (cu, w1)"
    "if i < ?m then cursor_at w h ?pos e i (first_seg (h ! i)) (?pos i) (cu, w1) else holding_none w cu w1"
    using open_cursor [OF q at, of i e] b(2-4) unfolding i n by (auto simp del: of_nat_Suc)
  have "\<exists>cu' w2. read_cursor (Suc (n + cur_dsid w)) (cu, w1) = Ok (chunk_bytes (filter (\<lambda>c. i < ck_epoch c \<and> ck_epoch c \<le> ?m) cs)) (cu', w2) \<and> holding_none w cu' w2"
  proof (cases "i < ?m")
    case True
    have "?m + cur_dsid w - (i + first_seg (h ! i)) < Suc (n + cur_dsid w)" unfolding n by linarith
    from read_cursor_from [OF q at g o(2) [unfolded if_P [OF True]] order_refl this]
    show ?thesis unfolding sorted_epoch_slice [OF so less_imp_le [OF True]] by blast
  next
    case False
    then have "filter (\<lambda>c. i < ck_epoch c \<and> ck_epoch c \<le> ?m) cs = []" by (auto simp: filter_empty_conv)
    then show ?thesis using o(2) False by (auto simp: nvwal_cursor_is_valid_def holding_none_def)
  qed
  then obtain cu' w2 where "read_cursor (Suc (n + cur_dsid w)) (cu, w1) = Ok (chunk_bytes (filter (\<lambda>c. b \<le> ck_epoch c \<and> ck_epoch c < e) ?cs)) (cu', w2)"
    "w_wal w2 = w_wal w" unfolding mid holding_none_def by blast
  moreover have "log_of n (unat (cf_writer_count (wal_config (w_wal w)))) xs ?cs" using durable_log_of [OF st] unfolding wc n .
  ultimately show ?thesis using o(1) by blast
qed

lemma only_writer_bytes: "\<forall>c \<in> set cs. ck_epoch c = e \<and> (ck_writer c = i \<or> ck_bytes c = []) \<Longrightarrow> chunk_bytes cs = of_writer i e cs"
  by (induction cs) (auto simp: of_writer_def)

lemma sample_log_bytes:
  assumes "log_of 1 2 [sample_chunk 0] cs"
  shows "chunk_bytes cs = [7, 8]"
proof -
  have c: "ck_epoch c = 1 \<and> ck_writer c < 2" if "c \<in> set cs" for c using assms that by (force simp: log_of_def)
  have w: "of_writer 0 1 cs = [7, 8]" "of_writer 1 1 cs = []" using assms by (simp_all add: log_of_def sample_chunk_def)
  have "ck_writer c = 0 \<or> ck_bytes c = []" if "c \<in> set cs" for c
    using w(2) c [OF that] that by (auto simp: of_writer_def chunk_bytes_def less_2_cases_iff)
  then have "\<forall>c \<in> set cs. ck_epoch c = 1 \<and> (ck_writer c = 0 \<or> ck_bytes c = [])" using c by simp
  then have "chunk_bytes cs = of_writer 0 1 cs" by (rule only_writer_bytes)
  then show ?thesis using w(1) by simp
qed

lemma sample_no_gap:
  assumes "wal_reachable pmem_exact sample_config sample_start w [sample_chunk 0]" "nvwal_query_durable_epoch (w_wal w) = 1"
    "unat (cf_writer_count (wal_config (w_wal w))) = 2" "seg_size w = 512"
  shows "\<exists>em. mds_read_one_epoch 1 w = Ok em w \<and> no_gap em"
proof -
  obtain cs ps h where st: "sys_state w [sample_chunk 0] cs ps h" using reachable_inv [OF sample_clean pmem_exact_spec assms(1)] by (auto simp: sys_inv_def)
  note q = state_readable(1) [OF st] and at = state_readable(2) [OF st]
  have n: "length h = 1" using state_readable(3) [OF st] assms(2) by simp
  let ?cs = "filter (\<lambda>c. ck_epoch c \<le> 1) cs"
  have "length ps = 2" using st assms(3) by (simp add: sys_state_def)
  then have "upto_epoch 1 cs = 2" using sample_log_bytes [of ?cs] durable_log_of [OF st] n by (simp add: upto_epoch_def)
  moreover have "(last_seg (h ! 0) - 1) * 512 + unat (em_to_off (h ! 0)) = upto_epoch 1 cs" using epochs_at_record(5) [OF at, of 0] n assms(4) by simp
  ultimately have "(last_seg (h ! 0) - 1) * 512 + unat (em_to_off (h ! 0)) = 2" by (simp only:)
  then have "em_to_off (h ! 0) \<noteq> 0" by auto
  moreover have "mds_read_one_epoch 1 w = Ok (h ! 0) w" using mds.read_nth [of w h 0] q n by (simp add: quiet_def)
  ultimately show ?thesis by (auto simp: no_gap_def)
qed

theorem cursor_reads_durable_epochs_witness:
  "\<exists>w cu w1 cu' w2. wal_reachable pmem_exact sample_config sample_start w [sample_chunk 0] \<and>
     nvwal_open_log_cursor [] 1 2 w = Ok () (cu, w1) \<and> read_cursor (Suc (1 + cur_dsid w)) (cu, w1) = Ok [7, 8] (cu', w2) \<and> w_wal w2 = w_wal w"
proof -
  obtain w where w: "wal_reachable pmem_exact sample_config sample_start w [sample_chunk 0]" "nvwal_query_durable_epoch (w_wal w) = 1"
    "unat (cf_writer_count (wal_config (w_wal w))) = 2" "seg_size w = 512" by (rule sample_durable)
  have n: "unat (nvwal_query_durable_epoch (w_wal w)) = 1" using w(2) by simp
  have gap: "\<exists>em. mds_read_one_epoch (of_nat j) w = Ok em w \<and> no_gap em" if "1 \<le> j" "j < 2" "j \<le> unat (nvwal_query_durable_epoch (w_wal w))" for j
  proof -
    have "j = 1" using that by simp
    then show ?thesis using sample_no_gap [OF w] by simp
  qed
  have "1 \<le> Suc (unat (nvwal_query_durable_epoch (w_wal w)))" by simp
  from cursor_reads_durable_epochs [OF sample_clean pmem_exact_spec w(1) _ this _ _ gap, where e = 2, unfolded n w(3)]
  obtain cs cu w1 cu' w2 where t: "log_of 1 2 [sample_chunk 0] cs" "nvwal_open_log_cursor [] (of_nat 1) (of_nat 2) w = Ok () (cu, w1)"
    "read_cursor (Suc (1 + cur_dsid w)) (cu, w1) = Ok (chunk_bytes (filter (\<lambda>c. 1 \<le> ck_epoch c \<and> ck_epoch c < 2) cs)) (cu', w2)" "w_wal w2 = w_wal w"
    by (simp del: read_cursor.simps of_nat_1 of_nat_numeral One_nat_def) blast
  have "filter (\<lambda>c. 1 \<le> ck_epoch c \<and> ck_epoch c < 2) cs = cs" using t(1) by (auto simp: log_of_def filter_id_conv)
  then have "read_cursor (Suc (1 + cur_dsid w)) (cu, w1) = Ok [7, 8] (cu', w2)" using t(3) sample_log_bytes [OF t(1)] by (simp only:)
  then show ?thesis using w(1) t(2,4) unfolding of_nat_1 of_nat_numeral by blast
qed

section \<open>Clients\<close>



section \<open>The flusher\<close>

text \<open>A round either catches up with the stable epoch or stops at a full segment whose successor is not free.\<close>

lemma flusher_round_cases:
  assumes st: "sys_state w xs cs ps h" and fr: "flush_range w" and pm: "pmem_persist_spec pm"
  obtains w' where "flusher_main_loop pm seen w = Ok () w'" "wal_durable_epoch (w_wal w') = wal_stable_epoch (w_wal w)"
    | err w' k w0 where "flusher_main_loop pm seen w = blocked_outcome err w'"
      "flush_blocked os_durable w w0 (chunk_bytes cs @ take k (bytes_of_epoch (Suc (length h)) ps [0..<length ps])) err w'"
proof -
  note r = sys_round_ready [OF st fr]
  show thesis
  proof (cases "wal_stable_epoch (w_wal w) = of_nat (Suc (length h))")
    case True
    show thesis
    proof (cases rule: main_loop_stable [OF r True pm, of seen])
      case (1 w' em)
      show thesis by (rule that(1) [OF 1(1)]) (use 1(2) True in \<open>simp add: wal_repr_def\<close>)
    qed (rule that(2))
  next
    case False
    then have s: "wal_stable_epoch (w_wal w) = of_nat (length h)" using st by (auto simp: sys_state_def)
    show thesis
    proof (cases rule: main_loop_early [OF r False, of pm seen])
      case (1 w')
      show thesis by (rule that(1) [OF 1(1)]) (use 1(2) s in \<open>simp add: wal_repr_def\<close>)
    qed (rule that(2))
  qed
qed

text \<open>
  C3. A round of the flusher never runs into an assertion and comes to an end: in every state that can be reached,
  and whatever thread state it reads meanwhile, it returns with the durable epoch equal to the stable one, or the
  segment it writes is full, its sync is requested and the next segment is not free. Then it fails with the error the fsyncer
  left in the next segment, or it waits, for the fsyncer to sync the next segment or for readers to unpin it.
\<close>

theorem flusher_round_catches_up_or_waits:
  assumes "clean_start c w0" "pmem_persist_spec pm" "wal_reachable pm c w0 w xs" "flush_range w"
  shows "(\<exists>w'. flusher_main_loop pm seen w = Ok () w' \<and> nvwal_query_durable_epoch (w_wal w') = wal_stable_epoch (w_wal w)) \<or>
     (\<exists>v. cur_written v = seg_size v \<and>
        (if next_synced v then sg_nv_reader_pins (next_segment v) \<noteq> 0 \<and> flusher_main_loop pm seen w = Spin (requested_sync v)
         else flusher_main_loop pm seen w =
                (case sg_fsync_error (next_segment v) of None \<Rightarrow> Spin (requested_sync v) | Some err \<Rightarrow> Fail err (requested_sync v))))"
proof -
  obtain cs ps h where st: "sys_state w xs cs ps h" using reachable_inv [OF assms(1-3)] by (auto simp: sys_inv_def)
  show ?thesis
  proof (cases rule: flusher_round_cases [OF st assms(4,2), of seen])
    case (1 w')
    then show ?thesis by (simp add: nvwal_query_durable_epoch_def)
  next
    case (2 err w' k v)
    then have "cur_written v = seg_size v" "w' = requested_sync v"
      "case err of None \<Rightarrow> \<not> next_synced v \<and> sg_fsync_error (next_segment v) = None \<or> next_synced v \<and> sg_nv_reader_pins (next_segment v) \<noteq> 0
       | Some e \<Rightarrow> \<not> next_synced v \<and> sg_fsync_error (next_segment v) = Some e" unfolding flush_blocked_def by blast+
    then show ?thesis using 2(1) by (intro disjI2 exI [of _ v]) (auto simp: blocked_outcome_def split: option.splits)
  qed
qed

theorem flusher_round_catches_up_or_waits_witness:
  "\<exists>w w'. wal_reachable pmem_exact sample_config sample_start w [sample_chunk 0] \<and>
     flusher_main_loop pmem_exact (\<lambda>_. kNvwalThreadStateRunning) w = Ok () w' \<and>
     nvwal_query_durable_epoch (w_wal w') = wal_stable_epoch (w_wal w)"
proof -
  let ?seen = "\<lambda>_. kNvwalThreadStateRunning"
  obtain w w' where w: "wal_reachable pmem_exact sample_config sample_start w [sample_chunk 0]" "flush_range w"
    "flusher_main_loop pmem_exact ?seen w = Ok () w'" by (rule sample_round [of 0]) auto
  show ?thesis
    using flusher_round_catches_up_or_waits [OF sample_clean pmem_exact_spec w(1,2), of ?seen] w(1,3)
    by (auto split: if_splits option.splits)
qed

lemma bytes_of_epoch_bound:
  assumes "\<And>i. i < n \<Longrightarrow> length (epoch_bytes e (ws_sent (ps ! i)) (ws_pieces (ps ! i))) \<le> length (of_writer i e xs)"
  shows "length (bytes_of_epoch e ps [0..<n]) \<le> length (chunk_bytes (filter (\<lambda>c. ck_epoch c = e) xs))"
proof -
  have s: "(\<Sum>i<n. length (of_writer i e xs)) \<le> length (chunk_bytes (filter (\<lambda>c. ck_epoch c = e) xs))"
  proof (induction xs)
    case (Cons c xs)
    have "(\<Sum>i<n. length (of_writer i e (c # xs))) =
        (\<Sum>i<n. if i = ck_writer c \<and> ck_epoch c = e then length (ck_bytes c) else 0) + (\<Sum>i<n. length (of_writer i e xs))"
      by (simp add: sum.distrib [symmetric] eq_commute) (intro sum.cong; auto)
    moreover have "(\<Sum>i<n. if i = ck_writer c \<and> ck_epoch c = e then length (ck_bytes c) else 0) \<le> (if ck_epoch c = e then length (ck_bytes c) else 0)"
      by (simp add: sum.delta)
    ultimately show ?case using Cons by auto
  qed simp
  have "length (bytes_of_epoch e ps [0..<n]) = (\<Sum>i<n. length (epoch_bytes e (ws_sent (ps ! i)) (ws_pieces (ps ! i))))"
    by (simp add: bytes_of_epoch_def length_concat o_def interv_sum_list_conv_sum_set_nat atLeast0LessThan)
  also have "\<dots> \<le> (\<Sum>i<n. length (of_writer i e xs))" by (rule sum_mono) (simp add: assms)
  finally show ?thesis using s by simp
qed



text \<open>
  C13. A request to stop that arrives while the flusher serves its writers makes it leave the loop over the writers,
  but not the round: the stable epoch is still concluded. There is a run in which the stable epoch becomes durable
  although the two bytes a client announced for it are not in the log, and the metadata record says that the epoch is empty.
\<close>

theorem stop_request_concludes_unflushed_epoch:
  "\<exists>w w' em. wal_reachable pmem_exact sample_config sample_start w [sample_chunk 1] \<and> of_writer 1 1 [sample_chunk 1] = [7, 8] \<and>
     flusher_main_loop pmem_exact (\<lambda>_. kNvwalThreadStateRunningAndRequestedStop) w = Ok () w' \<and>
     nvwal_query_durable_epoch (w_wal w') = 1 \<and> mds_read_one_epoch 1 w' = Ok em w' \<and> record_covers (seg_size w') em 0 0"
proof -
  let ?seen = "\<lambda>_. kNvwalThreadStateRunningAndRequestedStop"
  have srv: "served ?seen [0..<2] = [0]" by (simp add: upt_rec)
  obtain w w' ps em where w: "wal_reachable pmem_exact sample_config sample_start w [sample_chunk 1]"
    "wal_stable_epoch (w_wal w) = 1" "round_ready w [] ps [] 0" "length ps = 2" "epoch_bytes 1 (ws_sent (ps ! 1)) (ws_pieces (ps ! 1)) = [7, 8]"
    "bytes_of_epoch 1 ps [0..<2] = [7, 8]" "flusher_main_loop pmem_exact ?seen w = Ok () w'" "wal_config (w_wal w') = accepted_config" "seg_size w = 512"
    by (rule sample_round [OF _ srv, of 1]) (simp, blast)
  have up: "[0..<2] = [0, 1 :: nat]" by (simp add: upt_rec)
  have none: "bytes_of_epoch 1 ps [0] = []" using w(5,6) by (simp add: bytes_of_epoch_def up)
  have sz: "seg_size w' = seg_size w" using w(8,9) accepted_fields(3) by (simp add: seg_size_def)
  obtain v em where v: "flusher_main_loop pmem_exact ?seen w = Ok () v" "wal_repr v [] (drain 1 [0] ps) [em] 0" "record_covers (seg_size w) em 0 0"
  proof (cases rule: main_loop_stable [OF w(3) _ pmem_exact_spec, of ?seen])
    case 1
    then show ?case using w(2) by simp
  next
    case (2 v em)
    then show thesis using that [of v em] none srv w(4) by simp
  next
    case (3 err v k u)
    then show thesis using w(7) by (simp add: blocked_outcome_def split: option.splits)
  qed
  have "mds_repr w' [em]" "wal_durable_epoch (w_wal w') = 1" using v(1,2) w(7) by (simp_all add: wal_repr_def)
  then show ?thesis
    using w(1,7) v(3) sz mds.read_nth [of w' "[em]" 0] by (intro exI [of _ w] exI [of _ w'] exI [of _ em]) (simp add: sample_chunk_def nvwal_query_durable_epoch_def)
qed

section \<open>The fsyncer when the operating system fails\<close>

text \<open>The same world with an operating system that gives the listed answers to the next calls.\<close>

definition with_responses :: "sys_resp list \<Rightarrow> world \<Rightarrow> world" where
  "with_responses rs w = w\<lparr>w_os := (w_os w)\<lparr>os_resp := rs\<rparr>\<rparr>"

lemma with_responses_fields [world_simps]:
  "w_wal (with_responses rs w) = w_wal w" "last_synced (with_responses rs w) = last_synced w" "sync_index (with_responses rs w) = sync_index w"
  "seg_size (with_responses rs w) = seg_size w" "seg_count (with_responses rs w) = seg_count w" "cur_dsid (with_responses rs w) = cur_dsid w"
  "cur_written (with_responses rs w) = cur_written w" "disk_ready (with_responses rs w) = disk_ready w" "log_byte (with_responses rs w) x = log_byte w x"
  by (simp_all add: with_responses_def last_synced_def sync_index_def seg_size_def seg_count_def cur_dsid_def cur_written_def cur_index_def
      disk_ready_def log_byte_def Let_def cong: option.case_cong)

lemma log_safe_responses: "log_safe os_files (with_responses rs w) s = log_safe os_files w s"
  unfolding log_safe_def log_repr_def world_simps seg_ok_def Let_def disk_names_ok_def on_disk_def seg_bases_def
  by (simp add: with_responses_def mapped_def cong: option.case_cong)



section \<open>Initialisation and restart\<close>

text \<open>
  C7. Initialisation in empty folders succeeds: no epoch is durable or stable, the metadata store is empty, every
  writer has room for a first write, and the state satisfies the invariant of the running log.
\<close>

theorem init_in_empty_folders:
  assumes "clean_start c w"
  shows "\<exists>w'. nvwal_init pm False c kNvwalInitCreateIfNotExists w = Ok () w' \<and> sys_inv w' [] \<and>
     nvwal_query_durable_epoch (w_wal w') = kNvwalInvalidEpoch \<and> wal_stable_epoch (w_wal w') = kNvwalInvalidEpoch \<and> mds_latest_epoch w' = 0 \<and>
     (\<forall>i < unat (cf_writer_count (wal_config (w_wal w'))). nvwal_has_enough_writer_space (w_wal w') (wal_writers (w_wal w') ! i))"
proof -
  obtain w' where w': "nvwal_init pm False c kNvwalInitCreateIfNotExists w = Ok () w'" "fresh_wal w'" using clean_start_init [OF assms] by blast
  have d: "wal_durable_epoch (w_wal w') = 0" "wal_stable_epoch (w_wal w') = 0" "mds_repr w' []"
    "ready_writers (wal_config (w_wal w')) (unat (cf_writer_count (wal_config (w_wal w')))) (wal_writers (w_wal w'))"
    using w'(2) by (simp_all add: fresh_wal_def Let_def)
  have "consumed_writer_bytes wal 0 (replicate n zero_frame) = 0" for wal n by (induction n) (simp_all add: zero_frame_def)
  then have "nvwal_has_enough_writer_space (w_wal w') (wal_writers (w_wal w') ! i)" if "i < unat (cf_writer_count (wal_config (w_wal w')))" for i
    using d(4) that by (simp add: ready_writers_def nvwal_has_enough_writer_space_def zero_writer_def)
  then show ?thesis
    using w' d(1,2) fresh_state [OF w'(2)] mds.latest_length [OF d(3)] sys_inv_def by (auto simp: nvwal_query_durable_epoch_def)
qed

theorem init_in_empty_folders_witness:
  "\<exists>w'. nvwal_init pmem_exact False sample_config kNvwalInitCreateIfNotExists sample_start = Ok () w' \<and> sys_inv w' [] \<and>
     nvwal_query_durable_epoch (w_wal w') = kNvwalInvalidEpoch"
  using init_in_empty_folders [OF sample_clean] by blast

text \<open>
  C12. A configuration that passes the checks is well-formed: both folders are terminated strings without trailing
  slash that leave room for file names, there are between one and the maximal number of writers, each with a buffer, sizes are
  positive multiples of 512, and the NV quota is a whole number of segments between two and the maximum. Whatever
  the mode, nothing else of the context changes, and an unset segment size is replaced by the default.
\<close>

theorem accepted_config_well_formed:
  assumes "sanity_check_config mode w = Ok () w'"
  shows "config_ok (wal_config (w_wal w')) \<and> config_kept (wal_config (w_wal w)) (wal_config (w_wal w')) \<and>
     w_wal w' = (w_wal w)\<lparr>wal_config := wal_config (w_wal w')\<rparr>"
  using sanity_config [OF assms] by blast

theorem accepted_config_well_formed_witness:
  "config_ok accepted_config \<and> config_kept sample_config accepted_config"
  using accepted_config_well_formed [OF sample_accepted] by simp

end
